(* ===== verification/Prelude.thy ===== *)
theory Prelude
  imports Main "HOL-Library.Word" "HOL-Library.Monad_Syntax"
begin

text \<open>
  Shared vocabulary of the development: the machine types of \<^verbatim>\<open>libs/type.h\<close>, C arrays as lists
  whose every access is bounds checked, and the generic lemmas on lists, options and words that
  the components use.

  Conventions. A C function becomes a HOL function in the option monad: \<open>None\<close> stands for an
  execution with no defined continuation in C (a dereferenced \<^verbatim>\<open>NULL\<close>, an array index out of
  range) or for a loop that does not end, so a theorem of the form \<open>f x = Some y\<close> says that the
  call is memory safe, terminates and returns \<open>y\<close>. Values of type \<^verbatim>\<open>int\<close> are \<open>int\<close> (signed
  overflow is undefined in C); \<^verbatim>\<open>uint32_t\<close> and \<^verbatim>\<open>uint8_t\<close> are words and wrap.
\<close>

unbundle bit_operations_syntax

type_synonym u8 = "8 word"
type_synonym u32 = "32 word"

section \<open>C arrays\<close>

definition arr_get :: "'a list \<Rightarrow> int \<Rightarrow> 'a option" where
  "arr_get xs i = (if 0 \<le> i \<and> i < int (length xs) then Some (xs ! nat i) else None)"

definition arr_set :: "'a list \<Rightarrow> int \<Rightarrow> 'a \<Rightarrow> 'a list option" where
  "arr_set xs i v = (if 0 \<le> i \<and> i < int (length xs) then Some (xs[nat i := v]) else None)"

lemma arr_get_nat [simp]: "i < length xs \<Longrightarrow> arr_get xs (int i) = Some (xs ! i)"
  by (simp add: arr_get_def)

lemma arr_set_nat [simp]: "i < length xs \<Longrightarrow> arr_set xs (int i) v = Some (xs[i := v])"
  by (simp add: arr_set_def)

lemma arr_get_0 [simp]: "xs \<noteq> [] \<Longrightarrow> arr_get xs 0 = Some (xs ! 0)"
  by (simp add: arr_get_def)

lemma arr_set_0 [simp]: "xs \<noteq> [] \<Longrightarrow> arr_set xs 0 v = Some (xs[0 := v])"
  by (simp add: arr_set_def)

lemma arr_get_None_iff: "arr_get xs i = None \<longleftrightarrow> i < 0 \<or> int (length xs) \<le> i"
  by (auto simp: arr_get_def)

lemma arr_get_SomeD: "arr_get xs i = Some v \<Longrightarrow> 0 \<le> i \<and> nat i < length xs \<and> v = xs ! nat i"
  by (auto simp: arr_get_def split: if_splits)

lemma arr_set_SomeD:
  "arr_set xs i v = Some ys \<Longrightarrow> 0 \<le> i \<and> nat i < length xs \<and> ys = xs[nat i := v]"
  by (auto simp: arr_set_def split: if_splits)

text \<open>Division of C: towards zero.\<close>

definition c_div :: "int \<Rightarrow> int \<Rightarrow> int" where
  "c_div a b = sgn a * sgn b * (\<bar>a\<bar> div \<bar>b\<bar>)"

lemma c_div_nat: "c_div (int a) (int b) = int (a div b)"
  by (cases "a = 0"; cases "b = 0") (simp_all add: c_div_def zdiv_int)

section \<open>Counting loops\<close>

text \<open>\<^verbatim>\<open>for (i = 0; i < n; i++)\<close> with a body that may fail.\<close>

fun for_loop :: "nat \<Rightarrow> (nat \<Rightarrow> 's \<Rightarrow> 's option) \<Rightarrow> 's \<Rightarrow> 's option" where
  "for_loop 0 body s = Some s"
| "for_loop (Suc n) body s = do { s' \<leftarrow> for_loop n body s; body n s' }"

text \<open>A loop whose bodies all succeed and keep an invariant that may depend on the counter.\<close>

lemma for_loop_inv:
  assumes "P 0 s" and "\<And>i s. i < n \<Longrightarrow> P i s \<Longrightarrow> \<exists>s'. body i s = Some s' \<and> P (Suc i) s'"
  shows "\<exists>s'. for_loop n body s = Some s' \<and> P n s'"
  using assms(2)
proof (induction n)
  case 0
  then show ?case using assms(1) by simp
next
  case (Suc n)
  then obtain s' where "for_loop n body s = Some s'" "P n s'" by (metis less_SucI)
  then show ?case using Suc.prems[of n s'] by simp
qed

section \<open>Lists\<close>

lemma last_snoc_split: "xs \<noteq> [] \<Longrightarrow> \<exists>ys. xs = ys @ [last xs]"
  by (metis append_butlast_last_id)

lemma distinct_remove1_split:
  "distinct (as @ x # bs) \<Longrightarrow> remove1 x (as @ x # bs) = as @ bs"
  by (simp add: remove1_append)

lemma upt_Suc_conv: "a < b \<Longrightarrow> [a..<b] = a # [Suc a..<b]"
  by (rule upt_conv_Cons)

lemma takeWhile_all_length: "length (takeWhile P xs) = length xs \<longleftrightarrow> (\<forall>x\<in>set xs. P x)"
  by (metis order.refl takeWhile_eq_all_conv takeWhile_eq_take take_all_iff)

text \<open>Arrays of blocks of \<open>k\<close> elements, seen as one array; overwriting a part of an array.\<close>

definition splice :: "'a list \<Rightarrow> nat \<Rightarrow> 'a list \<Rightarrow> 'a list" where
  "splice xs i d = take i xs @ d @ drop (i + length d) xs"

lemma length_splice [simp]: "i + length d \<le> length xs \<Longrightarrow> length (splice xs i d) = length xs"
  by (simp add: splice_def)

lemma splice_Nil [simp]: "splice xs i [] = xs"
  by (simp add: splice_def)

lemma splice_splice:
  "i + length a + length b \<le> length xs \<Longrightarrow> splice (splice xs i a) (i + length a) b = splice xs i (a @ b)"
  by (simp add: splice_def algebra_simps)

lemma take_drop_splice: "i + length d \<le> length xs \<Longrightarrow> take (length d) (drop i (splice xs i d)) = d"
  by (simp add: splice_def)

lemma length_concat_blocks: "list_all (\<lambda>x. length x = k) xs \<Longrightarrow> length (concat xs) = k * length xs"
  by (induction xs) (simp_all add: algebra_simps)

lemma concat_split:
  assumes "list_all (\<lambda>x. length x = k) xs" "i < length xs"
  shows "concat xs = concat (take i xs) @ xs ! i @ concat (drop (Suc i) xs)" "length (concat (take i xs)) = k * i" "length (xs ! i) = k"
proof -
  show "concat xs = concat (take i xs) @ xs ! i @ concat (drop (Suc i) xs)"
    by (subst id_take_nth_drop[OF assms(2)]) simp
  have "list_all (\<lambda>x. length x = k) (take i xs)" using assms(1) by (auto simp: list_all_iff dest: in_set_takeD)
  then show "length (concat (take i xs)) = k * i" using length_concat_blocks[of k "take i xs"] assms(2) by simp
  show "length (xs ! i) = k" using assms by (simp add: list_all_length)
qed

lemma take_drop_concat:
  assumes "list_all (\<lambda>x. length x = k) xs" "i < length xs" "r + c \<le> k"
  shows "take c (drop (k * i + r) (concat xs)) = take c (drop r (xs ! i))"
  using assms(3) concat_split[OF assms(1,2)] by (subst concat_split(1)[OF assms(1,2)]) simp

lemma splice_concat:
  assumes "list_all (\<lambda>x. length x = k) xs" "i < length xs" "r + length d \<le> k"
  shows "concat (xs[i := splice (xs ! i) r d]) = splice (concat xs) (k * i + r) d"
proof -
  note c = concat_split[OF assms(1,2)]
  have "concat (xs[i := y]) = concat (take i xs) @ y @ concat (drop (Suc i) xs)" for y
    using assms(2) by (simp add: upd_conv_take_nth_drop)
  then show ?thesis using c(2,3) assms(3) unfolding c(1) by (simp add: splice_def)
qed

section \<open>Words\<close>

lemma uint_word_of_int_small: "0 \<le> k \<Longrightarrow> k < 2 ^ LENGTH('a) \<Longrightarrow> uint (word_of_int k :: 'a::len word) = k"
  by (simp add: uint_word_of_int_eq take_bit_int_eq_self)

lemma unat_word_of_nat_small: "k < 2 ^ LENGTH('a) \<Longrightarrow> unat (word_of_nat k :: 'a::len word) = k"
  by (simp add: unat_of_nat)

lemma sint_small:
  assumes "unat w < 2 ^ 31"
  shows "sint (w :: u32) = int (unat w)"
proof -
  have u: "uint w = int (unat w)" by simp
  have "signed_take_bit 31 (uint w) = uint w"
    unfolding u by (rule signed_take_bit_int_eq_self) (use assms in \<open>simp_all del: of_nat_unat\<close>)
  then show ?thesis by (simp add: sint_uint)
qed

lemma sint_large:
  assumes "2 ^ 31 \<le> unat w"
  shows "sint (w :: u32) = int (unat w) - 2 ^ 32"
proof -
  have u: "uint w = int (unat w)" by simp
  have b: "2 ^ 31 \<le> uint w" "uint w < 2 ^ 32"
    using assms unsigned_less[of w, where 'a = nat] unfolding u by (simp_all del: of_nat_unat)
  have "(uint w + 2 ^ 31) mod 2 ^ 32 = uint w + 2 ^ 31 - 2 ^ 32"
  proof -
    have "(uint w + 2 ^ 31 - 2 ^ 32) mod 2 ^ 32 = uint w + 2 ^ 31 - 2 ^ 32" by (rule mod_pos_pos_trivial) (use b in simp_all)
    then show ?thesis by (metis minus_mod_self2)
  qed
  then show ?thesis by (simp add: sint_uint signed_take_bit_eq_take_bit_shift take_bit_eq_mod)
qed

lemma sint_neg_iff: "sint (w :: u32) < 0 \<longleftrightarrow> 2 ^ 31 \<le> unat w"
proof (cases "2 ^ 31 \<le> unat w")
  case True
  then show ?thesis using unsigned_less[of w, where 'a = int] sint_large[of w] by simp
next
  case False
  then show ?thesis using sint_small[of w] by simp
qed

end
