(* ===== verification/Slist.thy ===== *)
theory Slist
  imports Prelude
begin

text \<open>
  The static linked list of \<^verbatim>\<open>libs/slist.c\<close>: an array of nodes in which the unused indices
  form a chain through the \<^verbatim>\<open>cursor\<close> fields, starting at and returning to node 0. The kernel uses
  it as the allocator of pids, physical frames, page tables, swap slots and file descriptors.
  The abstraction \<open>slist_rep l fs\<close> says that the free indices of \<open>l\<close> are exactly \<open>fs\<close>, in the
  order in which they will be handed out. The locale \<open>index_pool\<close> is the contract the clients
  rely on; every client pool of the kernel is an interpretation of it.
\<close>

record node_t =
  valid :: int
  cursor :: int

type_synonym slist_t = "node_t list"

section \<open>Operations\<close>

text \<open>The initialisation loop, from index \<open>i\<close> on.\<close>

fun slist_init_loop :: "slist_t \<Rightarrow> nat \<Rightarrow> nat \<Rightarrow> slist_t option" where
  "slist_init_loop l i 0 = Some l"
| "slist_init_loop l i (Suc n) =
     do { l' \<leftarrow> arr_set l (int i) \<lparr>valid = 0, cursor = int i + 1\<rparr>;
          slist_init_loop l' (Suc i) n }"

definition slist_init :: "slist_t \<Rightarrow> nat \<Rightarrow> slist_t option" where
  "slist_init l len =
     do { l1 \<leftarrow> slist_init_loop l 0 len;
          n0 \<leftarrow> arr_get l1 0;
          l2 \<leftarrow> arr_set l1 0 (n0\<lparr>valid := 1\<rparr>);
          nl \<leftarrow> arr_get l2 (int len - 1);
          arr_set l2 (int len - 1) (nl\<lparr>cursor := 0\<rparr>) }"

definition slist_is_insufficient :: "slist_t \<Rightarrow> bool option" where
  "slist_is_insufficient l = do { n0 \<leftarrow> arr_get l 0; Some (cursor n0 = 0) }"

definition slist_is_valid :: "slist_t \<Rightarrow> int \<Rightarrow> int \<Rightarrow> int option" where
  "slist_is_valid l index len =
     (if index \<le> 0 \<or> index \<ge> len then Some 0
      else do { n \<leftarrow> arr_get l index; Some (valid n) })"

definition slist_alloc :: "slist_t \<Rightarrow> (int \<times> slist_t) option" where
  "slist_alloc l =
     do { n0 \<leftarrow> arr_get l 0;
          let t = cursor n0;
          ins \<leftarrow> slist_is_insufficient l;
          if ins then Some (0, l)
          else do { nt \<leftarrow> arr_get l t;
                    l1 \<leftarrow> arr_set l 0 (n0\<lparr>cursor := cursor nt\<rparr>);
                    nt1 \<leftarrow> arr_get l1 t;
                    l2 \<leftarrow> arr_set l1 t (nt1\<lparr>valid := 1\<rparr>);
                    Some (t, l2) } }"

definition slist_free :: "slist_t \<Rightarrow> int \<Rightarrow> int \<Rightarrow> (int \<times> slist_t) option" where
  "slist_free l index len =
     do { n0 \<leftarrow> arr_get l 0;
          let t = cursor n0;
          v \<leftarrow> slist_is_valid l index len;
          if v = 0 then Some (0, l)
          else do { l1 \<leftarrow> arr_set l 0 (n0\<lparr>cursor := index\<rparr>);
                    ni \<leftarrow> arr_get l1 index;
                    l2 \<leftarrow> arr_set l1 index (ni\<lparr>valid := 0\<rparr>);
                    ni2 \<leftarrow> arr_get l2 index;
                    l3 \<leftarrow> arr_set l2 index (ni2\<lparr>cursor := t\<rparr>);
                    Some (1, l3) } }"

section \<open>The abstraction: the list of free indices\<close>

fun chain :: "slist_t \<Rightarrow> int \<Rightarrow> nat list \<Rightarrow> bool" where
  "chain l c [] \<longleftrightarrow> c = 0"
| "chain l c (f # fs) \<longleftrightarrow>
     c = int f \<and> 0 < f \<and> f < length l \<and> chain l (cursor (l ! f)) fs"

definition slist_rep :: "slist_t \<Rightarrow> nat list \<Rightarrow> bool" where
  "slist_rep l fs \<longleftrightarrow>
     l \<noteq> [] \<and> distinct fs \<and> chain l (cursor (l ! 0)) fs \<and> valid (l ! 0) = 1 \<and>
     (\<forall>i. 0 < i \<longrightarrow> i < length l \<longrightarrow> valid (l ! i) = (if i \<in> set fs then 0 else 1))"

lemma chain_range: "chain l c fs \<Longrightarrow> f \<in> set fs \<Longrightarrow> 0 < f \<and> f < length l"
  by (induction l c fs rule: chain.induct) auto

lemma chain_cong:
  "chain l c fs \<Longrightarrow> length l' = length l \<Longrightarrow>
   (\<And>f. f \<in> set fs \<Longrightarrow> cursor (l' ! f) = cursor (l ! f)) \<Longrightarrow> chain l' c fs"
  by (induction l c fs rule: chain.induct) auto

lemma slist_rep_range: "slist_rep l fs \<Longrightarrow> f \<in> set fs \<Longrightarrow> 0 < f \<and> f < length l"
  by (auto simp: slist_rep_def dest: chain_range)

lemma slist_rep_nonempty: "slist_rep l fs \<Longrightarrow> l \<noteq> []"
  by (simp add: slist_rep_def)

section \<open>Correctness of the operations\<close>

lemma slist_init_loop_eq:
  "i + n \<le> length l \<Longrightarrow>
   slist_init_loop l i n =
     Some (take i l @ map (\<lambda>k. \<lparr>valid = 0, cursor = int k + 1\<rparr>) [i..<i + n] @ drop (i + n) l)"
proof (induction n arbitrary: l i)
  case 0
  then show ?case by simp
next
  case (Suc n)
  let ?x = "\<lparr>valid = 0, cursor = int i + 1\<rparr>"
  have "slist_init_loop l i (Suc n) = slist_init_loop (l[i := ?x]) (Suc i) n"
    using Suc.prems by simp
  also have "\<dots> = Some (take (Suc i) (l[i := ?x]) @
      map (\<lambda>k. \<lparr>valid = 0, cursor = int k + 1\<rparr>) [Suc i..<Suc i + n] @ drop (Suc i + n) (l[i := ?x]))"
    using Suc.prems by (intro Suc.IH) simp
  also have "take (Suc i) (l[i := ?x]) = take i l @ [?x]"
    using Suc.prems by (simp add: take_Suc_conv_app_nth)
  finally show ?case by (simp add: upt_conv_Cons)
qed

definition fresh_slist :: "nat \<Rightarrow> slist_t" where
  "fresh_slist len = map (\<lambda>k. \<lparr>valid = (if k = 0 then 1 else 0),
                                cursor = (if Suc k = len then 0 else int k + 1)\<rparr>) [0..<len]"

lemma slist_init_eq:
  assumes "0 < len" and "len \<le> length l"
  shows "slist_init l len = Some (fresh_slist len @ drop len l)"
proof -
  obtain n where n: "len = Suc n" using assms(1) by (cases len) auto
  define m where "m = map (\<lambda>k. \<lparr>valid = 0, cursor = int k + 1\<rparr>) [0..<Suc n] @ drop (Suc n) l"
  have loop: "slist_init_loop l 0 len = Some m"
    using slist_init_loop_eq[of 0 len l] assms n by (simp add: m_def del: upt_Suc)
  have len_m: "length m = length l" using assms n by (simp add: m_def)
  have nth_m: "m ! k = (if k \<le> n then \<lparr>valid = 0, cursor = int k + 1\<rparr> else l ! k)"
    if "k < length l" for k
    using that assms n by (simp add: m_def nth_append less_Suc_eq_le del: upt_Suc)
  let ?m2 = "m[0 := (m ! 0)\<lparr>valid := 1\<rparr>]"
  have "?m2[n := (?m2 ! n)\<lparr>cursor := 0\<rparr>] = fresh_slist len @ drop len l"
  proof (rule nth_equalityI)
    show "length (?m2[n := (?m2 ! n)\<lparr>cursor := 0\<rparr>]) = length (fresh_slist len @ drop len l)"
      using assms len_m by (simp add: fresh_slist_def)
  next
    fix i assume "i < length (?m2[n := (?m2 ! n)\<lparr>cursor := 0\<rparr>])"
    then have i: "i < length l" by (simp add: len_m)
    have r: "(fresh_slist len @ drop len l) ! i =
      (if i \<le> n then \<lparr>valid = (if i = 0 then 1 else 0), cursor = (if i = n then 0 else int i + 1)\<rparr>
       else l ! i)"
      using i assms n by (simp add: fresh_slist_def nth_append less_Suc_eq_le del: upt_Suc)
    have l: "?m2 ! k = (if k = 0 then (m ! k)\<lparr>valid := 1\<rparr> else m ! k)" if "k < length l" for k
      using that len_m by (cases k) auto
    show "?m2[n := (?m2 ! n)\<lparr>cursor := 0\<rparr>] ! i = (fresh_slist len @ drop len l) ! i"
      unfolding r using i n assms nth_m[of 0] nth_m[of i] l[of i] l[of n]
      by (auto simp: nth_list_update len_m)
  qed
  moreover have "m \<noteq> []" and "n < length m" using n assms len_m by auto
  ultimately show ?thesis
    using n loop by (simp add: slist_init_def del: slist_init_loop.simps)
qed

lemma chain_upt:
  "(\<And>k. a \<le> k \<Longrightarrow> k < b \<Longrightarrow> cursor (l ! k) = (if Suc k = b then 0 else int k + 1)) \<Longrightarrow>
   0 < a \<Longrightarrow> a \<le> b \<Longrightarrow> b \<le> length l \<Longrightarrow> chain l (if a = b then 0 else int a) [a..<b]"
proof (induction "b - a" arbitrary: a)
  case 0
  then show ?case by simp
next
  case (Suc n)
  then have "a < b" by simp
  moreover have "chain l (if Suc a = b then 0 else int (Suc a)) [Suc a..<b]"
    using Suc by (intro Suc.hyps(1)) auto
  moreover have "[a..<b] = a # [Suc a..<b]" using \<open>a < b\<close> by (rule upt_conv_Cons)
  moreover have "cursor (l ! a) = (if Suc a = b then 0 else int (Suc a))"
    using Suc.prems(1)[of a] \<open>a < b\<close> by simp
  ultimately show ?case using Suc.prems by simp
qed

lemma slist_rep_fresh: "0 < len \<Longrightarrow> slist_rep (fresh_slist len) [1..<len]"
proof -
  assume len: "0 < len"
  have "chain (fresh_slist len) (if 1 = len then 0 else int 1) [1..<len]"
    using len by (intro chain_upt) (auto simp: fresh_slist_def)
  then show ?thesis using len by (auto simp: slist_rep_def fresh_slist_def)
qed

lemma slist_alloc_empty: "slist_rep l [] \<Longrightarrow> slist_alloc l = Some (0, l)"
  by (simp add: slist_rep_def slist_alloc_def slist_is_insufficient_def)

lemma slist_alloc_eq:
  assumes "slist_rep l (f # fs)"
  shows "slist_alloc l = Some (int f, (l[0 := (l ! 0)\<lparr>cursor := cursor (l ! f)\<rparr>])
                                        [f := (l ! f)\<lparr>valid := 1\<rparr>])"
  using assms by (auto simp: slist_rep_def slist_alloc_def slist_is_insufficient_def)

lemma slist_alloc_rep:
  assumes "slist_rep l (f # fs)"
  shows "\<exists>l'. slist_alloc l = Some (int f, l') \<and> slist_rep l' fs \<and> length l' = length l"
proof -
  let ?l' = "(l[0 := (l ! 0)\<lparr>cursor := cursor (l ! f)\<rparr>])[f := (l ! f)\<lparr>valid := 1\<rparr>]"
  from assms have f: "0 < f" "f < length l" "f \<notin> set fs"
    and ch: "chain l (cursor (l ! f)) fs" by (auto simp: slist_rep_def)
  have "chain ?l' (cursor (l ! f)) fs"
    by (rule chain_cong[OF ch]) (use f chain_range[OF ch] in \<open>auto simp: nth_list_update\<close>)
  then have "slist_rep ?l' fs"
    using assms f by (auto simp: slist_rep_def nth_list_update)
  with slist_alloc_eq[OF assms] show ?thesis by simp
qed

lemma slist_is_valid_rep:
  assumes "slist_rep l fs"
  shows "slist_is_valid l index (int (length l)) =
     Some (if 0 < index \<and> index < int (length l) \<and> nat index \<notin> set fs then 1 else 0)"
  using assms by (auto simp: slist_is_valid_def slist_rep_def arr_get_def)

lemma slist_free_invalid:
  assumes "slist_rep l fs" and "index \<le> 0 \<or> int (length l) \<le> index \<or> nat index \<in> set fs"
  shows "slist_free l index (int (length l)) = Some (0, l)"
  using assms slist_rep_nonempty[OF assms(1)]
  by (auto simp: slist_free_def slist_is_valid_rep[OF assms(1)])

lemma slist_free_rep:
  assumes rep: "slist_rep l fs" and i: "0 < i" "i < length l" "i \<notin> set fs"
  shows "\<exists>l'. slist_free l (int i) (int (length l)) = Some (1, l') \<and> slist_rep l' (i # fs) \<and>
              length l' = length l"
proof -
  let ?l' = "(l[0 := (l ! 0)\<lparr>cursor := int i\<rparr>])[i := (l ! i)\<lparr>valid := 0, cursor := cursor (l ! 0)\<rparr>]"
  from rep have ch: "chain l (cursor (l ! 0)) fs" by (simp add: slist_rep_def)
  have "chain ?l' (cursor (l ! 0)) fs"
    by (rule chain_cong[OF ch]) (use i chain_range[OF ch] in \<open>auto simp: nth_list_update\<close>)
  then have "slist_rep ?l' (i # fs)"
    using rep i by (auto simp: slist_rep_def nth_list_update)
  moreover have "slist_free l (int i) (int (length l)) = Some (1, ?l')"
    using slist_rep_nonempty[OF rep] i slist_is_valid_rep[OF rep, of "int i"]
    by (simp add: slist_free_def)
  ultimately show ?thesis by simp
qed

section \<open>The allocator contract\<close>

text \<open>Successive allocations from a pool, collecting the handles.\<close>

fun alloc_many :: "('p \<Rightarrow> ('h \<times> 'p) option) \<Rightarrow> nat \<Rightarrow> 'p \<Rightarrow> ('h list \<times> 'p) option" where
  "alloc_many al 0 p = Some ([], p)"
| "alloc_many al (Suc n) p =
     do { (h, p1) \<leftarrow> al p; (hs, p2) \<leftarrow> alloc_many al n p1; Some (h # hs, p2) }"

text \<open>
  What a client of a pool relies on. The pool hands out the handles \<open>enc i\<close> of the indices
  \<open>0 < i < cap\<close>; \<open>rep p fs\<close> says that \<open>fs\<close> are the free ones. When there is none it returns
  \<open>fail\<close> and does not change; freeing a handle that is not allocated is refused.
\<close>

locale index_pool =
  fixes rep :: "'p \<Rightarrow> nat list \<Rightarrow> bool"
    and cap :: nat
    and enc :: "nat \<Rightarrow> 'h"
    and fail :: 'h
    and alloc :: "'p \<Rightarrow> ('h \<times> 'p) option"
    and free :: "'p \<Rightarrow> 'h \<Rightarrow> (int \<times> 'p) option"
  assumes rep_distinct: "rep p fs \<Longrightarrow> distinct fs"
    and rep_range: "rep p fs \<Longrightarrow> f \<in> set fs \<Longrightarrow> 0 < f \<and> f < cap"
    and enc_inj: "0 < i \<Longrightarrow> i < cap \<Longrightarrow> 0 < j \<Longrightarrow> j < cap \<Longrightarrow> enc i = enc j \<Longrightarrow> i = j"
    and enc_not_fail: "0 < i \<Longrightarrow> i < cap \<Longrightarrow> enc i \<noteq> fail"
    and alloc_some: "rep p (f # fs) \<Longrightarrow> \<exists>p'. alloc p = Some (enc f, p') \<and> rep p' fs"
    and alloc_none: "rep p [] \<Longrightarrow> alloc p = Some (fail, p)"
    and free_used: "rep p fs \<Longrightarrow> 0 < i \<Longrightarrow> i < cap \<Longrightarrow> i \<notin> set fs \<Longrightarrow>
          \<exists>p'. free p (enc i) = Some (1, p') \<and> rep p' (i # fs)"
    and free_unused: "rep p fs \<Longrightarrow> i \<in> set fs \<Longrightarrow> free p (enc i) = Some (0, p)"
begin

lemma alloc_total: "rep p fs \<Longrightarrow> \<exists>h p'. alloc p = Some (h, p') \<and> rep p' (tl fs)"
  by (cases fs) (auto dest: alloc_some alloc_none)

lemma alloc_fresh:
  assumes "rep p fs" and "alloc p = Some (h, p')" and "h \<noteq> fail"
  shows "\<exists>f. h = enc f \<and> f \<in> set fs \<and> 0 < f \<and> f < cap \<and> rep p' (remove1 f fs)"
proof (cases fs)
  case Nil
  with assms show ?thesis by (auto dest: alloc_none)
next
  case (Cons f fs')
  with assms alloc_some[of p f fs'] rep_range[of p fs f] show ?thesis by auto
qed

lemma alloc_fail_iff:
  assumes "rep p fs" and "alloc p = Some (h, p')"
  shows "h = fail \<longleftrightarrow> fs = []"
proof (cases fs)
  case Nil
  with assms show ?thesis by (auto dest: alloc_none)
next
  case (Cons f fs')
  with assms alloc_some[of p f fs'] rep_range[of p fs f] enc_not_fail[of f] show ?thesis by auto
qed

lemma free_then_alloc:
  assumes "rep p fs" and "0 < i" "i < cap" "i \<notin> set fs"
  shows "\<exists>p' p''. free p (enc i) = Some (1, p') \<and> alloc p' = Some (enc i, p'') \<and> rep p'' fs"
  using free_used[OF assms] alloc_some by blast

lemma double_free:
  assumes "rep p fs" and "0 < i" "i < cap" "i \<notin> set fs"
  shows "\<exists>p'. free p (enc i) = Some (1, p') \<and> free p' (enc i) = Some (0, p')"
  using free_used[OF assms] free_unused[of _ "i # fs" i] by auto

lemma alloc_many_take:
  "rep p fs \<Longrightarrow> n \<le> length fs \<Longrightarrow>
   \<exists>p'. alloc_many alloc n p = Some (map enc (take n fs), p') \<and> rep p' (drop n fs)"
proof (induction n arbitrary: p fs)
  case 0
  then show ?case by simp
next
  case (Suc n)
  then obtain f fs' where fs: "fs = f # fs'" by (cases fs) auto
  with Suc.prems obtain p1 where p1: "alloc p = Some (enc f, p1)" "rep p1 fs'"
    using alloc_some by blast
  with Suc.IH[of p1 fs'] Suc.prems fs obtain p2
    where "alloc_many alloc n p1 = Some (map enc (take n fs'), p2)" "rep p2 (drop n fs')" by auto
  with p1 fs show ?case by simp
qed

lemma alloc_many_distinct:
  assumes "rep p fs" and "n \<le> length fs" and "alloc_many alloc n p = Some (hs, p')"
  shows "distinct hs \<and> length hs = n \<and> fail \<notin> set hs"
proof -
  from alloc_many_take[OF assms(1,2)] assms(3) have hs: "hs = map enc (take n fs)" by auto
  have sub: "set (take n fs) \<subseteq> set fs" by (rule set_take_subset)
  then have "inj_on enc (set (take n fs))"
    using rep_range[OF assms(1)] by (intro inj_onI enc_inj) blast+
  moreover have "fail \<noteq> enc f" if "f \<in> set (take n fs)" for f
    using that sub rep_range[OF assms(1), of f] enc_not_fail[of f] by auto
  ultimately show ?thesis
    using hs assms(2) rep_distinct[OF assms(1)] by (auto simp: distinct_map)
qed

text \<open>
  The clients keep a pool in their state and renumber its handles (\<^verbatim>\<open>slist_alloc(l) - 1\<close>, a swap
  address). A pool that is a part of a larger state, at \<open>get\<close> and \<open>put\<close>, seen through a renumbering
  \<open>g\<close> that is injective on the handles and has the inverse \<open>g'\<close> there, is a pool again.
\<close>

lemma embed:
  assumes get_put: "\<And>m l. get (put m l) = l" and put_get: "\<And>m. put m (get m) = m"
    and inj: "\<And>i j. 0 < i \<Longrightarrow> i < cap \<Longrightarrow> 0 < j \<Longrightarrow> j < cap \<Longrightarrow> g (enc i) = g (enc j) \<Longrightarrow> enc i = enc j"
    and nf: "\<And>i. 0 < i \<Longrightarrow> i < cap \<Longrightarrow> g (enc i) \<noteq> g fail"
    and inv: "\<And>i. 0 < i \<Longrightarrow> i < cap \<Longrightarrow> g' (g (enc i)) = enc i"
  shows "index_pool (\<lambda>m fs. rep (get m) fs) cap (\<lambda>i. g (enc i)) (g fail)
           (\<lambda>m. do { (h, l) \<leftarrow> alloc (get m); Some (g h, put m l) })
           (\<lambda>m h. do { (r, l) \<leftarrow> free (get m) (g' h); Some (r, put m l) })"
proof unfold_locales
  fix m f fs
  assume "rep (get m) (f # fs)"
  then show "\<exists>m'. (do { (h, l) \<leftarrow> alloc (get m); Some (g h, put m l) }) = Some (g (enc f), m') \<and> rep (get m') fs"
    using alloc_some[of "get m" f fs] by (auto simp: get_put)
next
  fix m fs i
  assume *: "rep (get m) fs" "i \<in> set fs"
  with inv[of i] rep_range[of "get m" fs i]
  show "(do { (r, l) \<leftarrow> free (get m) (g' (g (enc i))); Some (r, put m l) }) = Some (0, m)"
    by (simp add: free_unused[OF *] put_get)
next
  fix m fs i
  assume *: "rep (get m) fs" "0 < i" "i < cap" "i \<notin> set fs"
  then show "\<exists>m'. (do { (r, l) \<leftarrow> free (get m) (g' (g (enc i))); Some (r, put m l) }) = Some (1, m') \<and> rep (get m') (i # fs)"
    using free_used[OF *] inv[of i] by (auto simp: get_put)
qed (auto simp: alloc_none put_get nf intro: enc_inj inj dest: rep_distinct rep_range)

end

text \<open>The raw list is a pool: the handle of an index is the index, failure is 0.\<close>

definition pool_rep :: "nat \<Rightarrow> slist_t \<Rightarrow> nat list \<Rightarrow> bool" where
  "pool_rep len l fs \<longleftrightarrow> slist_rep l fs \<and> length l = len"

interpretation sl: index_pool "pool_rep len" len int 0 slist_alloc
  "\<lambda>l i. slist_free l i (int len)" for len :: nat
proof unfold_locales
  fix p f fs
  assume "pool_rep len p (f # fs)"
  then show "\<exists>p'. slist_alloc p = Some (int f, p') \<and> pool_rep len p' fs"
    using slist_alloc_rep[of p f fs] by (auto simp: pool_rep_def)
next
  fix p fs i
  assume "pool_rep len p fs" "0 < i" "i < len" "i \<notin> set fs"
  then show "\<exists>p'. slist_free p (int i) (int len) = Some (1, p') \<and> pool_rep len p' (i # fs)"
    using slist_free_rep[of p fs i] by (auto simp: pool_rep_def)
next
  fix p fs i
  assume "pool_rep len p fs" "i \<in> set fs"
  then show "slist_free p (int i) (int len) = Some (0, p)"
    using slist_free_invalid[of p fs "int i"] by (auto simp: pool_rep_def)
qed (auto simp: pool_rep_def slist_rep_def slist_alloc_empty dest: chain_range)

lemma pool_rep_init:
  "0 < len \<Longrightarrow> length l = len \<Longrightarrow> \<exists>l'. slist_init l len = Some l' \<and> pool_rep len l' [1..<len]"
  using slist_init_eq[of len l] slist_rep_fresh[of len] by (simp add: pool_rep_def fresh_slist_def)

end
