(* ===== verification/Pcb.thy ===== *)
theory Pcb
  imports Slist
begin

text \<open>
  The data of \<^verbatim>\<open>include/sched/sched.h\<close>, \<^verbatim>\<open>include/sync/*.h\<close> and the page-directory entry of
  \<^verbatim>\<open>include/mm/memory.h\<close>. A pointer to a process control block is its index in the array
  \<^verbatim>\<open>pcb[MAX_TASK_NUM]\<close> and \<^verbatim>\<open>NULL\<close> is \<open>None\<close>; a pointer to a queue is its identity \<open>qid\<close>, one
  constructor for each place of the kernel that embeds a \<^verbatim>\<open>queue_t\<close>.
\<close>

abbreviation MAX_TASK_NUM :: nat where "MAX_TASK_NUM \<equiv> 16"
abbreviation MAX_LOCKS_NUM :: nat where "MAX_LOCKS_NUM \<equiv> 16"

record regs_context_t =
  regs :: "nat \<Rightarrow> u32"
  cp0_status :: u32
  cp0_cause :: u32
  cp0_epc :: u32
  cp0_badvaddr :: u32
  hi :: u32
  lo :: u32

datatype task_status_t =
  TASK_BLOCKED | TASK_RUNNING | TASK_READY | TASK_EXITED | TASK_SLEEPING | TASK_WAITING

datatype task_type_t = KERNEL_PROCESS | KERNEL_THREAD | USER_PROCESS | USER_THREAD

record queue_t =
  head :: "nat option"
  tail :: "nat option"

text \<open>
  \<^verbatim>\<open>ready_queue\<close>, \<^verbatim>\<open>sleep_queue\<close>, \<^verbatim>\<open>recv_block_queue\<close>, \<^verbatim>\<open>pcb[i].wait_queue\<close>, and the queues inside
  mutex locks, semaphores, conditions and barriers. These four kinds of objects are addressed by a
  number; the locks numbered below \<open>MAX_LOCKS_NUM\<close> are those of the kernel's array \<^verbatim>\<open>locks\<close>.
\<close>

datatype qid = ReadyQ | SleepQ | RecvQ | WaitQ nat | LockQ nat | SemQ nat | CondQ nat | BarrierQ nat

record pde_t =
  pool_num :: u32
  pde_valid :: u8

text \<open>
  Where a task that called \<^verbatim>\<open>do_scheduler\<close> continues when it is scheduled again. In the code this is
  the saved kernel register context together with the kernel stack; each call of \<^verbatim>\<open>do_scheduler\<close>
  that can return has one constructor. \<open>K_exit\<close> is \<^verbatim>\<open>exception_handler_exit\<close>: back to the user.
\<close>

text \<open>The locals of \<^verbatim>\<open>TLB_exception_helper\<close> that live across a switch while a page is swapped.\<close>

record tlb_ctx =
  c_refill :: bool
  c_entry_hi :: u32
  c_badvaddr :: u32
  c_pool_num :: nat
  c_ptn :: nat

datatype kcont =
    K_exit | K_mutex_loop nat | K_mutex_acquire nat | K_kill_ret
  | K_swap_out "u32 option" tlb_ctx nat
  | K_swap_in u32 int tlb_ctx

record pcb_t =
  kernel_regs_context :: regs_context_t
  user_regs_context :: regs_context_t
  kernel_stack_size :: u32
  user_stack_size :: u32
  prev_pcb :: "nat option"
  next_pcb :: "nat option"
  pid :: int
  priority :: int
  scheduler_priority :: int
  wait_time :: int
  awakened_time :: u32
  pname :: string
  ptype :: task_type_t
  status :: task_status_t
  lock_num :: int
  pqueue :: "qid option"
  page_dir :: "nat \<Rightarrow> pde_t"
  cursor_x :: int
  cursor_y :: int
  kcont :: kcont

type_synonym heap = "nat \<Rightarrow> pcb_t"

text \<open>The synchronisation objects; their queues are \<open>LockQ\<close>, \<open>SemQ\<close>, \<open>CondQ\<close> and \<open>BarrierQ\<close>.\<close>

datatype lock_status_t = UNLOCKED | LOCKED

record mutex_lock_t =
  lk_status :: lock_status_t
  lk_owner :: int

record semaphore_t =
  sem_value :: int

record condition_t =
  waiting_num :: int

record barrier_t =
  goal :: int
  arrived :: int

text \<open>
  The kernel's globals (\<^verbatim>\<open>sched.c\<close>, \<^verbatim>\<open>time.c\<close>, \<^verbatim>\<open>lock.c\<close>, the cursor of \<^verbatim>\<open>screen.c\<close>), the coprocessor
  register \<^verbatim>\<open>EntryHi\<close>, and \<open>halted\<close>: the message of the \<^verbatim>\<open>panic\<close> that stopped the machine, if any.
\<close>

record kstate =
  pcb :: heap
  queues :: "qid \<Rightarrow> queue_t"
  current_running :: nat
  pid_list :: slist_t
  time_elapsed :: u32
  screen_cursor_x :: int
  screen_cursor_y :: int
  entry_hi :: u32
  locks :: "nat \<Rightarrow> mutex_lock_t"
  sems :: "nat \<Rightarrow> semaphore_t"
  conds :: "nat \<Rightarrow> condition_t"
  barriers :: "nat \<Rightarrow> barrier_t"
  halted :: "string option"

record task_info_t =
  entry_point :: u32
  ti_type :: task_type_t
  ti_priority :: int
  ti_name :: string

text \<open>The order of the enumeration constants of \<^verbatim>\<open>task_status_t\<close>, which indexes the name table of
  \<^verbatim>\<open>show_process\<close>.\<close>

fun task_status_ord :: "task_status_t \<Rightarrow> nat" where
  "task_status_ord TASK_BLOCKED = 0"
| "task_status_ord TASK_RUNNING = 1"
| "task_status_ord TASK_READY = 2"
| "task_status_ord TASK_EXITED = 3"
| "task_status_ord TASK_SLEEPING = 4"
| "task_status_ord TASK_WAITING = 5"

lemma task_status_ord_inj: "task_status_ord a = task_status_ord b \<longleftrightarrow> a = b"
  by (cases a; cases b) simp_all

instantiation task_status_t :: linorder
begin

definition less_eq_task_status_t :: "task_status_t \<Rightarrow> task_status_t \<Rightarrow> bool" where
  "a \<le> b \<longleftrightarrow> task_status_ord a \<le> task_status_ord b"

definition less_task_status_t :: "task_status_t \<Rightarrow> task_status_t \<Rightarrow> bool" where
  "a < b \<longleftrightarrow> task_status_ord a < task_status_ord b"

instance
  by standard (auto simp: less_eq_task_status_t_def less_task_status_t_def task_status_ord_inj)

end

section \<open>Writing the link fields\<close>

definition set_next :: "heap \<Rightarrow> nat \<Rightarrow> nat option \<Rightarrow> heap" where
  "set_next h p v = h(p := (h p)\<lparr>next_pcb := v\<rparr>)"

definition set_prev :: "heap \<Rightarrow> nat \<Rightarrow> nat option \<Rightarrow> heap" where
  "set_prev h p v = h(p := (h p)\<lparr>prev_pcb := v\<rparr>)"

lemma next_set_next [simp]: "next_pcb (set_next h p v x) = (if x = p then v else next_pcb (h x))"
  by (simp add: set_next_def)

lemma next_set_prev [simp]: "next_pcb (set_prev h p v x) = next_pcb (h x)"
  by (simp add: set_prev_def)

lemma prev_set_prev [simp]: "prev_pcb (set_prev h p v x) = (if x = p then v else prev_pcb (h x))"
  by (simp add: set_prev_def)

lemma prev_set_next [simp]: "prev_pcb (set_next h p v x) = prev_pcb (h x)"
  by (simp add: set_next_def)

lemma upd_next_prev: "c\<lparr>next_pcb := a, prev_pcb := b\<rparr> = c\<lparr>prev_pcb := b, next_pcb := a\<rparr>" for c :: pcb_t
  by (cases c) simp

lemma set_next_prev_commute: "set_prev (set_next h x a) y b = set_next (set_prev h y b) x a"
  by (auto simp: set_next_def set_prev_def upd_next_prev fun_eq_iff)

text \<open>A block without its links: what the queue operations never change.\<close>

definition unlinked :: "pcb_t \<Rightarrow> pcb_t" where
  "unlinked x = x\<lparr>prev_pcb := None, next_pcb := None\<rparr>"

lemma unlinked_set_next [simp]: "unlinked (set_next h p v x) = unlinked (h x)"
  by (simp add: set_next_def unlinked_def)

lemma unlinked_set_prev [simp]: "unlinked (set_prev h p v x) = unlinked (h x)"
  by (simp add: set_prev_def unlinked_def)

lemma unlinked_fields:
  assumes "unlinked x = unlinked y"
  shows "pid x = pid y" "priority x = priority y" "scheduler_priority x = scheduler_priority y"
    "wait_time x = wait_time y" "status x = status y" "lock_num x = lock_num y"
    "pqueue x = pqueue y" "kcont x = kcont y" "awakened_time x = awakened_time y"
    "user_regs_context x = user_regs_context y" "page_dir x = page_dir y" "ptype x = ptype y"
  using assms by (cases x; cases y; simp add: unlinked_def)+

lemma set_next_other: "x \<noteq> p \<Longrightarrow> set_next h p v x = h x"
  by (simp add: set_next_def)

lemma set_prev_other: "x \<noteq> p \<Longrightarrow> set_prev h p v x = h x"
  by (simp add: set_prev_def)

end
