(* ===== verification/Queue.thy ===== *)
theory Queue
  imports Pcb
begin

text \<open>
  The intrusive doubly linked queues of \<^verbatim>\<open>kernel/sched/queue.c\<close>, whose links live in the process
  control blocks. \<open>is_queue h q xs\<close> says that in heap \<open>h\<close> the queue \<open>q\<close> is well linked in both
  directions and holds the blocks \<open>xs\<close> from head to tail. The operations are proved to implement
  the list operations and to touch no block outside the queue; the locale \<open>task_queue\<close> states this
  as the contract of a queue, and derives from it what the scheduler needs about a family of
  queues that share one heap.
\<close>

section \<open>Operations\<close>

definition queue_init :: queue_t where
  "queue_init = \<lparr>head = None, tail = None\<rparr>"

definition queue_is_empty :: "queue_t \<Rightarrow> bool" where
  "queue_is_empty q \<longleftrightarrow> head q = None"

definition queue_push :: "heap \<Rightarrow> queue_t \<Rightarrow> nat \<Rightarrow> (heap \<times> queue_t) option" where
  "queue_push h q item =
     (case head q of
        None \<Rightarrow> Some (set_prev (set_next h item None) item None,
                      q\<lparr>head := Some item, tail := Some item\<rparr>)
      | Some _ \<Rightarrow>
          do { t \<leftarrow> tail q;
               let h1 = set_next h t (Some item);
               let h2 = set_next h1 item None;
               let h3 = set_prev h2 item (tail q);
               Some (h3, q\<lparr>tail := Some item\<rparr>) })"

text \<open>The search loop of \<^verbatim>\<open>queue_push_increasingly\<close>.\<close>

partial_function (option) push_position :: "heap \<Rightarrow> nat \<Rightarrow> nat option \<Rightarrow> nat option option" where
  "push_position h item t =
     (case t of
        None \<Rightarrow> Some None
      | Some x \<Rightarrow> if priority (h x) > priority (h item) then push_position h item (next_pcb (h x))
                  else Some (Some x))"

definition queue_push_increasingly :: "heap \<Rightarrow> queue_t \<Rightarrow> nat \<Rightarrow> (heap \<times> queue_t) option" where
  "queue_push_increasingly h q item =
     (if head q = None
      then Some (set_prev (set_next h item None) item None,
                 q\<lparr>head := Some item, tail := Some item\<rparr>)
      else
        do { t \<leftarrow> push_position h item (head q);
             if t = head q
             then do { x \<leftarrow> t;
                       let h1 = set_prev h x (Some item);
                       let h2 = set_next h1 item t;
                       let h3 = set_prev h2 item None;
                       Some (h3, q\<lparr>head := Some item\<rparr>) }
             else (case t of
                 None \<Rightarrow>
                   do { x \<leftarrow> tail q;
                        let h1 = set_next h x (Some item);
                        let h2 = set_prev h1 item (Some x);
                        let h3 = set_next h2 item None;
                        Some (h3, q\<lparr>tail := Some item\<rparr>) }
               | Some x \<Rightarrow>
                   do { p \<leftarrow> prev_pcb (h x);
                        let h1 = set_next h p (Some item);
                        let h2 = set_prev h1 item (prev_pcb (h1 x));
                        let h3 = set_prev h2 x (Some item);
                        let h4 = set_next h3 item (Some x);
                        Some (h4, q) }) })"

definition queue_dequeue :: "heap \<Rightarrow> queue_t \<Rightarrow> (nat \<times> heap \<times> queue_t) option" where
  "queue_dequeue h q =
     do { hd \<leftarrow> head q;
          (case next_pcb (h hd) of
             None \<Rightarrow> Some (hd, h, q\<lparr>head := None, tail := None\<rparr>)
           | Some n \<Rightarrow>
               let h1 = set_prev h n None;
                   h2 = set_prev h1 hd None;
                   h3 = set_next h2 hd None
               in Some (hd, h3, q\<lparr>head := Some n\<rparr>)) }"

definition queue_remove :: "heap \<Rightarrow> queue_t \<Rightarrow> nat \<Rightarrow> (nat option \<times> heap \<times> queue_t) option" where
  "queue_remove h q item =
     (let next = next_pcb (h item) in
      if Some item = head q \<and> Some item = tail q
      then Some (next, h, q\<lparr>head := None, tail := None\<rparr>)
      else
        do { (h1, q1) \<leftarrow>
               (if Some item = head q
                then do { n \<leftarrow> next_pcb (h item);
                          Some (set_prev h n None, q\<lparr>head := Some n\<rparr>) }
                else if Some item = tail q
                then do { p \<leftarrow> prev_pcb (h item);
                          Some (set_next h p None, q\<lparr>tail := Some p\<rparr>) }
                else do { p \<leftarrow> prev_pcb (h item);
                          let h' = set_next h p (next_pcb (h item));
                          n \<leftarrow> next_pcb (h' item);
                          Some (set_prev h' n (prev_pcb (h' item)), q) });
             Some (next, set_next (set_prev h1 item None) item None, q1) })"

section \<open>The abstraction\<close>

definition first_ptr :: "nat list \<Rightarrow> nat option \<Rightarrow> nat option" where
  "first_ptr xs nx = (case xs of [] \<Rightarrow> nx | x # _ \<Rightarrow> Some x)"

definition last_ptr :: "nat option \<Rightarrow> nat list \<Rightarrow> nat option" where
  "last_ptr pv xs = (if xs = [] then pv else Some (last xs))"

text \<open>A doubly linked segment: \<open>pv\<close> is the block before it, \<open>nx\<close> the block after it.\<close>

fun dlseg :: "heap \<Rightarrow> nat option \<Rightarrow> nat list \<Rightarrow> nat option \<Rightarrow> bool" where
  "dlseg h pv [] nx \<longleftrightarrow> True"
| "dlseg h pv (x # xs) nx \<longleftrightarrow>
     prev_pcb (h x) = pv \<and> next_pcb (h x) = first_ptr xs nx \<and> dlseg h (Some x) xs nx"

definition is_queue :: "heap \<Rightarrow> queue_t \<Rightarrow> nat list \<Rightarrow> bool" where
  "is_queue h q xs \<longleftrightarrow>
     distinct xs \<and> head q = first_ptr xs None \<and> tail q = last_ptr None xs \<and> dlseg h None xs None"

lemma first_ptr_simps [simp]:
  "first_ptr [] nx = nx" "first_ptr (x # xs) nx = Some x"
  "first_ptr (xs @ ys) nx = first_ptr xs (first_ptr ys nx)"
  by (auto simp: first_ptr_def split: list.split)

lemma last_ptr_simps [simp]:
  "last_ptr pv [] = pv" "last_ptr pv [x] = Some x" "last_ptr pv (xs @ [x]) = Some x"
  "last_ptr pv (x # xs) = last_ptr (Some x) xs"
  by (auto simp: last_ptr_def)

lemma last_ptr_append [simp]: "last_ptr pv (xs @ ys) = last_ptr (last_ptr pv xs) ys"
  by (simp add: last_ptr_def)

lemma dlseg_append:
  "dlseg h pv (xs @ ys) nx \<longleftrightarrow> dlseg h pv xs (first_ptr ys nx) \<and> dlseg h (last_ptr pv xs) ys nx"
  by (induction xs arbitrary: pv) auto

lemma dlseg_cong:
  "(\<And>x. x \<in> set xs \<Longrightarrow> next_pcb (h' x) = next_pcb (h x) \<and> prev_pcb (h' x) = prev_pcb (h x)) \<Longrightarrow>
   dlseg h' pv xs nx = dlseg h pv xs nx"
  by (induction xs arbitrary: pv) auto

lemma dlseg_set_next [simp]: "x \<notin> set xs \<Longrightarrow> dlseg (set_next h x v) pv xs nx = dlseg h pv xs nx"
  by (rule dlseg_cong) auto

lemma dlseg_set_prev [simp]: "x \<notin> set xs \<Longrightarrow> dlseg (set_prev h x v) pv xs nx = dlseg h pv xs nx"
  by (rule dlseg_cong) auto

lemma is_queue_cong:
  "(\<And>x. x \<in> set xs \<Longrightarrow> next_pcb (h' x) = next_pcb (h x) \<and> prev_pcb (h' x) = prev_pcb (h x)) \<Longrightarrow>
   is_queue h' q xs = is_queue h q xs"
  using dlseg_cong[of xs h' h None None] by (simp add: is_queue_def)

lemma is_queue_distinct: "is_queue h q xs \<Longrightarrow> distinct xs"
  by (simp add: is_queue_def)

lemma is_queue_empty_iff: "is_queue h q xs \<Longrightarrow> queue_is_empty q \<longleftrightarrow> xs = []"
  by (cases xs) (auto simp: is_queue_def queue_is_empty_def)

lemma is_queue_init [simp]: "is_queue h queue_init []"
  by (simp add: is_queue_def queue_init_def)

text \<open>Changing the successor recorded in the last block of a segment, the predecessor in the first.\<close>

lemma dlseg_relink_last:
  "xs \<noteq> [] \<Longrightarrow> distinct xs \<Longrightarrow> dlseg h pv xs nx \<Longrightarrow> dlseg (set_next h (last xs) nx') pv xs nx'"
proof (induction xs arbitrary: pv)
  case (Cons x xs)
  show ?case
  proof (cases xs)
    case Nil
    with Cons.prems show ?thesis by simp
  next
    case (Cons y ys)
    then have "last xs \<noteq> x" using Cons.prems by (metis distinct.simps(2) last_in_set list.discI)
    with Cons Cons.prems Cons.IH[of "Some x"] \<open>xs = y # ys\<close> show ?thesis by auto
  qed
qed simp

lemma dlseg_relink_first:
  "x \<notin> set xs \<Longrightarrow> dlseg h pv (x # xs) nx \<Longrightarrow> dlseg (set_prev h x pv') pv' (x # xs) nx"
  by simp

section \<open>The operations implement the list operations\<close>

text \<open>\<open>relinks A h h'\<close>: going from \<open>h\<close> to \<open>h'\<close> only changes link fields, and only of blocks in \<open>A\<close>.\<close>

definition relinks :: "nat set \<Rightarrow> heap \<Rightarrow> heap \<Rightarrow> bool" where
  "relinks A h h' \<longleftrightarrow> (\<forall>p. p \<notin> A \<longrightarrow> h' p = h p) \<and> (\<forall>p. unlinked (h' p) = unlinked (h p))"

lemma relinks_refl [simp]: "relinks A h h"
  by (simp add: relinks_def)

lemma relinks_set_next: "relinks A h h' \<Longrightarrow> p \<in> A \<Longrightarrow> relinks A h (set_next h' p v)"
  by (auto simp: relinks_def set_next_def unlinked_def)

lemma relinks_set_prev: "relinks A h h' \<Longrightarrow> p \<in> A \<Longrightarrow> relinks A h (set_prev h' p v)"
  by (auto simp: relinks_def set_prev_def unlinked_def)

lemmas relinks_intros = relinks_set_next relinks_set_prev relinks_refl

lemma is_queue_frame: "is_queue h q xs \<Longrightarrow> relinks A h h' \<Longrightarrow> A \<inter> set xs = {} \<Longrightarrow> is_queue h' q xs"
  by (subst is_queue_cong[of xs h' h]) (auto simp: relinks_def disjoint_iff)

lemma queue_push_rep:
  assumes q: "is_queue h q xs" and x: "x \<notin> set xs"
  shows "\<exists>h' q'. queue_push h q x = Some (h', q') \<and> is_queue h' q' (xs @ [x]) \<and>
                 relinks (insert x (set xs)) h h'"
proof (cases xs)
  case Nil
  with q show ?thesis
    by (auto simp: queue_push_def is_queue_def intro!: relinks_intros)
next
  case (Cons y ys)
  let ?t = "last xs"
  let ?h1 = "set_next h ?t (Some x)"
  let ?h3 = "set_prev (set_next ?h1 x None) x (Some ?t)"
  from Cons have ne: "xs \<noteq> []" and t: "?t \<in> set xs" by auto
  then have tx: "x \<noteq> ?t" using x by auto
  have hd: "head q = Some y" and tl: "tail q = Some ?t"
    using q Cons by (simp_all add: is_queue_def last_ptr_def)
  have "dlseg ?h1 None xs (Some x)"
    using q by (intro dlseg_relink_last[OF ne]) (auto simp: is_queue_def)
  then have "dlseg ?h3 None xs (Some x)" using x by simp
  then have "dlseg ?h3 None (xs @ [x]) None"
    using ne tx by (simp add: dlseg_append last_ptr_def)
  moreover have "queue_push h q x = Some (?h3, q\<lparr>tail := Some x\<rparr>)"
    by (simp add: queue_push_def hd tl)
  moreover have "relinks (insert x (set xs)) h ?h3"
    using t by (intro relinks_intros) auto
  ultimately show ?thesis
    using q x Cons by (simp add: is_queue_def)
qed

lemma queue_dequeue_rep:
  assumes q: "is_queue h q (x # xs)"
  shows "\<exists>h' q'. queue_dequeue h q = Some (x, h', q') \<and> is_queue h' q' xs \<and>
                 relinks (set (x # xs)) h h'"
proof (cases xs)
  case Nil
  with q show ?thesis by (simp add: queue_dequeue_def is_queue_def)
next
  case (Cons y ys)
  let ?h3 = "set_next (set_prev (set_prev h y None) x None) x None"
  from q Cons have d: "x \<notin> set xs" "y \<notin> set ys" "distinct xs" by (auto simp: is_queue_def)
  have "dlseg h (Some x) (y # ys) None" using q Cons by (simp add: is_queue_def)
  then have "dlseg (set_prev h y None) None (y # ys) None"
    using d by (intro dlseg_relink_first) auto
  then have "dlseg ?h3 None xs None" using d Cons by simp
  moreover have "queue_dequeue h q = Some (x, ?h3, q\<lparr>head := Some y\<rparr>)"
    using q Cons by (simp add: queue_dequeue_def is_queue_def)
  moreover have "relinks (set (x # xs)) h ?h3"
    using Cons by (intro relinks_intros) auto
  ultimately show ?thesis
    using q Cons d by (simp add: is_queue_def last_ptr_def)
qed

lemma queue_remove_middle:
  assumes d: "distinct (as @ x # bs)" and seg: "dlseg h None (as @ x # bs) None"
    and ne: "as \<noteq> []" "bs \<noteq> []"
  shows "dlseg (set_prev (set_next h (last as) (Some (hd bs))) (hd bs) (Some (last as)))
           None (as @ bs) None"
proof -
  obtain b bs' where bs: "bs = b # bs'" using ne by (cases bs) auto
  have l: "last as \<in> set as" using ne by simp
  from seg have s1: "dlseg h None as (Some x)" and s2: "dlseg h (Some x) bs None"
    using ne by (simp_all add: dlseg_append)
  have "dlseg (set_next h (last as) (Some b)) None as (Some b)"
    using dlseg_relink_last[OF ne(1) _ s1] d by simp
  then have 1: "dlseg (set_prev (set_next h (last as) (Some b)) b (Some (last as))) None as (Some b)"
    using d bs by auto
  have "last as \<notin> set bs" using d l by auto
  then have "dlseg (set_next h (last as) (Some b)) (Some x) bs None"
    using s2 by simp
  then have 2: "dlseg (set_prev (set_next h (last as) (Some b)) b (Some (last as)))
                  (Some (last as)) bs None"
    unfolding bs using d bs by (intro dlseg_relink_first) auto
  from 1 2 show ?thesis using ne bs by (simp add: dlseg_append last_ptr_def)
qed

lemma queue_remove_rep:
  assumes q: "is_queue h q (as @ x # bs)"
  shows "\<exists>h' q'. queue_remove h q x = Some (first_ptr bs None, h', q') \<and>
                 is_queue h' q' (as @ bs) \<and> relinks (set (as @ x # bs)) h h'"
proof -
  from q have d: "distinct (as @ x # bs)" and seg: "dlseg h None (as @ x # bs) None"
    and hd: "head q = first_ptr (as @ x # bs) None" and tl: "tail q = last_ptr None (as @ x # bs)"
    by (auto simp: is_queue_def)
  have nx: "next_pcb (h x) = first_ptr bs None" and pv: "prev_pcb (h x) = last_ptr None as"
    using seg by (auto simp: dlseg_append)
  consider (single) "as = []" "bs = []" | (first) b bs' where "as = []" "bs = b # bs'"
    | (last) a as' where "as = as' @ [a]" "bs = []"
    | (middle) "as \<noteq> []" "bs \<noteq> []"
    by (cases bs; cases as rule: rev_cases) auto
  then show ?thesis
  proof cases
    case single
    with hd tl nx show ?thesis by (simp add: queue_remove_def is_queue_def)
  next
    case first
    let ?h' = "set_next (set_prev (set_prev h b None) x None) x None"
    have "dlseg ?h' None bs None" using first seg d by auto
    moreover have "last_ptr None (x # bs) \<noteq> Some x"
      using first d by (auto simp: last_ptr_def split: if_splits)
    then have "queue_remove h q x = Some (Some b, ?h', q\<lparr>head := Some b\<rparr>)"
      using first hd tl nx by (auto simp: queue_remove_def)
    moreover have "relinks (set (as @ x # bs)) h ?h'"
      using first by (intro relinks_intros) auto
    ultimately show ?thesis
      using first d tl by (simp add: is_queue_def)
  next
    case last
    let ?h' = "set_next (set_prev (set_next h a None) x None) x None"
    have s1: "dlseg h None as (Some x)" using seg last by (simp add: dlseg_append)
    have "dlseg (set_next h a None) None as None"
      using dlseg_relink_last[OF _ _ s1, of None] d last by simp
    then have "dlseg ?h' None as None" using d last by auto
    moreover have "queue_remove h q x = Some (None, ?h', q\<lparr>tail := Some a\<rparr>)"
      using last hd tl nx pv d
      by (cases as') (auto simp: queue_remove_def)
    moreover have "relinks (set (as @ x # bs)) h ?h'"
      using last by (intro relinks_intros) auto
    ultimately show ?thesis
      using last d hd by (simp add: is_queue_def)
  next
    case middle
    let ?m = "set_prev (set_next h (List.last as) (Some (List.hd bs))) (List.hd bs) (Some (List.last as))"
    let ?h' = "set_next (set_prev ?m x None) x None"
    have lb: "List.last as \<in> set as" "List.hd bs \<in> set bs" using middle by auto
    have ne: "Some x \<noteq> head q" "Some x \<noteq> tail q"
      using hd tl middle d lb by (cases as; auto simp: last_ptr_def)+
    have fp: "first_ptr bs None = Some (List.hd bs)" using middle by (cases bs) auto
    have lp: "last_ptr None as = Some (List.last as)" using middle by (simp add: last_ptr_def)
    have "dlseg ?m None (as @ bs) None"
      using queue_remove_middle[OF d seg] middle by simp
    then have "dlseg ?h' None (as @ bs) None" using d by simp
    moreover have "queue_remove h q x = Some (Some (List.hd bs), ?h', q)"
      using ne nx pv fp lp d lb by (auto simp: queue_remove_def)
    moreover have "relinks (set (as @ x # bs)) h ?h'"
      using lb by (intro relinks_intros) auto
    ultimately show ?thesis
      using middle d hd tl fp by (cases as; cases bs) (auto simp: is_queue_def)
  qed
qed

text \<open>
  The ordered insertion: the new block goes in front of the first block whose priority is not
  greater than its own.
\<close>

lemma push_position_eq:
  "dlseg h pv xs None \<Longrightarrow>
   push_position h x (first_ptr xs None) =
     Some (first_ptr (dropWhile (\<lambda>y. priority (h y) > priority (h x)) xs) None)"
proof (induction xs arbitrary: pv)
  case Nil
  then show ?case by (simp add: push_position.simps)
next
  case (Cons y ys)
  then show ?case using Cons.IH[of "Some y"] by (simp add: push_position.simps[of _ _ "Some y"])
qed

lemma dlseg_insert:
  assumes d: "distinct (as @ bs)" and x: "x \<notin> set (as @ bs)" and ne: "as \<noteq> []" "bs \<noteq> []"
    and seg: "dlseg h None (as @ bs) None"
  shows "dlseg (set_next (set_prev (set_prev (set_next h (last as) (Some x)) x (Some (last as)))
                 (hd bs) (Some x)) x (Some (hd bs))) None (as @ x # bs) None"
proof -
  obtain b bs' where bs: "bs = b # bs'" using ne by (cases bs) auto
  have l: "last as \<in> set as" using ne by simp
  let ?h1 = "set_next h (last as) (Some x)"
  let ?h4 = "set_next (set_prev (set_prev ?h1 x (Some (last as))) b (Some x)) x (Some b)"
  from seg have s1: "dlseg h None as (Some b)" and s2: "dlseg h (Some (last as)) bs None"
    using ne bs by (simp_all add: dlseg_append last_ptr_def)
  have "dlseg ?h1 None as (Some x)"
    using dlseg_relink_last[OF ne(1) _ s1] d by simp
  then have 1: "dlseg ?h4 None as (Some x)" using d x bs by auto
  have "last as \<notin> set bs" using d l by auto
  then have "dlseg ?h1 (Some (last as)) bs None" using s2 by simp
  then have 2: "dlseg ?h4 (Some x) bs None" using d x bs by auto
  have "prev_pcb (?h4 x) = Some (last as)" "next_pcb (?h4 x) = Some b" using x bs l by auto
  with 1 2 show ?thesis using ne bs by (simp add: dlseg_append last_ptr_def)
qed

lemma queue_push_increasingly_rep:
  assumes q: "is_queue h q xs" and x: "x \<notin> set xs"
  defines "P \<equiv> \<lambda>y. priority (h y) > priority (h x)"
  shows "\<exists>h' q'. queue_push_increasingly h q x = Some (h', q') \<and>
           is_queue h' q' (takeWhile P xs @ x # dropWhile P xs) \<and> relinks (insert x (set xs)) h h'"
proof (cases xs)
  case Nil
  with q show ?thesis
    by (auto simp: queue_push_increasingly_def is_queue_def intro!: relinks_intros)
next
  case (Cons y ys)
  from q have d: "distinct xs" and hd: "head q = first_ptr xs None" and tl: "tail q = last_ptr None xs"
    and seg: "dlseg h None xs None" by (auto simp: is_queue_def)
  define as bs where "as = takeWhile P xs" and "bs = dropWhile P xs"
  have pos: "push_position h x (head q) = Some (first_ptr bs None)"
    using push_position_eq[OF seg] by (simp add: hd P_def bs_def)
  have xs: "xs = as @ bs" by (simp add: as_def bs_def)
  have hy: "head q = Some y" using hd Cons by simp
  consider (front) "as = []" | (at_end) "as = xs" "bs = []" | (middle) "as \<noteq> []" "bs \<noteq> []"
    using xs by fastforce
  then have "\<exists>h' q'. queue_push_increasingly h q x = Some (h', q') \<and>
           is_queue h' q' (as @ x # bs) \<and> relinks (insert x (set xs)) h h'"
  proof cases
    case front
    let ?h' = "set_prev (set_next (set_prev h y (Some x)) x (Some y)) x None"
    have "queue_push_increasingly h q x = Some (?h', q\<lparr>head := Some x\<rparr>)"
      using front pos hy Cons xs by (simp add: queue_push_increasingly_def)
    moreover have "dlseg ?h' None (x # xs) None"
      using seg x d Cons by auto
    moreover have "relinks (insert x (set xs)) h ?h'"
      using Cons by (intro relinks_intros) auto
    ultimately show ?thesis
      using front xs x d tl Cons by (auto simp: is_queue_def last_ptr_def)
  next
    case at_end
    obtain h' q' where push: "queue_push h q x = Some (h', q')" "is_queue h' q' (xs @ [x])"
      "relinks (insert x (set xs)) h h'" using queue_push_rep[OF q x] by blast
    have "h' = set_prev (set_next (set_next h (last xs) (Some x)) x None) x (Some (last xs))"
      and q': "q' = q\<lparr>tail := Some x\<rparr>"
      using push(1) hy tl Cons by (auto simp: queue_push_def last_ptr_def split: if_splits)
    then have h': "h' = set_next (set_prev (set_next h (last xs) (Some x)) x (Some (last xs))) x None"
      by (simp only: set_next_prev_commute)
    have "queue_push_increasingly h q x = Some (h', q')"
      using at_end pos hy tl Cons h' q'
      by (auto simp: queue_push_increasingly_def last_ptr_def)
    then show ?thesis using push at_end by simp
  next
    case middle
    let ?b = "List.hd bs" and ?l = "List.last as"
    let ?h1 = "set_next h ?l (Some x)"
    let ?h4 = "set_next (set_prev (set_prev ?h1 x (Some ?l)) ?b (Some x)) x (Some ?b)"
    have m: "?l \<in> set as" "?b \<in> set bs" using middle by auto
    obtain b bs' where bs: "bs = b # bs'" using middle by (cases bs) auto
    have "prev_pcb (h ?b) = Some ?l"
      using seg middle bs unfolding xs by (simp add: dlseg_append last_ptr_def)
    moreover have "head q \<noteq> Some ?b" using d m middle hd unfolding xs by (cases as) auto
    ultimately have "queue_push_increasingly h q x = Some (?h4, q)"
      using pos hy bs by (simp add: queue_push_increasingly_def)
    moreover have "dlseg ?h4 None (as @ x # bs) None"
      using dlseg_insert[of as bs x h] d x seg middle by (simp add: xs)
    moreover have "relinks (insert x (set xs)) h ?h4"
      unfolding xs using m by (intro relinks_intros) auto
    ultimately show ?thesis
      using d x hd tl middle bs unfolding xs by (cases as) (auto simp: is_queue_def)
  qed
  then show ?thesis by (simp add: as_def bs_def)
qed

section \<open>The contract of a queue, and families of queues\<close>

text \<open>
  A family of queues over one heap: every queue of the family is well linked, and no block is in
  two of them. This is the shape of the kernel's state: every task is in at most one queue.
\<close>

definition family :: "('h \<Rightarrow> 'q \<Rightarrow> nat list \<Rightarrow> bool) \<Rightarrow> 'h \<Rightarrow> ('i \<Rightarrow> 'q) \<Rightarrow> ('i \<Rightarrow> nat list) \<Rightarrow> bool"
  where
  "family r h Q qs \<longleftrightarrow>
     (\<forall>i. r h (Q i) (qs i)) \<and> (\<forall>i j. i \<noteq> j \<longrightarrow> set (qs i) \<inter> set (qs j) = {})"

text \<open>Emptying a queue by dequeuing until it is empty, with fuel \<open>n\<close>.\<close>

fun drain :: "('q \<Rightarrow> bool) \<Rightarrow> ('h \<Rightarrow> 'q \<Rightarrow> (nat \<times> 'h \<times> 'q) option) \<Rightarrow> nat \<Rightarrow> 'h \<Rightarrow> 'q \<Rightarrow> nat list option"
  where
  "drain emp deq n h q =
     (if emp q then Some []
      else case n of 0 \<Rightarrow> None
           | Suc m \<Rightarrow> do { (x, h', q') \<leftarrow> deq h q; xs \<leftarrow> drain emp deq m h' q'; Some (x # xs) })"

declare drain.simps [simp del]

locale task_queue =
  fixes rep :: "(nat \<Rightarrow> 'c) \<Rightarrow> 'q \<Rightarrow> nat list \<Rightarrow> bool"
    and local :: "nat set \<Rightarrow> (nat \<Rightarrow> 'c) \<Rightarrow> (nat \<Rightarrow> 'c) \<Rightarrow> bool"
    and init :: 'q
    and is_empty :: "'q \<Rightarrow> bool"
    and push :: "(nat \<Rightarrow> 'c) \<Rightarrow> 'q \<Rightarrow> nat \<Rightarrow> ((nat \<Rightarrow> 'c) \<times> 'q) option"
    and dequeue :: "(nat \<Rightarrow> 'c) \<Rightarrow> 'q \<Rightarrow> (nat \<times> (nat \<Rightarrow> 'c) \<times> 'q) option"
    and remove :: "(nat \<Rightarrow> 'c) \<Rightarrow> 'q \<Rightarrow> nat \<Rightarrow> (nat option \<times> (nat \<Rightarrow> 'c) \<times> 'q) option"
  assumes rep_init: "rep h init []"
    and rep_distinct: "rep h q xs \<Longrightarrow> distinct xs"
    and rep_frame: "rep h q xs \<Longrightarrow> local A h h' \<Longrightarrow> A \<inter> set xs = {} \<Longrightarrow> rep h' q xs"
    and empty_iff: "rep h q xs \<Longrightarrow> is_empty q \<longleftrightarrow> xs = []"
    and push_rep: "rep h q xs \<Longrightarrow> x \<notin> set xs \<Longrightarrow>
          \<exists>h' q'. push h q x = Some (h', q') \<and> rep h' q' (xs @ [x]) \<and> local (insert x (set xs)) h h'"
    and dequeue_rep: "rep h q (x # xs) \<Longrightarrow>
          \<exists>h' q'. dequeue h q = Some (x, h', q') \<and> rep h' q' xs \<and> local (set (x # xs)) h h'"
    and remove_rep: "rep h q (as @ x # bs) \<Longrightarrow>
          \<exists>h' q'. remove h q x = Some (first_ptr bs None, h', q') \<and> rep h' q' (as @ bs) \<and>
                  local (set (as @ x # bs)) h h'"
begin

lemma fifo: "rep h q xs \<Longrightarrow> length xs \<le> n \<Longrightarrow> drain is_empty dequeue n h q = Some xs"
proof (induction n arbitrary: h q xs)
  case 0
  then show ?case by (simp add: drain.simps empty_iff)
next
  case (Suc n)
  show ?case
  proof (cases xs)
    case Nil
    with Suc.prems show ?thesis by (simp add: drain.simps[of _ _ "Suc n"] empty_iff)
  next
    case (Cons x ys)
    with Suc.prems obtain h' q' where "dequeue h q = Some (x, h', q')" "rep h' q' ys"
      using dequeue_rep by blast
    with Cons Suc show ?thesis by (simp add: drain.simps[of _ _ "Suc n"] empty_iff)
  qed
qed

lemma family_init: "family rep h (\<lambda>_. init) (\<lambda>_. [])"
  by (simp add: family_def rep_init)

lemma family_local:
  assumes "family rep h Q qs" and "local A h h'" and "A \<subseteq> insert x (set (qs i))"
    and "\<And>j. j \<noteq> i \<Longrightarrow> x \<notin> set (qs j)" and "rep h' q' ys" and "set ys \<subseteq> insert x (set (qs i))"
  shows "family rep h' (Q(i := q')) (qs(i := ys))"
proof -
  have "rep h' (Q j) (qs j)" if "j \<noteq> i" for j
  proof (rule rep_frame[OF _ assms(2)])
    show "rep h (Q j) (qs j)" using assms(1) by (simp add: family_def)
    have "set (qs i) \<inter> set (qs j) = {}" using assms(1) that unfolding family_def by metis
    then show "A \<inter> set (qs j) = {}" using assms(3) assms(4)[OF that] by auto
  qed
  moreover have "set ys \<inter> set (qs j) = {}" if "j \<noteq> i" for j
  proof -
    have "set (qs i) \<inter> set (qs j) = {}" using assms(1) that unfolding family_def by metis
    then show ?thesis using assms(6) assms(4)[OF that] by auto
  qed
  ultimately show ?thesis using assms(1,5) by (auto simp: family_def)
qed

lemma family_push:
  assumes f: "family rep h Q qs" and x: "\<And>j. x \<notin> set (qs j)"
  shows "\<exists>h' q'. push h (Q i) x = Some (h', q') \<and> local (insert x (set (qs i))) h h' \<and>
                 family rep h' (Q(i := q')) (qs(i := qs i @ [x]))"
proof -
  from f have "rep h (Q i) (qs i)" by (simp add: family_def)
  from push_rep[OF this x] obtain h' q' where p: "push h (Q i) x = Some (h', q')"
    "rep h' q' (qs i @ [x])" "local (insert x (set (qs i))) h h'" by blast
  then show ?thesis using family_local[OF f p(3) _ x p(2)] by auto
qed

lemma family_remove:
  assumes f: "family rep h Q qs" and x: "x \<in> set (qs i)"
  shows "\<exists>n h' q'. remove h (Q i) x = Some (n, h', q') \<and> local (set (qs i)) h h' \<and>
                   family rep h' (Q(i := q')) (qs(i := remove1 x (qs i)))"
proof -
  from f have r: "rep h (Q i) (qs i)" by (simp add: family_def)
  obtain as bs where split: "qs i = as @ x # bs" using x by (meson split_list)
  have d: "distinct (as @ x # bs)" using rep_distinct[OF r] split by simp
  obtain h' q' where p: "remove h (Q i) x = Some (first_ptr bs None, h', q')"
    "rep h' q' (remove1 x (qs i))" "local (set (qs i)) h h'"
    using remove_rep[of h "Q i" as x bs] r split distinct_remove1_split[OF d] by auto
  have "x \<notin> set (qs j)" if "j \<noteq> i" for j
    using f x that unfolding family_def by (metis disjoint_iff)
  then show ?thesis
    using family_local[OF f p(3) _ _ p(2), of x] p by (auto dest: notin_set_remove1)
qed

lemma family_dequeue:
  assumes f: "family rep h Q qs" and x: "qs i = x # xs"
  shows "\<exists>h' q'. dequeue h (Q i) = Some (x, h', q') \<and> local (set (qs i)) h h' \<and>
                 family rep h' (Q(i := q')) (qs(i := xs))"
proof -
  from f x have "rep h (Q i) (x # xs)" unfolding family_def by metis
  from dequeue_rep[OF this] obtain h' q' where p: "dequeue h (Q i) = Some (x, h', q')"
    "rep h' q' xs" "local (set (x # xs)) h h'" by blast
  have "x \<notin> set (qs j)" if "j \<noteq> i" for j
    using f x that unfolding family_def by (metis disjoint_iff list.set_intros(1))
  then show ?thesis
    using family_local[OF f p(3) _ _ p(2), of x i] p x by auto
qed

lemma family_is_empty: "family rep h Q qs \<Longrightarrow> is_empty (Q i) \<longleftrightarrow> qs i = []"
  using empty_iff by (auto simp: family_def)

lemma family_disjoint: "family rep h Q qs \<Longrightarrow> x \<in> set (qs i) \<Longrightarrow> x \<in> set (qs j) \<Longrightarrow> i = j"
  by (auto simp: family_def)

lemma family_distinct: "family rep h Q qs \<Longrightarrow> distinct (qs i)"
  unfolding family_def by (meson rep_distinct)

end

interpretation tq: task_queue is_queue relinks queue_init queue_is_empty queue_push queue_dequeue
  queue_remove
  by unfold_locales
    (auto intro: is_queue_frame dest: is_queue_distinct is_queue_empty_iff
       queue_push_rep queue_dequeue_rep queue_remove_rep)

end
