(* ===== verification/Sched.thy ===== *)
theory Sched
  imports Queue
begin

text \<open>
  The scheduler and process management of \<^verbatim>\<open>kernel/sched/sched.c\<close> and \<^verbatim>\<open>kernel/sched/time.c\<close>, on
  the kernel state of \<open>Pcb\<close>. \<^verbatim>\<open>do_scheduler\<close> (\<^verbatim>\<open>asm.S\<close>) saves the kernel context of the caller, which
  the model records as a continuation in its control block, and switches to another task; what the
  chosen task then does is the continuation it saved (theory \<open>Kernel\<close>).
\<close>

section \<open>Access to the state\<close>

definition upd_pcb :: "kstate \<Rightarrow> nat \<Rightarrow> (pcb_t \<Rightarrow> pcb_t) \<Rightarrow> kstate" where
  "upd_pcb s p f = s\<lparr>pcb := (pcb s)(p := f (pcb s p))\<rparr>"

definition q_push :: "kstate \<Rightarrow> qid \<Rightarrow> nat \<Rightarrow> kstate option" where
  "q_push s i p = do { (h, q) \<leftarrow> queue_push (pcb s) (queues s i) p;
                       Some (s\<lparr>pcb := h, queues := (queues s)(i := q)\<rparr>) }"

definition q_remove :: "kstate \<Rightarrow> qid \<Rightarrow> nat \<Rightarrow> kstate option" where
  "q_remove s i p = do { (_, h, q) \<leftarrow> queue_remove (pcb s) (queues s i) p;
                         Some (s\<lparr>pcb := h, queues := (queues s)(i := q)\<rparr>) }"

definition q_dequeue :: "kstate \<Rightarrow> qid \<Rightarrow> (nat \<times> kstate) option" where
  "q_dequeue s i = do { (p, h, q) \<leftarrow> queue_dequeue (pcb s) (queues s i);
                        Some (p, s\<lparr>pcb := h, queues := (queues s)(i := q)\<rparr>) }"

text \<open>\<^verbatim>\<open>pcb->user_regs_context.regs[2] = v\<close>: the value the system call returns to the task.\<close>

definition set_v0 :: "kstate \<Rightarrow> nat \<Rightarrow> u32 \<Rightarrow> kstate" where
  "set_v0 s p v = upd_pcb s p (\<lambda>c. c\<lparr>user_regs_context :=
      (user_regs_context c)\<lparr>regs := (regs (user_regs_context c))(2 := v)\<rparr>\<rparr>)"

definition panic :: "string \<Rightarrow> kstate \<Rightarrow> kstate" where
  "panic msg s = s\<lparr>halted := Some msg\<rparr>"

section \<open>Time\<close>

abbreviation TIME_SLICE :: u32 where "TIME_SLICE \<equiv> 10"

definition get_ticks :: "kstate \<Rightarrow> u32" where
  "get_ticks s = time_elapsed s"

definition get_timer :: "kstate \<Rightarrow> u32" where
  "get_timer s = time_elapsed s * TIME_SLICE"

section \<open>Choosing a task\<close>

text \<open>
  The selection loop that \<^verbatim>\<open>scheduler\<close> runs over the ready queue with the field
  \<^verbatim>\<open>scheduler_priority\<close>, and \<^verbatim>\<open>do_unblock_one\<close> over a blocked queue with the field \<^verbatim>\<open>priority\<close>.
\<close>

partial_function (option) select_loop ::
  "(pcb_t \<Rightarrow> int) \<Rightarrow> heap \<Rightarrow> nat option \<Rightarrow> int \<Rightarrow> int \<Rightarrow> nat option \<Rightarrow> (heap \<times> nat option) option"
where
  "select_loop key h sel max_priority max_wait_time p =
     (case p of
        None \<Rightarrow> Some (h, sel)
      | Some x \<Rightarrow>
          (let higher = key (h x) > max_priority;
               sel1 = (if higher then Some x else sel);
               mp = (if higher then key (h x) else max_priority);
               mw = (if higher then wait_time (h x) else max_wait_time);
               longer = (key (h x) = mp \<and> wait_time (h x) \<ge> mw);
               sel2 = (if longer then Some x else sel1);
               mw2 = (if longer then wait_time (h x) else mw);
               h' = h(x := (h x)\<lparr>wait_time := wait_time (h x) + 1\<rparr>)
           in select_loop key h' sel2 mp mw2 (next_pcb (h' x))))"

definition scheduler :: "kstate \<Rightarrow> kstate option" where
  "scheduler s =
     (if \<not> queue_is_empty (queues s ReadyQ) then
        let cur = current_running s;
            s1 = upd_pcb s cur (\<lambda>c. c\<lparr>cursor_x := screen_cursor_x s, cursor_y := screen_cursor_y s\<rparr>);
            s2 = (if status (pcb s1 cur) = TASK_RUNNING
                  then upd_pcb s1 cur (\<lambda>c. c\<lparr>status := TASK_READY\<rparr>) else s1)
        in do { (h, sel) \<leftarrow> select_loop scheduler_priority (pcb s2) (Some cur) 1 0 (head (queues s2 ReadyQ));
                x \<leftarrow> sel;
                let s3 = s2\<lparr>pcb := h, current_running := x\<rparr>;
                let s4 = (if scheduler_priority (pcb s3 x) > 1
                          then upd_pcb s3 x (\<lambda>c. c\<lparr>scheduler_priority := scheduler_priority c - 1\<rparr>)
                          else s3);
                let s5 = upd_pcb s4 x (\<lambda>c. c\<lparr>wait_time := 0\<rparr>);
                let s6 = s5\<lparr>screen_cursor_x := cursor_x (pcb s5 x), screen_cursor_y := cursor_y (pcb s5 x)\<rparr>;
                let s7 = upd_pcb s6 x (\<lambda>c. c\<lparr>status := TASK_RUNNING\<rparr>);
                Some (s7\<lparr>entry_hi := word_of_int (pid (pcb s7 x))\<rparr>) }
      else Some (panic ''no task to run.'' s))"

text \<open>\<^verbatim>\<open>do_scheduler\<close> of \<^verbatim>\<open>asm.S\<close>: save the kernel context (here: the continuation \<open>k\<close>), then switch.\<close>

definition do_scheduler :: "kcont \<Rightarrow> kstate \<Rightarrow> kstate option" where
  "do_scheduler k s = scheduler (upd_pcb s (current_running s) (\<lambda>c. c\<lparr>kcont := k\<rparr>))"

definition do_wait :: "kstate \<Rightarrow> nat \<Rightarrow> qid \<Rightarrow> task_status_t \<Rightarrow> kcont \<Rightarrow> kstate option" where
  "do_wait s p q st k =
     do { s1 \<leftarrow> q_remove s ReadyQ p;
          s2 \<leftarrow> q_push s1 q p;
          let s3 = upd_pcb s2 p (\<lambda>c. c\<lparr>pqueue := Some q\<rparr>);
          let s4 = upd_pcb s3 p (\<lambda>c. c\<lparr>status := st\<rparr>);
          do_scheduler k s4 }"

definition do_sleep :: "kstate \<Rightarrow> u32 \<Rightarrow> kstate option" where
  "do_sleep s sleep_time =
     (let cur = current_running s;
          s1 = upd_pcb s cur (\<lambda>c. c\<lparr>awakened_time := get_ticks s + sleep_time div TIME_SLICE\<rparr>)
      in do_wait s1 cur SleepQ TASK_SLEEPING K_exit)"

text \<open>The loop of \<^verbatim>\<open>check_sleeping\<close>; \<^verbatim>\<open>p = p->next\<close> is read after the body has moved \<^verbatim>\<open>p\<close>.\<close>

partial_function (option) check_sleeping_loop :: "kstate \<Rightarrow> nat option \<Rightarrow> kstate option" where
  "check_sleeping_loop s p =
     (case p of
        None \<Rightarrow> Some s
      | Some x \<Rightarrow>
          do { s' \<leftarrow> (if awakened_time (pcb s x) \<le> get_ticks s
                      then do { s1 \<leftarrow> q_remove s SleepQ x;
                                s2 \<leftarrow> q_push s1 ReadyQ x;
                                let s3 = upd_pcb s2 x (\<lambda>c. c\<lparr>pqueue := Some ReadyQ\<rparr>);
                                Some (upd_pcb s3 (current_running s3) (\<lambda>c. c\<lparr>status := TASK_READY\<rparr>)) }
                      else Some s);
               check_sleeping_loop s' (next_pcb (pcb s' x)) })"

definition check_sleeping :: "kstate \<Rightarrow> kstate option" where
  "check_sleeping s = check_sleeping_loop s (head (queues s SleepQ))"

definition do_unblock_one :: "kstate \<Rightarrow> qid \<Rightarrow> kstate option" where
  "do_unblock_one s q =
     (if \<not> queue_is_empty (queues s q) then
        do { (h, sel) \<leftarrow> select_loop priority (pcb s) None 1 0 (head (queues s q));
             x \<leftarrow> sel;
             let s1 = s\<lparr>pcb := h\<rparr>;
             let s2 = upd_pcb s1 x (\<lambda>c. c\<lparr>wait_time := 0\<rparr>);
             let s3 = upd_pcb s2 x (\<lambda>c. c\<lparr>scheduler_priority := scheduler_priority c + 1\<rparr>);
             s4 \<leftarrow> q_remove s3 q x;
             s5 \<leftarrow> q_push s4 ReadyQ x;
             let s6 = upd_pcb s5 x (\<lambda>c. c\<lparr>pqueue := Some ReadyQ\<rparr>);
             Some (upd_pcb s6 x (\<lambda>c. c\<lparr>status := TASK_READY\<rparr>)) }
      else Some s)"

partial_function (option) do_unblock_all :: "kstate \<Rightarrow> qid \<Rightarrow> kstate option" where
  "do_unblock_all s q =
     (if \<not> queue_is_empty (queues s q) then
        do { (p, s1) \<leftarrow> q_dequeue s q;
             s2 \<leftarrow> q_push s1 ReadyQ p;
             let s3 = upd_pcb s2 p (\<lambda>c. c\<lparr>wait_time := 0\<rparr>);
             let s4 = upd_pcb s3 p (\<lambda>c. c\<lparr>scheduler_priority := scheduler_priority c + 1\<rparr>);
             let s5 = upd_pcb s4 p (\<lambda>c. c\<lparr>pqueue := Some ReadyQ\<rparr>);
             let s6 = upd_pcb s5 p (\<lambda>c. c\<lparr>status := TASK_READY\<rparr>);
             do_unblock_all s6 q }
      else Some s)"

section \<open>Processes\<close>

definition pid_alloc :: "kstate \<Rightarrow> (int \<times> kstate) option" where
  "pid_alloc s = do { (p, l) \<leftarrow> slist_alloc (pid_list s); Some (p, s\<lparr>pid_list := l\<rparr>) }"

definition pid_free :: "kstate \<Rightarrow> int \<Rightarrow> (int \<times> kstate) option" where
  "pid_free s p = do { (r, l) \<leftarrow> slist_free (pid_list s) p (int MAX_TASK_NUM); Some (r, s\<lparr>pid_list := l\<rparr>) }"

definition pid_is_valid :: "kstate \<Rightarrow> int \<Rightarrow> int option" where
  "pid_is_valid s p = slist_is_valid (pid_list s) p (int MAX_TASK_NUM)"

definition do_getpid :: "kstate \<Rightarrow> kstate" where
  "do_getpid s = (let cur = current_running s in set_v0 s cur (word_of_int (pid (pcb s cur))))"

abbreviation KERNEL_STACK_TOP_ADDRESS :: u32 where "KERNEL_STACK_TOP_ADDRESS \<equiv> 0xa1000000"
abbreviation KERNEL_STACK_SIZE :: u32 where "KERNEL_STACK_SIZE \<equiv> 0x2000"
abbreviation USER_STACK_TOP_ADDRESS :: u32 where "USER_STACK_TOP_ADDRESS \<equiv> 0x80000000"
abbreviation INITIAL_USER_STACK_SIZE :: u32 where "INITIAL_USER_STACK_SIZE \<equiv> 0x2000"
abbreviation PDE_NUMBER :: nat where "PDE_NUMBER \<equiv> 512"

definition page_dir_init :: "(nat \<Rightarrow> pde_t) \<Rightarrow> (nat \<Rightarrow> pde_t)" where
  "page_dir_init pd = (\<lambda>i. if i < PDE_NUMBER then (pd i)\<lparr>pde_valid := 0\<rparr> else pd i)"

text \<open>
  The assignments \<^verbatim>\<open>init_pcb\<close> makes to the fields of \<^verbatim>\<open>pcb[pid]\<close> other than the queue links. The
  return address \<^verbatim>\<open>exception_handler_exit\<close> in the kernel context is the continuation \<open>K_exit\<close>.
\<close>

definition init_fields :: "task_info_t \<Rightarrow> int \<Rightarrow> pcb_t \<Rightarrow> pcb_t" where
  "init_fields task p c =
     c\<lparr>pid := p, pname := ti_name task, ptype := ti_type task, lock_num := 0,
       priority := ti_priority task, scheduler_priority := ti_priority task, wait_time := 0,
       kcont := K_exit,
       user_stack_size := INITIAL_USER_STACK_SIZE, kernel_stack_size := KERNEL_STACK_SIZE,
       user_regs_context := (user_regs_context c)\<lparr>cp0_epc := entry_point task,
         regs := (regs (user_regs_context c))(29 := USER_STACK_TOP_ADDRESS)\<rparr>,
       kernel_regs_context := (kernel_regs_context c)\<lparr>
         regs := (regs (kernel_regs_context c))
           (29 := KERNEL_STACK_TOP_ADDRESS - word_of_int p * KERNEL_STACK_SIZE)\<rparr>\<rparr>"

definition init_pcb :: "kstate \<Rightarrow> task_info_t \<Rightarrow> kstate option" where
  "init_pcb s task =
     do { (p, s1) \<leftarrow> pid_alloc s;
          if p = 0 then Some (set_v0 s1 (current_running s1) 0)
          else do {
            let i = nat p;
            let s2 = upd_pcb s1 i (init_fields task p);
            s3 \<leftarrow> q_push s2 ReadyQ i;
            let s4 = upd_pcb s3 i (\<lambda>c. c\<lparr>pqueue := Some ReadyQ\<rparr>);
            let s5 = upd_pcb s4 i (\<lambda>c. c\<lparr>status := TASK_READY, cursor_x := 0, cursor_y := 0\<rparr>);
            let s6 = s5\<lparr>queues := (queues s5)(WaitQ i := queue_init)\<rparr>;
            Some (upd_pcb s6 i (\<lambda>c. c\<lparr>page_dir := page_dir_init (page_dir c)\<rparr>)) } }"

text \<open>The loop of \<^verbatim>\<open>kill\<close> over the lock table, from index \<open>MAX_LOCKS_NUM - n\<close> on.\<close>

fun kill_locks :: "kstate \<Rightarrow> nat \<Rightarrow> nat \<Rightarrow> kstate option" where
  "kill_locks s p 0 = Some s"
| "kill_locks s p (Suc n) =
     (let i = MAX_LOCKS_NUM - Suc n in
      if lock_num (pcb s p) > 0 then
        if lk_owner (locks s i) = int p then
          do { s1 \<leftarrow> do_unblock_one s (LockQ i);
               let s2 = upd_pcb s1 p (\<lambda>c. c\<lparr>lock_num := lock_num c - 1\<rparr>);
               let s3 = s2\<lparr>locks := (locks s2)(i := \<lparr>lk_status = UNLOCKED, lk_owner = 0\<rparr>)\<rparr>;
               kill_locks s3 p n }
        else kill_locks s p n
      else Some s)"

definition kill :: "kstate \<Rightarrow> int \<Rightarrow> kstate option" where
  "kill s p =
     do { (r, s1) \<leftarrow> (if p = 1 then Some (0, s) else pid_free s p);
          if r = 0 then Some (set_v0 s1 (current_running s1) 0)
          else do {
            q \<leftarrow> pqueue (pcb s1 (nat p));
            s2 \<leftarrow> q_remove s1 q (nat p);
            s3 \<leftarrow> kill_locks s2 (nat p) MAX_LOCKS_NUM;
            s4 \<leftarrow> do_unblock_all s3 (WaitQ (nat p));
            if pid (pcb s4 (current_running s4)) = p then do_scheduler K_kill_ret s4
            else Some (set_v0 s4 (current_running s4) 1) } }"

definition exit :: "kstate \<Rightarrow> kstate option" where
  "exit s = kill s (pid (pcb s (current_running s)))"

definition wait :: "kstate \<Rightarrow> int \<Rightarrow> kstate option" where
  "wait s p =
     do { v \<leftarrow> pid_is_valid s p;
          let cur = current_running s;
          if v = 0 \<or> p = pid (pcb s cur) then Some (set_v0 s cur 0)
          else do_wait (set_v0 s cur 1) cur (WaitQ (nat p)) TASK_WAITING K_exit }"

end
