(* ===== verification/Sched_Inv.thy ===== *)
theory Sched_Inv
  imports Sched
begin

text \<open>
  Correctness of the scheduler. \<open>sched_inv s qs fs\<close> is the invariant of the process table: the
  queues of the kernel form a family over the control blocks with contents \<open>qs\<close>, the free pids are
  \<open>fs\<close>, and every pid in use is in exactly one queue, the one its \<^verbatim>\<open>queue\<close> field names. Each operation
  is shown to return and to change \<open>qs\<close> and \<open>fs\<close> exactly as its comment in the code says.
\<close>

section \<open>Fields of the state\<close>

lemma upd_pcb_fields [simp]:
  "pcb (upd_pcb s p f) = (pcb s)(p := f (pcb s p))"
  "queues (upd_pcb s p f) = queues s"
  "current_running (upd_pcb s p f) = current_running s"
  "pid_list (upd_pcb s p f) = pid_list s"
  "time_elapsed (upd_pcb s p f) = time_elapsed s"
  "locks (upd_pcb s p f) = locks s"
  "sems (upd_pcb s p f) = sems s"
  "conds (upd_pcb s p f) = conds s"
  "barriers (upd_pcb s p f) = barriers s"
  "halted (upd_pcb s p f) = halted s"
  by (simp_all add: upd_pcb_def)

text \<open>What scheduling never changes: the synchronisation objects, the clock and, of every task, its
  identity, base priority, lock count, user registers, page directory and wake-up time.\<close>

definition sched_frame :: "kstate \<Rightarrow> kstate \<Rightarrow> bool" where
  "sched_frame s s' \<longleftrightarrow>
     locks s' = locks s \<and> sems s' = sems s \<and> conds s' = conds s \<and> barriers s' = barriers s \<and>
     time_elapsed s' = time_elapsed s \<and>
     (\<forall>p. pid (pcb s' p) = pid (pcb s p) \<and> priority (pcb s' p) = priority (pcb s p) \<and>
          lock_num (pcb s' p) = lock_num (pcb s p) \<and>
          user_regs_context (pcb s' p) = user_regs_context (pcb s p) \<and>
          page_dir (pcb s' p) = page_dir (pcb s p) \<and>
          awakened_time (pcb s' p) = awakened_time (pcb s p))"

lemma sched_frame_refl [simp]: "sched_frame s s"
  by (simp add: sched_frame_def)

lemma sched_frame_trans: "sched_frame s s' \<Longrightarrow> sched_frame s' s'' \<Longrightarrow> sched_frame s s''"
  by (simp add: sched_frame_def)

lemma sched_frame_upd:
  "sched_frame s s' \<Longrightarrow>
   (\<And>c. pid (f c) = pid c \<and> priority (f c) = priority c \<and> lock_num (f c) = lock_num c \<and>
        user_regs_context (f c) = user_regs_context c \<and> page_dir (f c) = page_dir c \<and>
        awakened_time (f c) = awakened_time c) \<Longrightarrow> sched_frame s (upd_pcb s' p f)"
  by (simp add: sched_frame_def)

lemma sched_frame_unlinked:
  assumes "s' = s\<lparr>pcb := h, queues := Q\<rparr>" and "\<And>p. unlinked (h p) = unlinked (pcb s p)"
  shows "sched_frame s s'"
proof -
  have "pid (h p) = pid (pcb s p) \<and> priority (h p) = priority (pcb s p) \<and>
      lock_num (h p) = lock_num (pcb s p) \<and> user_regs_context (h p) = user_regs_context (pcb s p) \<and>
      page_dir (h p) = page_dir (pcb s p) \<and> awakened_time (h p) = awakened_time (pcb s p)" for p
    using unlinked_fields[OF assms(2)[of p]] by simp
  then show ?thesis using assms(1) by (simp add: sched_frame_def)
qed

section \<open>The invariant\<close>

definition task_ok :: "pcb_t \<Rightarrow> nat \<Rightarrow> qid \<Rightarrow> bool" where
  "task_ok c p q \<longleftrightarrow>
     pqueue c = Some q \<and> pid c = int p \<and> 1 \<le> priority c \<and> 1 \<le> scheduler_priority c \<and> 0 \<le> wait_time c"

definition sched_inv :: "kstate \<Rightarrow> (qid \<Rightarrow> nat list) \<Rightarrow> nat list \<Rightarrow> bool" where
  "sched_inv s qs fs \<longleftrightarrow>
     family is_queue (pcb s) (queues s) qs \<and>
     pool_rep MAX_TASK_NUM (pid_list s) fs \<and>
     (\<forall>q p. p \<in> set (qs q) \<longrightarrow> task_ok (pcb s p) p q) \<and>
     (\<forall>p. (\<exists>q. p \<in> set (qs q)) \<longleftrightarrow> 0 < p \<and> p < MAX_TASK_NUM \<and> p \<notin> set fs) \<and>
     pid (pcb s 0) = 0"

definition current_ok :: "kstate \<Rightarrow> (qid \<Rightarrow> nat list) \<Rightarrow> bool" where
  "current_ok s qs \<longleftrightarrow>
     halted s = None \<longrightarrow> current_running s = 0 \<or> current_running s \<in> set (qs ReadyQ)"

lemma sched_invD:
  assumes "sched_inv s qs fs"
  shows "family is_queue (pcb s) (queues s) qs" "pool_rep MAX_TASK_NUM (pid_list s) fs"
    "p \<in> set (qs q) \<Longrightarrow> task_ok (pcb s p) p q"
    "p \<in> set (qs q) \<Longrightarrow> 0 < p \<and> p < MAX_TASK_NUM \<and> p \<notin> set fs"
    "0 < p \<Longrightarrow> p < MAX_TASK_NUM \<Longrightarrow> p \<notin> set fs \<Longrightarrow> \<exists>q. p \<in> set (qs q)"
    "pid (pcb s 0) = 0"
  using assms unfolding sched_inv_def by blast+

lemma sched_inv_is_queue: "sched_inv s qs fs \<Longrightarrow> is_queue (pcb s) (queues s q) (qs q)"
  by (simp add: sched_inv_def family_def)

lemma sched_inv_distinct: "sched_inv s qs fs \<Longrightarrow> distinct (qs q)"
  by (blast dest: sched_invD(1) tq.family_distinct)

lemma sched_inv_unique: "sched_inv s qs fs \<Longrightarrow> p \<in> set (qs q) \<Longrightarrow> p \<in> set (qs q') \<Longrightarrow> q = q'"
  by (blast dest: sched_invD(1) tq.family_disjoint)

lemma sched_inv_empty: "sched_inv s qs fs \<Longrightarrow> queue_is_empty (queues s q) \<longleftrightarrow> qs q = []"
  by (blast dest: sched_invD(1) tq.family_is_empty)

text \<open>The invariant looks only at the control blocks, the queues and the pid list.\<close>

lemma sched_inv_cong:
  "sched_inv s qs fs \<Longrightarrow> pcb s' = pcb s \<Longrightarrow> queues s' = queues s \<Longrightarrow> pid_list s' = pid_list s \<Longrightarrow>
   sched_inv s' qs fs"
  by (simp add: sched_inv_def)

lemma sched_inv_heap:
  assumes "sched_inv s qs fs"
    and "\<And>p. next_pcb (h p) = next_pcb (pcb s p) \<and> prev_pcb (h p) = prev_pcb (pcb s p)"
    and "\<And>p q. p \<in> set (qs q) \<Longrightarrow> task_ok (pcb s p) p q \<Longrightarrow> task_ok (h p) p q"
    and "pid (h 0) = pid (pcb s 0)"
  shows "sched_inv (s\<lparr>pcb := h\<rparr>) qs fs"
proof -
  have "is_queue h (queues s q) (qs q)" for q
    using sched_inv_is_queue[OF assms(1), of q] is_queue_cong[of "qs q" h "pcb s"] assms(2) by simp
  then show ?thesis using assms by (auto simp: sched_inv_def family_def)
qed

lemma sched_inv_upd:
  assumes "sched_inv s qs fs"
    and "next_pcb (f (pcb s p)) = next_pcb (pcb s p)" "prev_pcb (f (pcb s p)) = prev_pcb (pcb s p)"
    and "\<And>q. p \<in> set (qs q) \<Longrightarrow> task_ok (pcb s p) p q \<Longrightarrow> task_ok (f (pcb s p)) p q"
    and "pid (f (pcb s p)) = pid (pcb s p)"
  shows "sched_inv (upd_pcb s p f) qs fs"
  unfolding upd_pcb_def using assms by (intro sched_inv_heap) auto

text \<open>Moving a task from one queue to another, as the code does it: remove, push, set \<^verbatim>\<open>queue\<close>.\<close>

lemma requeue:
  assumes inv: "sched_inv s qs fs" and p: "p \<in> set (qs q1)" and ne: "q1 \<noteq> q2"
  obtains s1 s2 h Q where "q_remove s q1 p = Some s1" "q_push s1 q2 p = Some s2"
    "s2 = s\<lparr>pcb := h, queues := Q\<rparr>" "\<And>x. unlinked (h x) = unlinked (pcb s x)"
    "next_pcb (h p) = None"
    "sched_inv (upd_pcb s2 p (\<lambda>c. c\<lparr>pqueue := Some q2\<rparr>))
       (qs(q1 := remove1 p (qs q1), q2 := qs q2 @ [p])) fs"
proof -
  let ?qs1 = "qs(q1 := remove1 p (qs q1))" and ?qs2 = "qs(q1 := remove1 p (qs q1), q2 := qs q2 @ [p])"
  obtain n h1 Q1 where r: "queue_remove (pcb s) (queues s q1) p = Some (n, h1, Q1)"
    "relinks (set (qs q1)) (pcb s) h1" "family is_queue h1 ((queues s)(q1 := Q1)) ?qs1"
    using tq.family_remove[OF sched_invD(1)[OF inv] p] by blast
  have notin: "p \<notin> set (?qs1 j)" for j
    using sched_inv_unique[OF inv p, of j] sched_inv_distinct[OF inv, of q1] by auto
  obtain h2 Q2 where pu: "queue_push h1 (((queues s)(q1 := Q1)) q2) p = Some (h2, Q2)"
    "relinks (insert p (set (?qs1 q2))) h1 h2" "family is_queue h2 (((queues s)(q1 := Q1))(q2 := Q2)) ?qs2"
    using tq.family_push[of h1 "(queues s)(q1 := Q1)" ?qs1 p q2, OF r(3) notin] ne by auto
  have ul: "unlinked (h2 x) = unlinked (pcb s x)" for x
    using r(2) pu(2) by (simp add: relinks_def)
  let ?s1 = "s\<lparr>pcb := h1, queues := (queues s)(q1 := Q1)\<rparr>"
  let ?s2 = "s\<lparr>pcb := h2, queues := (queues s)(q1 := Q1, q2 := Q2)\<rparr>"
  let ?h3 = "h2(p := (h2 p)\<lparr>pqueue := Some q2\<rparr>)"
  have "is_queue h2 Q2 (qs q2 @ [p])" using pu(3) unfolding family_def by (metis fun_upd_same)
  then have nx: "next_pcb (h2 p) = None" by (simp add: is_queue_def dlseg_append)
  have "is_queue ?h3 (((queues s)(q1 := Q1, q2 := Q2)) q) (?qs2 q)" for q
  proof -
    have "is_queue h2 (((queues s)(q1 := Q1, q2 := Q2)) q) (?qs2 q)"
      using pu(3) by (simp add: family_def)
    then show ?thesis using is_queue_cong[of "?qs2 q" ?h3 h2] by simp
  qed
  then have fam: "family is_queue ?h3 ((queues s)(q1 := Q1, q2 := Q2)) ?qs2"
    using pu(3) by (simp add: family_def)
  have ok: "task_ok (?h3 x) x q" if "x \<in> set (?qs2 q)" for x q
  proof (cases "x = p")
    case True
    then have "q = q2" using that notin[of q] ne by (auto split: if_splits)
    with True sched_invD(3)[OF inv p] unlinked_fields[OF ul[of p]] show ?thesis by (simp add: task_ok_def)
  next
    case False
    then have "x \<in> set (qs q)" using that by (auto split: if_splits dest: notin_set_remove1)
    with False sched_invD(3)[OF inv] unlinked_fields[OF ul[of x]] show ?thesis by (simp add: task_ok_def)
  qed
  have "(\<exists>q. x \<in> set (?qs2 q)) \<longleftrightarrow> (\<exists>q. x \<in> set (qs q))" for x
  proof (cases "x = p")
    case True
    have "p \<in> set (?qs2 q2)" by simp
    with True p show ?thesis by blast
  next
    case False
    then have "x \<in> set (?qs2 q) \<longleftrightarrow> x \<in> set (qs q)" for q using ne by (auto simp: in_set_remove1)
    then show ?thesis by blast
  qed
  then have "sched_inv (upd_pcb ?s2 p (\<lambda>c. c\<lparr>pqueue := Some q2\<rparr>)) ?qs2 fs"
    using inv fam ok unlinked_fields(1)[OF ul[of 0]] unfolding sched_inv_def by simp
  moreover have "q_remove s q1 p = Some ?s1" by (simp add: q_remove_def r)
  moreover have "q_push ?s1 q2 p = Some ?s2" using pu(1) by (simp add: q_push_def)
  ultimately show ?thesis using that ul nx by blast
qed

section \<open>The selection loop\<close>

text \<open>One more tick of waiting for the tasks of \<open>A\<close>.\<close>

definition age :: "nat set \<Rightarrow> heap \<Rightarrow> heap" where
  "age A h = (\<lambda>p. if p \<in> A then (h p)\<lparr>wait_time := wait_time (h p) + 1\<rparr> else h p)"

text \<open>The choice the loop makes, as a function of the list of tasks.\<close>

fun pick :: "(pcb_t \<Rightarrow> int) \<Rightarrow> heap \<Rightarrow> nat option \<Rightarrow> int \<Rightarrow> int \<Rightarrow> nat list \<Rightarrow> nat option" where
  "pick key h sel mp mw [] = sel"
| "pick key h sel mp mw (x # xs) =
     (if key (h x) > mp \<or> key (h x) = mp \<and> wait_time (h x) \<ge> mw
      then pick key h (Some x) (key (h x)) (wait_time (h x)) xs
      else pick key h sel mp mw xs)"

definition best :: "(pcb_t \<Rightarrow> int) \<Rightarrow> heap \<Rightarrow> nat list \<Rightarrow> nat \<Rightarrow> bool" where
  "best key h xs x \<longleftrightarrow>
     x \<in> set xs \<and>
     (\<forall>y\<in>set xs. key (h y) < key (h x) \<or> key (h y) = key (h x) \<and> wait_time (h y) \<le> wait_time (h x))"

lemma best_cong:
  "(\<And>y. key (h' y) = key (h y) \<and> wait_time (h' y) = wait_time (h y)) \<Longrightarrow>
   best key h' xs x = best key h xs x"
  by (simp add: best_def)

lemma pick_cong: "(\<And>x. x \<in> set xs \<Longrightarrow> h' x = h x) \<Longrightarrow> pick key h' sel mp mw xs = pick key h sel mp mw xs"
  by (induction xs arbitrary: sel mp mw) auto

lemma select_loop_eq:
  "dlseg h pv xs None \<Longrightarrow> distinct xs \<Longrightarrow>
   select_loop key h sel mp mw (first_ptr xs None) = Some (age (set xs) h, pick key h sel mp mw xs)"
proof (induction xs arbitrary: h pv sel mp mw)
  case Nil
  then show ?case by (simp add: select_loop.simps age_def)
next
  case (Cons x xs)
  define h' where "h' = h(x := (h x)\<lparr>wait_time := wait_time (h x) + 1\<rparr>)"
  have seg: "dlseg h' (Some x) xs None"
    using Cons.prems dlseg_cong[of xs h' h] by (auto simp: h'_def)
  have age: "age (set xs) h' = age (set (x # xs)) h"
    using Cons.prems by (auto simp: age_def fun_eq_iff h'_def)
  have pk: "pick key h' sel' mp' mw' xs = pick key h sel' mp' mw' xs" for sel' mp' mw'
    using Cons.prems by (intro pick_cong) (auto simp: h'_def)
  have step: "select_loop key h' sel' mp' mw' (first_ptr xs None) =
      Some (age (set (x # xs)) h, pick key h sel' mp' mw' xs)" for sel' mp' mw'
    using Cons.IH[OF seg, of sel' mp' mw'] Cons.prems age pk by simp
  have nx: "next_pcb (h' x) = first_ptr xs None" using Cons.prems by (simp add: h'_def)
  show ?case
    by (simp add: select_loop.simps[of _ _ _ _ _ "Some x"] Let_def nx step flip: h'_def)
qed

lemma pick_spec:
  "(pick key h sel mp mw xs = sel \<and>
      (\<forall>y\<in>set xs. key (h y) < mp \<or> key (h y) = mp \<and> wait_time (h y) < mw)) \<or>
   (\<exists>x. pick key h sel mp mw xs = Some x \<and> best key h xs x \<and>
      (mp < key (h x) \<or> mp = key (h x) \<and> mw \<le> wait_time (h x)))"
proof (induction xs arbitrary: sel mp mw)
  case Nil
  then show ?case by simp
next
  case (Cons x xs)
  show ?case
  proof (cases "key (h x) > mp \<or> key (h x) = mp \<and> wait_time (h x) \<ge> mw")
    case True
    then show ?thesis
      using Cons.IH[of "Some x" "key (h x)" "wait_time (h x)"] by (fastforce simp: best_def)
  next
    case False
    then show ?thesis
      using Cons.IH[of sel mp mw] by (fastforce simp: best_def)
  qed
qed

lemma pick_best:
  assumes "xs \<noteq> []" and "\<And>x. x \<in> set xs \<Longrightarrow> 1 \<le> key (h x) \<and> 0 \<le> wait_time (h x)"
  shows "\<exists>x. pick key h sel 1 0 xs = Some x \<and> best key h xs x"
proof -
  obtain y where "y \<in> set xs" using assms(1) by (cases xs) auto
  with assms(2)[of y] have "\<not> (\<forall>y\<in>set xs. key (h y) < 1 \<or> key (h y) = 1 \<and> wait_time (h y) < 0)"
    by force
  with pick_spec[of key h sel 1 0 xs] show ?thesis by blast
qed

lemma select_inv:
  assumes inv: "sched_inv s qs fs" and ne: "qs q \<noteq> []"
    and key: "\<And>c p. task_ok c p q \<Longrightarrow> 1 \<le> key c"
  obtains x where "select_loop key (pcb s) sel 1 0 (head (queues s q)) = Some (age (set (qs q)) (pcb s), Some x)"
    "best key (pcb s) (qs q) x" "sched_inv (s\<lparr>pcb := age (set (qs q)) (pcb s)\<rparr>) qs fs"
proof -
  have isq: "is_queue (pcb s) (queues s q) (qs q)" by (rule sched_inv_is_queue[OF inv])
  have "1 \<le> key (pcb s x) \<and> 0 \<le> wait_time (pcb s x)" if "x \<in> set (qs q)" for x
    using sched_invD(3)[OF inv that] key[of "pcb s x" x] by (auto simp: task_ok_def)
  from pick_best[of "qs q" key "pcb s" sel, OF ne this] obtain x
    where x: "pick key (pcb s) sel 1 0 (qs q) = Some x" "best key (pcb s) (qs q) x" by blast
  have "select_loop key (pcb s) sel 1 0 (head (queues s q)) = Some (age (set (qs q)) (pcb s), Some x)"
    using isq select_loop_eq[of "pcb s" None "qs q" key sel 1 0] x by (simp add: is_queue_def)
  moreover have "sched_inv (s\<lparr>pcb := age (set (qs q)) (pcb s)\<rparr>) qs fs"
    using inv by (intro sched_inv_heap) (auto simp: age_def task_ok_def)
  ultimately show ?thesis using that x by blast
qed

lemma sched_frame_age: "sched_frame s (s\<lparr>pcb := age A (pcb s)\<rparr>)"
  by (auto simp: sched_frame_def age_def)

section \<open>The scheduler\<close>

lemma scheduler_inv:
  assumes inv: "sched_inv s qs fs" and ne: "qs ReadyQ \<noteq> []"
  obtains s' where "scheduler s = Some s'" "sched_inv s' qs fs" "sched_frame s s'"
    "best scheduler_priority (pcb s) (qs ReadyQ) (current_running s')"
    "status (pcb s' (current_running s')) = TASK_RUNNING" "halted s' = halted s"
    "entry_hi s' = word_of_int (int (current_running s'))"
    "\<And>p. kcont (pcb s' p) = kcont (pcb s p)"
    "\<And>p. p \<noteq> current_running s' \<Longrightarrow> status (pcb s' p) =
        (if p = current_running s \<and> status (pcb s p) = TASK_RUNNING then TASK_READY else status (pcb s p))"
    "wait_time (pcb s' (current_running s')) = 0"
    "\<And>p. p \<in> set (qs ReadyQ) \<Longrightarrow> p \<noteq> current_running s' \<Longrightarrow> wait_time (pcb s' p) = wait_time (pcb s p) + 1"
proof -
  let ?cur = "current_running s"
  define s1 where "s1 = upd_pcb s ?cur (\<lambda>c. c\<lparr>cursor_x := screen_cursor_x s, cursor_y := screen_cursor_y s\<rparr>)"
  define s2 where "s2 = (if status (pcb s1 ?cur) = TASK_RUNNING
                  then upd_pcb s1 ?cur (\<lambda>c. c\<lparr>status := TASK_READY\<rparr>) else s1)"
  have "sched_inv s1 qs fs" unfolding s1_def by (intro sched_inv_upd inv) (auto simp: task_ok_def)
  then have inv2: "sched_inv s2 qs fs"
    unfolding s2_def by (auto intro!: sched_inv_upd simp: task_ok_def)
  have fr2: "sched_frame s s2" unfolding s2_def s1_def by (auto simp: sched_frame_def)
  have same: "scheduler_priority (pcb s2 p) = scheduler_priority (pcb s p) \<and>
      wait_time (pcb s2 p) = wait_time (pcb s p) \<and> kcont (pcb s2 p) = kcont (pcb s p)" for p
    by (auto simp: s2_def s1_def)
  have q2: "queues s2 = queues s" by (simp add: s2_def s1_def)
  obtain x where x: "select_loop scheduler_priority (pcb s2) (Some ?cur) 1 0 (head (queues s2 ReadyQ))
      = Some (age (set (qs ReadyQ)) (pcb s2), Some x)"
    "best scheduler_priority (pcb s2) (qs ReadyQ) x"
    "sched_inv (s2\<lparr>pcb := age (set (qs ReadyQ)) (pcb s2)\<rparr>) qs fs"
    using select_inv[OF inv2 ne, of scheduler_priority "Some ?cur"] by (auto simp: task_ok_def)
  have xr: "x \<in> set (qs ReadyQ)" using x(2) by (simp add: best_def)
  define s3 where "s3 = s2\<lparr>pcb := age (set (qs ReadyQ)) (pcb s2), current_running := x\<rparr>"
  have inv3: "sched_inv s3 qs fs" by (rule sched_inv_cong[OF x(3)]) (simp_all add: s3_def)
  define s4 where "s4 = (if scheduler_priority (pcb s3 x) > 1
        then upd_pcb s3 x (\<lambda>c. c\<lparr>scheduler_priority := scheduler_priority c - 1\<rparr>) else s3)"
  have inv4: "sched_inv s4 qs fs"
    unfolding s4_def using inv3 by (auto intro!: sched_inv_upd simp: task_ok_def)
  define s5 where "s5 = upd_pcb s4 x (\<lambda>c. c\<lparr>wait_time := 0\<rparr>)"
  have inv5: "sched_inv s5 qs fs"
    unfolding s5_def using inv4 by (auto intro!: sched_inv_upd simp: task_ok_def)
  define s6 where "s6 = s5\<lparr>screen_cursor_x := cursor_x (pcb s5 x), screen_cursor_y := cursor_y (pcb s5 x)\<rparr>"
  define s7 where "s7 = upd_pcb s6 x (\<lambda>c. c\<lparr>status := TASK_RUNNING\<rparr>)"
  have "sched_inv s6 qs fs" by (rule sched_inv_cong[OF inv5]) (simp_all add: s6_def)
  then have inv7: "sched_inv s7 qs fs"
    unfolding s7_def by (auto intro!: sched_inv_upd simp: task_ok_def)
  define s' where "s' = s7\<lparr>entry_hi := word_of_int (pid (pcb s7 x))\<rparr>"
  have inv': "sched_inv s' qs fs" by (rule sched_inv_cong[OF inv7]) (simp_all add: s'_def)
  have cur': "current_running s' = x" by (simp add: s'_def s7_def s6_def s5_def s4_def s3_def)
  have "scheduler s = Some s'"
    using ne sched_inv_empty[OF inv, of ReadyQ] x(1)
    by (simp add: scheduler_def Let_def s'_def s7_def s6_def s5_def s4_def s3_def s2_def s1_def
          cong: if_cong)
  moreover have "pid (pcb s7 x) = int x"
    using sched_invD(3)[OF inv7 xr] by (simp add: task_ok_def)
  then have "entry_hi s' = word_of_int (int x)" by (simp add: s'_def)
  moreover have "sched_frame s s'"
    using fr2 by (auto simp: sched_frame_def s'_def s7_def s6_def s5_def s4_def s3_def age_def)
  moreover have "best scheduler_priority (pcb s) (qs ReadyQ) x"
    using x(2) same by (simp add: best_def)
  moreover have "status (pcb s' x) = TASK_RUNNING" "wait_time (pcb s' x) = 0"
    by (simp_all add: s'_def s7_def s6_def s5_def)
  moreover have "halted s' = halted s"
    by (simp add: s'_def s7_def s6_def s5_def s4_def s3_def s2_def s1_def)
  moreover have "kcont (pcb s' p) = kcont (pcb s p)" for p
    using same[of p] by (auto simp: s'_def s7_def s6_def s5_def s4_def s3_def age_def)
  moreover have "status (pcb s' p) =
      (if p = ?cur \<and> status (pcb s p) = TASK_RUNNING then TASK_READY else status (pcb s p))"
    if "p \<noteq> x" for p
    using that by (auto simp: s'_def s7_def s6_def s5_def s4_def s3_def age_def s2_def s1_def)
  moreover have "wait_time (pcb s' p) = wait_time (pcb s p) + 1"
    if "p \<in> set (qs ReadyQ)" "p \<noteq> x" for p
    using that same[of p] by (auto simp: s'_def s7_def s6_def s5_def s4_def s3_def age_def)
  ultimately show ?thesis using inv' by (intro that[of s']) (simp_all only: cur' not_False_eq_True)
qed

lemma scheduler_panic:
  assumes "sched_inv s qs fs" and "qs ReadyQ = []"
  shows "scheduler s = Some (panic ''no task to run.'' s)"
  using sched_inv_empty[OF assms(1), of ReadyQ] assms(2) by (simp add: scheduler_def)

text \<open>
  The effect of \<^verbatim>\<open>do_scheduler\<close>, relative to the contents \<open>rq\<close> of the ready queue: the caller's
  continuation is saved, and either the best ready task runs or the kernel panics.
\<close>

definition switched :: "kcont \<Rightarrow> nat list \<Rightarrow> kstate \<Rightarrow> kstate \<Rightarrow> bool" where
  "switched k rq s s' \<longleftrightarrow>
     (\<forall>p. kcont (pcb s' p) = (if p = current_running s then k else kcont (pcb s p))) \<and>
     (if rq = [] then halted s' = Some ''no task to run.'' \<and> current_running s' = current_running s
      else halted s' = halted s \<and> best scheduler_priority (pcb s) rq (current_running s') \<and>
           status (pcb s' (current_running s')) = TASK_RUNNING) \<and>
     (\<forall>p. p \<noteq> current_running s \<longrightarrow> p \<noteq> current_running s' \<longrightarrow> status (pcb s' p) = status (pcb s p))"

lemma do_scheduler_inv:
  assumes inv: "sched_inv s qs fs"
  shows "\<exists>s'. do_scheduler k s = Some s' \<and> sched_inv s' qs fs \<and> sched_frame s s' \<and>
              switched k (qs ReadyQ) s s' \<and>
              (status (pcb s (current_running s)) \<noteq> TASK_RUNNING \<longrightarrow>
               current_running s' \<noteq> current_running s \<longrightarrow>
               status (pcb s' (current_running s)) = status (pcb s (current_running s)))"
proof -
  let ?s1 = "upd_pcb s (current_running s) (\<lambda>c. c\<lparr>kcont := k\<rparr>)"
  have inv1: "sched_inv ?s1 qs fs"
    using inv by (intro sched_inv_upd) (auto simp: task_ok_def)
  have fr1: "sched_frame s ?s1" by (simp add: sched_frame_upd)
  show ?thesis
  proof (cases "qs ReadyQ = []")
    case True
    have "do_scheduler k s = Some (panic ''no task to run.'' ?s1)"
      using scheduler_panic[OF inv1 True] by (simp add: do_scheduler_def)
    moreover have "sched_inv (panic ''no task to run.'' ?s1) qs fs"
      by (rule sched_inv_cong[OF inv1]) (simp_all add: panic_def)
    ultimately show ?thesis
      using True fr1 by (auto simp: switched_def panic_def sched_frame_def)
  next
    case False
    have b: "best scheduler_priority (pcb ?s1) (qs ReadyQ) x = best scheduler_priority (pcb s) (qs ReadyQ) x" for x
      by (rule best_cong) simp
    from scheduler_inv[OF inv1 False] obtain s' where "scheduler ?s1 = Some s'" "sched_inv s' qs fs"
      "sched_frame ?s1 s'" "best scheduler_priority (pcb s) (qs ReadyQ) (current_running s')"
      "status (pcb s' (current_running s')) = TASK_RUNNING" "halted s' = halted ?s1"
      "\<And>p. kcont (pcb s' p) = kcont (pcb ?s1 p)"
      "\<And>p. p \<noteq> current_running s' \<Longrightarrow> status (pcb s' p) = (if p = current_running ?s1 \<and>
          status (pcb ?s1 p) = TASK_RUNNING then TASK_READY else status (pcb ?s1 p))"
      unfolding b by metis
    then show ?thesis
      using False fr1 sched_frame_trans[OF fr1, of s'] by (auto simp: switched_def do_scheduler_def)
  qed
qed

lemma do_wait_inv:
  assumes inv: "sched_inv s qs fs" and p: "p \<in> set (qs ReadyQ)" and q: "q \<noteq> ReadyQ"
    and cur: "p = current_running s" and st: "st \<noteq> TASK_RUNNING"
  shows "\<exists>s'. do_wait s p q st k = Some s' \<and>
              sched_inv s' (qs(ReadyQ := remove1 p (qs ReadyQ), q := qs q @ [p])) fs \<and>
              sched_frame s s' \<and> switched k (remove1 p (qs ReadyQ)) s s' \<and> status (pcb s' p) = st"
proof -
  let ?qs = "qs(ReadyQ := remove1 p (qs ReadyQ), q := qs q @ [p])"
  obtain s1 s2 h Q where r: "q_remove s ReadyQ p = Some s1" "q_push s1 q p = Some s2"
    "s2 = s\<lparr>pcb := h, queues := Q\<rparr>" "\<And>x. unlinked (h x) = unlinked (pcb s x)"
    "sched_inv (upd_pcb s2 p (\<lambda>c. c\<lparr>pqueue := Some q\<rparr>)) ?qs fs"
    using requeue[OF inv p] q by metis
  let ?s3 = "upd_pcb s2 p (\<lambda>c. c\<lparr>pqueue := Some q\<rparr>)"
  let ?s4 = "upd_pcb ?s3 p (\<lambda>c. c\<lparr>status := st\<rparr>)"
  have inv4: "sched_inv ?s4 ?qs fs"
    by (intro sched_inv_upd r(5)) (auto simp: task_ok_def)
  have fr: "sched_frame s ?s4"
    by (intro sched_frame_upd sched_frame_unlinked[OF r(3,4)]) simp_all
  have cur4: "current_running ?s4 = p" using r(3) cur by simp
  have h: "scheduler_priority (h x) = scheduler_priority (pcb s x)" "wait_time (h x) = wait_time (pcb s x)"
    "status (h x) = status (pcb s x)" "kcont (h x) = kcont (pcb s x)" for x
    using unlinked_fields[OF r(4)[of x]] by simp_all
  obtain s' where s': "do_scheduler k ?s4 = Some s'" "sched_inv s' ?qs fs" "sched_frame ?s4 s'"
    "switched k (?qs ReadyQ) ?s4 s'"
    "current_running s' \<noteq> p \<Longrightarrow> status (pcb s' p) = st"
    using do_scheduler_inv[OF inv4, of k] st cur4 by auto
  have notin: "p \<notin> set (?qs ReadyQ)" using sched_inv_distinct[OF inv, of ReadyQ] q by simp
  have b: "best scheduler_priority (pcb ?s4) rq x = best scheduler_priority (pcb s) rq x" for rq x
    using h r(3) by (intro best_cong) simp
  have sw: "switched k (remove1 p (qs ReadyQ)) s s'"
    using s'(4) q r(3) cur h unfolding switched_def b by (auto split: if_splits)
  have "status (pcb s' p) = st"
  proof (cases "remove1 p (qs ReadyQ) = []")
    case True
    then have "s' = panic ''no task to run.'' (upd_pcb ?s4 (current_running ?s4) (\<lambda>c. c\<lparr>kcont := k\<rparr>))"
      using s'(1) scheduler_panic[of "upd_pcb ?s4 (current_running ?s4) (\<lambda>c. c\<lparr>kcont := k\<rparr>)" ?qs fs] q
        sched_inv_upd[OF inv4, of "\<lambda>c. c\<lparr>kcont := k\<rparr>" "current_running ?s4"]
      by (simp add: do_scheduler_def task_ok_def)
    then show ?thesis by (simp add: panic_def)
  next
    case False
    then have "current_running s' \<noteq> p" using sw notin q by (auto simp: switched_def best_def)
    then show ?thesis by (rule s'(5))
  qed
  then show ?thesis
    using r(1,2) s'(1,2) sw sched_frame_trans[OF fr s'(3)] by (auto simp: do_wait_def)
qed

section \<open>Waking tasks\<close>

text \<open>What waking tasks leaves alone: in addition to \<open>sched_frame\<close>, who runs, and where every task
  continues.\<close>

definition wake_frame :: "kstate \<Rightarrow> kstate \<Rightarrow> bool" where
  "wake_frame s s' \<longleftrightarrow>
     sched_frame s s' \<and> current_running s' = current_running s \<and> halted s' = halted s \<and>
     (\<forall>p. kcont (pcb s' p) = kcont (pcb s p))"

lemma wake_frame_refl [simp]: "wake_frame s s"
  by (simp add: wake_frame_def)

lemma wake_frame_trans: "wake_frame s s' \<Longrightarrow> wake_frame s' s'' \<Longrightarrow> wake_frame s s''"
  by (auto simp: wake_frame_def intro: sched_frame_trans)

lemma wake_frame_upd:
  "wake_frame s s' \<Longrightarrow>
   (\<And>c. pid (f c) = pid c \<and> priority (f c) = priority c \<and> lock_num (f c) = lock_num c \<and>
        user_regs_context (f c) = user_regs_context c \<and> page_dir (f c) = page_dir c \<and>
        awakened_time (f c) = awakened_time c) \<Longrightarrow> (\<And>c. kcont (f c) = kcont c) \<Longrightarrow>
   wake_frame s (upd_pcb s' p f)"
  by (simp add: wake_frame_def sched_frame_upd)

lemma wake_frame_unlinked:
  assumes "s' = s\<lparr>pcb := h, queues := Q\<rparr>" and "\<And>p. unlinked (h p) = unlinked (pcb s p)"
  shows "wake_frame s s'"
  using sched_frame_unlinked[OF assms] unlinked_fields(8)[OF assms(2)] assms(1)
  by (simp add: wake_frame_def)

lemma wake_frame_age: "wake_frame s (s\<lparr>pcb := age A (pcb s)\<rparr>)"
  using sched_frame_age[of s A] by (simp add: wake_frame_def) (simp add: age_def)

lemma do_unblock_one_empty: "sched_inv s qs fs \<Longrightarrow> qs q = [] \<Longrightarrow> do_unblock_one s q = Some s"
  using sched_inv_empty[of s qs fs q] by (simp add: do_unblock_one_def)

lemma do_unblock_one_inv:
  assumes inv: "sched_inv s qs fs" and q: "q \<noteq> ReadyQ" and ne: "qs q \<noteq> []"
  shows "\<exists>s' x. do_unblock_one s q = Some s' \<and> best priority (pcb s) (qs q) x \<and>
           sched_inv s' (qs(q := remove1 x (qs q), ReadyQ := qs ReadyQ @ [x])) fs \<and>
           wake_frame s s' \<and> status (pcb s' x) = TASK_READY \<and> wait_time (pcb s' x) = 0 \<and>
           scheduler_priority (pcb s' x) = scheduler_priority (pcb s x) + 1"
proof -
  obtain x where x: "select_loop priority (pcb s) None 1 0 (head (queues s q)) =
      Some (age (set (qs q)) (pcb s), Some x)" "best priority (pcb s) (qs q) x"
    "sched_inv (s\<lparr>pcb := age (set (qs q)) (pcb s)\<rparr>) qs fs"
    using select_inv[OF inv ne, of priority None] by (auto simp: task_ok_def)
  let ?s1 = "s\<lparr>pcb := age (set (qs q)) (pcb s)\<rparr>"
  let ?s2 = "upd_pcb ?s1 x (\<lambda>c. c\<lparr>wait_time := 0\<rparr>)"
  let ?s3 = "upd_pcb ?s2 x (\<lambda>c. c\<lparr>scheduler_priority := scheduler_priority c + 1\<rparr>)"
  have "sched_inv ?s2 qs fs" by (intro sched_inv_upd x(3)) (auto simp: task_ok_def)
  then have inv3: "sched_inv ?s3 qs fs" by (rule sched_inv_upd) (auto simp: task_ok_def)
  have xq: "x \<in> set (qs q)" using x(2) by (simp add: best_def)
  obtain s4 s5 h Q where r: "q_remove ?s3 q x = Some s4" "q_push s4 ReadyQ x = Some s5"
    "s5 = ?s3\<lparr>pcb := h, queues := Q\<rparr>" "\<And>y. unlinked (h y) = unlinked (pcb ?s3 y)"
    "sched_inv (upd_pcb s5 x (\<lambda>c. c\<lparr>pqueue := Some ReadyQ\<rparr>))
       (qs(q := remove1 x (qs q), ReadyQ := qs ReadyQ @ [x])) fs"
    by (rule requeue[OF inv3 xq q]) blast
  let ?s6 = "upd_pcb s5 x (\<lambda>c. c\<lparr>pqueue := Some ReadyQ\<rparr>)"
  let ?s7 = "upd_pcb ?s6 x (\<lambda>c. c\<lparr>status := TASK_READY\<rparr>)"
  have "sched_inv ?s7 (qs(q := remove1 x (qs q), ReadyQ := qs ReadyQ @ [x])) fs"
    by (intro sched_inv_upd r(5)) (auto simp: task_ok_def)
  moreover have fr3: "wake_frame s ?s3" by (intro wake_frame_upd wake_frame_age) simp_all
  have "wake_frame s ?s7"
    by (intro wake_frame_upd wake_frame_trans[OF fr3 wake_frame_unlinked[OF r(3,4)]]) simp_all
  moreover have "do_unblock_one s q = Some ?s7"
    using ne sched_inv_empty[OF inv, of q] x(1) r(1,2) by (simp add: do_unblock_one_def)
  moreover have "wait_time (h x) = 0" "scheduler_priority (h x) = scheduler_priority (pcb s x) + 1"
    using unlinked_fields[OF r(4)[of x]] xq by (simp_all add: age_def)
  ultimately show ?thesis using x(2) r(3) by (auto intro!: exI[of _ ?s7] exI[of _ x])
qed

text \<open>Both cases at once, for callers that do not care which task was woken.\<close>

lemma do_unblock_one_total:
  assumes "sched_inv s qs fs" and "q \<noteq> ReadyQ"
  obtains s' qs' where "do_unblock_one s q = Some s'" "sched_inv s' qs' fs" "wake_frame s s'"
    "set (qs' q) \<subseteq> set (qs q)" "length (qs' q) = length (qs q) - 1"
    "set (qs ReadyQ) \<subseteq> set (qs' ReadyQ)" "\<And>r. r \<noteq> q \<Longrightarrow> r \<noteq> ReadyQ \<Longrightarrow> qs' r = qs r"
proof (cases "qs q = []")
  case True
  then show ?thesis using do_unblock_one_empty[OF assms(1) True] assms(1) that[of s qs] by simp
next
  case False
  from do_unblock_one_inv[OF assms False] obtain s' x where
    *: "do_unblock_one s q = Some s'" "best priority (pcb s) (qs q) x"
    "sched_inv s' (qs(q := remove1 x (qs q), ReadyQ := qs ReadyQ @ [x])) fs" "wake_frame s s'" by blast
  show ?thesis
    by (rule that[OF *(1,3,4)])
      (use assms(2) *(2) in \<open>auto simp: best_def length_remove1 dest: set_remove1_subset[THEN subsetD]\<close>)
qed

lemma do_unblock_all_inv:
  assumes "sched_inv s qs fs" and "q \<noteq> ReadyQ"
  shows "\<exists>s'. do_unblock_all s q = Some s' \<and>
           sched_inv s' (qs(q := [], ReadyQ := qs ReadyQ @ qs q)) fs \<and> wake_frame s s' \<and>
           (\<forall>p\<in>set (qs q). status (pcb s' p) = TASK_READY) \<and>
           (\<forall>p. p \<notin> set (qs q) \<longrightarrow> status (pcb s' p) = status (pcb s p))"
  using assms(1)
proof (induction "qs q" arbitrary: s qs)
  case Nil
  then have "do_unblock_all s q = Some s"
    using sched_inv_empty[of s qs fs q] by (simp add: do_unblock_all.simps)
  moreover have "qs(q := [], ReadyQ := qs ReadyQ @ qs q) = qs" using Nil by auto
  ultimately show ?case using Nil by (simp del: fun_upd_apply)
next
  case (Cons p ps)
  from Cons(2) have qq: "qs q = p # ps" by simp
  note inv = Cons.prems
  obtain h1 Q1 where d: "queue_dequeue (pcb s) (queues s q) = Some (p, h1, Q1)"
    using tq.family_dequeue[OF sched_invD(1)[OF inv] qq] by blast
  \<comment> \<open>dequeuing the head leaves the same heap and queue as removing it\<close>
  have isq: "is_queue (pcb s) (queues s q) (p # ps)" using sched_inv_is_queue[OF inv, of q] qq by simp
  have dr: "\<exists>n. queue_remove (pcb s) (queues s q) p = Some (n, h1, Q1)"
  proof (cases ps)
    case Nil
    with isq d show ?thesis
      by (auto simp: is_queue_def queue_dequeue_def queue_remove_def)
  next
    case (Cons y ys)
    then have "last_ptr None (p # ps) \<noteq> Some p" using isq by (auto simp: is_queue_def last_ptr_def)
    with isq d Cons show ?thesis
      by (auto simp: is_queue_def queue_dequeue_def queue_remove_def)
  qed
  obtain s1 s2 h Q where r: "q_remove s q p = Some s1" "q_push s1 ReadyQ p = Some s2"
    "s2 = s\<lparr>pcb := h, queues := Q\<rparr>" "\<And>y. unlinked (h y) = unlinked (pcb s y)"
    "sched_inv (upd_pcb s2 p (\<lambda>c. c\<lparr>pqueue := Some ReadyQ\<rparr>))
       (qs(q := remove1 p (qs q), ReadyQ := qs ReadyQ @ [p])) fs"
    using requeue[OF inv, of p q ReadyQ] qq assms(2) by (metis list.set_intros(1))
  have deq: "q_dequeue s q = Some (p, s1)"
    using dr d r(1) by (auto simp: q_dequeue_def q_remove_def)
  let ?qs = "qs(q := ps, ReadyQ := qs ReadyQ @ [p])"
  let ?s3 = "upd_pcb s2 p (\<lambda>c. c\<lparr>wait_time := 0\<rparr>)"
  let ?s4 = "upd_pcb ?s3 p (\<lambda>c. c\<lparr>scheduler_priority := scheduler_priority c + 1\<rparr>)"
  let ?s5 = "upd_pcb ?s4 p (\<lambda>c. c\<lparr>pqueue := Some ReadyQ\<rparr>)"
  let ?s6 = "upd_pcb ?s5 p (\<lambda>c. c\<lparr>status := TASK_READY\<rparr>)"
  let ?f = "\<lambda>c. c\<lparr>wait_time := 0, scheduler_priority := scheduler_priority c + 1, status := TASK_READY\<rparr>"
  have "?s6 = upd_pcb (upd_pcb s2 p (\<lambda>c. c\<lparr>pqueue := Some ReadyQ\<rparr>)) p ?f"
    by (cases "pcb s2 p") (simp add: upd_pcb_def)
  moreover have "sched_inv (upd_pcb (upd_pcb s2 p (\<lambda>c. c\<lparr>pqueue := Some ReadyQ\<rparr>)) p ?f) ?qs fs"
    by (rule sched_inv_upd) (use r(5) qq in \<open>auto simp: task_ok_def\<close>)
  ultimately have inv6: "sched_inv ?s6 ?qs fs" by simp
  have fr6: "wake_frame s ?s6"
    by (intro wake_frame_upd wake_frame_unlinked[OF r(3,4)]) simp_all
  have "ps = ?qs q" using assms(2) by simp
  from Cons.hyps(1)[OF this inv6] obtain s' where s': "do_unblock_all ?s6 q = Some s'"
    "sched_inv s' (?qs(q := [], ReadyQ := ?qs ReadyQ @ ?qs q)) fs" "wake_frame ?s6 s'"
    "\<forall>y\<in>set ps. status (pcb s' y) = TASK_READY"
    "\<forall>y. y \<notin> set ps \<longrightarrow> status (pcb s' y) = status (pcb ?s6 y)"
    using assms(2) by auto
  have "?qs(q := [], ReadyQ := ?qs ReadyQ @ ?qs q) = qs(q := [], ReadyQ := qs ReadyQ @ qs q)"
    using qq assms(2) by auto
  moreover have "do_unblock_all s q = Some s'"
    using sched_inv_empty[OF inv, of q] qq deq r(2) s'(1) by (simp add: do_unblock_all.simps[of s])
  moreover have "status (pcb s' y) = (if y \<in> set (qs q) then TASK_READY else status (pcb s y))" for y
    using s'(4,5) qq unlinked_fields(5)[OF r(4)[of y]] r(3) by auto
  ultimately show ?case using s'(2) wake_frame_trans[OF fr6 s'(3)] by auto
qed

section \<open>Sleeping\<close>

definition expired :: "kstate \<Rightarrow> nat \<Rightarrow> bool" where
  "expired s p \<longleftrightarrow> awakened_time (pcb s p) \<le> get_ticks s"

lemma check_sleeping_loop_skip:
  "dlseg (pcb s) pv (as @ bs) None \<Longrightarrow> (\<And>p. p \<in> set as \<Longrightarrow> \<not> expired s p) \<Longrightarrow>
   check_sleeping_loop s (first_ptr (as @ bs) None) = check_sleeping_loop s (first_ptr bs None)"
proof (induction as arbitrary: pv)
  case Nil
  then show ?case by simp
next
  case (Cons x as)
  then have "\<not> awakened_time (pcb s x) \<le> get_ticks s" by (simp add: expired_def)
  then have "check_sleeping_loop s (Some x) = check_sleeping_loop s (next_pcb (pcb s x))"
    by (simp add: check_sleeping_loop.simps[of s "Some x"])
  also have "next_pcb (pcb s x) = first_ptr (as @ bs) None" using Cons.prems by simp
  also have "check_sleeping_loop s (first_ptr (as @ bs) None) = check_sleeping_loop s (first_ptr bs None)"
    using Cons.prems by (intro Cons.IH[of "Some x"]) auto
  finally show ?case by simp
qed

lemma check_sleeping_none:
  assumes inv: "sched_inv s qs fs" and no: "\<And>p. p \<in> set (qs SleepQ) \<Longrightarrow> \<not> expired s p"
  shows "check_sleeping s = Some s"
  using sched_inv_is_queue[OF inv, of SleepQ] check_sleeping_loop_skip[of s None "qs SleepQ" "[]"] no
  by (simp add: check_sleeping_def is_queue_def check_sleeping_loop.simps[of s None])

text \<open>
  Only the first expired sleeper is woken in a tick: its \<^verbatim>\<open>next\<close> pointer is cleared when it is
  pushed on the ready queue, and the loop ends there.
\<close>

lemma check_sleeping_wakes_first:
  assumes inv: "sched_inv s qs fs" and sq: "qs SleepQ = as @ x # bs"
    and no: "\<And>p. p \<in> set as \<Longrightarrow> \<not> expired s p" and x: "expired s x"
  shows "\<exists>s'. check_sleeping s = Some s' \<and>
           sched_inv s' (qs(SleepQ := as @ bs, ReadyQ := qs ReadyQ @ [x])) fs \<and> wake_frame s s' \<and>
           status (pcb s' (current_running s)) = TASK_READY \<and>
           (\<forall>p. p \<noteq> current_running s \<longrightarrow> status (pcb s' p) = status (pcb s p))"
proof -
  have isq: "is_queue (pcb s) (queues s SleepQ) (as @ x # bs)"
    using sched_inv_is_queue[OF inv, of SleepQ] sq by simp
  then have skip: "check_sleeping s = check_sleeping_loop s (Some x)"
    using check_sleeping_loop_skip[of s None as "x # bs"] no by (simp add: check_sleeping_def is_queue_def)
  have rm: "remove1 x (qs SleepQ) = as @ bs"
    using isq sq by (simp add: is_queue_def distinct_remove1_split)
  obtain s1 s2 h Q where r: "q_remove s SleepQ x = Some s1" "q_push s1 ReadyQ x = Some s2"
    "s2 = s\<lparr>pcb := h, queues := Q\<rparr>" "\<And>y. unlinked (h y) = unlinked (pcb s y)" "next_pcb (h x) = None"
    "sched_inv (upd_pcb s2 x (\<lambda>c. c\<lparr>pqueue := Some ReadyQ\<rparr>))
       (qs(SleepQ := remove1 x (qs SleepQ), ReadyQ := qs ReadyQ @ [x])) fs"
    by (rule requeue[OF inv, of x SleepQ ReadyQ]) (use sq in auto)
  let ?s3 = "upd_pcb s2 x (\<lambda>c. c\<lparr>pqueue := Some ReadyQ\<rparr>)"
  let ?s4 = "upd_pcb ?s3 (current_running ?s3) (\<lambda>c. c\<lparr>status := TASK_READY\<rparr>)"
  have "sched_inv ?s4 (qs(SleepQ := as @ bs, ReadyQ := qs ReadyQ @ [x])) fs"
    by (rule sched_inv_upd) (use r(6) rm in \<open>auto simp: task_ok_def\<close>)
  moreover have "wake_frame s ?s4"
    by (intro wake_frame_upd wake_frame_unlinked[OF r(3,4)]) simp_all
  moreover have "next_pcb (pcb ?s4 x) = None" using r(3,5) by auto
  then have "check_sleeping s = Some ?s4"
    using x r(1,2) unfolding skip
    by (simp add: check_sleeping_loop.simps[of s "Some x"] expired_def check_sleeping_loop.simps[of _ None])
  moreover have "status (h p) = status (pcb s p)" for p by (rule unlinked_fields(5)[OF r(4)])
  ultimately show ?thesis using r(3) by (intro exI[of _ ?s4]) auto
qed

lemma check_sleeping_total:
  assumes inv: "sched_inv s qs fs"
  obtains s' qs' where "check_sleeping s = Some s'" "sched_inv s' qs' fs" "wake_frame s s'"
    "set (qs ReadyQ) \<subseteq> set (qs' ReadyQ)" "\<And>q. q \<noteq> ReadyQ \<Longrightarrow> q \<noteq> SleepQ \<Longrightarrow> qs' q = qs q"
proof (cases "\<exists>p\<in>set (qs SleepQ). expired s p")
  case False
  then show ?thesis using check_sleeping_none[OF inv] inv that[of s qs] by auto
next
  case True
  then obtain as x bs where "qs SleepQ = as @ x # bs" "expired s x" "\<And>p. p \<in> set as \<Longrightarrow> \<not> expired s p"
    using split_list_first_prop[of "qs SleepQ" "expired s"] by blast
  from check_sleeping_wakes_first[OF inv this(1,3,2)] obtain s' where
    "check_sleeping s = Some s'"
    "sched_inv s' (qs(SleepQ := as @ bs, ReadyQ := qs ReadyQ @ [x])) fs" "wake_frame s s'" by blast
  then show ?thesis by (rule that) auto
qed

section \<open>Processes\<close>

text \<open>A free pid has nobody waiting for it.\<close>

definition wait_ok :: "(qid \<Rightarrow> nat list) \<Rightarrow> nat list \<Rightarrow> bool" where
  "wait_ok qs fs \<longleftrightarrow> (\<forall>p\<in>set fs. qs (WaitQ p) = [])"

text \<open>The pids are a pool of handles whose failure value is 0, which is never a task's pid.\<close>

definition pid_rep :: "kstate \<Rightarrow> nat list \<Rightarrow> bool" where
  "pid_rep s fs \<longleftrightarrow> pool_rep MAX_TASK_NUM (pid_list s) fs"

interpretation pids: index_pool pid_rep MAX_TASK_NUM int 0 pid_alloc pid_free
proof unfold_locales
  fix s f fs
  assume "pid_rep s (f # fs)"
  then show "\<exists>s'. pid_alloc s = Some (int f, s') \<and> pid_rep s' fs"
    using sl.alloc_some[of MAX_TASK_NUM "pid_list s" f fs] by (auto simp: pid_rep_def pid_alloc_def)
next
  fix s fs i
  assume "pid_rep s fs" "0 < i" "i < MAX_TASK_NUM" "i \<notin> set fs"
  then show "\<exists>s'. pid_free s (int i) = Some (1, s') \<and> pid_rep s' (i # fs)"
    using sl.free_used[of MAX_TASK_NUM "pid_list s" fs i] by (auto simp: pid_rep_def pid_free_def)
next
  fix s fs i
  assume "pid_rep s fs" "i \<in> set fs"
  then show "pid_free s (int i) = Some (0, s)"
    using sl.free_unused[of MAX_TASK_NUM "pid_list s" fs i] by (simp add: pid_rep_def pid_free_def)
qed (auto simp: pid_rep_def pid_alloc_def sl.alloc_none dest: sl.rep_distinct sl.rep_range)

lemma sched_inv_set_v0: "sched_inv s qs fs \<Longrightarrow> sched_inv (set_v0 s p v) qs fs"
  unfolding set_v0_def by (erule sched_inv_upd) (auto simp: task_ok_def)

lemma set_v0_fields [simp]:
  "queues (set_v0 s p v) = queues s" "current_running (set_v0 s p v) = current_running s"
  "pid_list (set_v0 s p v) = pid_list s" "halted (set_v0 s p v) = halted s"
  "locks (set_v0 s p v) = locks s" "sems (set_v0 s p v) = sems s" "conds (set_v0 s p v) = conds s"
  "barriers (set_v0 s p v) = barriers s" "time_elapsed (set_v0 s p v) = time_elapsed s"
  "kcont (pcb (set_v0 s p v) x) = kcont (pcb s x)" "lock_num (pcb (set_v0 s p v) x) = lock_num (pcb s x)"
  "pid (pcb (set_v0 s p v) x) = pid (pcb s x)" "status (pcb (set_v0 s p v) x) = status (pcb s x)"
  by (simp_all add: set_v0_def)

lemma init_pcb_full: "sched_inv s qs [] \<Longrightarrow> init_pcb s task = Some (set_v0 s (current_running s) 0)"
  using slist_alloc_empty[of "pid_list s"] sched_invD(2)[of s qs "[]"]
  by (simp add: init_pcb_def pid_alloc_def pool_rep_def)

lemma init_pcb_inv:
  assumes inv: "sched_inv s qs (f # fs)" and w: "qs (WaitQ f) = []" and pr: "1 \<le> ti_priority task"
  shows "\<exists>s'. init_pcb s task = Some s' \<and> sched_inv s' (qs(ReadyQ := qs ReadyQ @ [f])) fs \<and>
           current_running s' = current_running s \<and> halted s' = halted s \<and> locks s' = locks s \<and>
           sems s' = sems s \<and> conds s' = conds s \<and> barriers s' = barriers s \<and>
           (\<forall>p. p \<noteq> f \<longrightarrow> unlinked (pcb s' p) = unlinked (pcb s p)) \<and>
           status (pcb s' f) = TASK_READY \<and> kcont (pcb s' f) = K_exit \<and> lock_num (pcb s' f) = 0 \<and>
           cp0_epc (user_regs_context (pcb s' f)) = entry_point task \<and>
           (\<forall>i<PDE_NUMBER. pde_valid (page_dir (pcb s' f) i) = 0)"
proof -
  have rep: "pid_rep s (f # fs)" using sched_invD(2)[OF inv] by (simp add: pid_rep_def)
  obtain l where l: "pid_alloc s = Some (int f, s\<lparr>pid_list := l\<rparr>)" "pool_rep MAX_TASK_NUM l fs"
    using pids.alloc_some[OF rep] by (auto simp: pid_rep_def pid_alloc_def bind_eq_Some_conv)
  have f: "0 < f" "f < MAX_TASK_NUM" using pids.rep_range[OF rep, of f] by auto
  have ff: "f \<notin> set fs" using pids.rep_distinct[OF rep] by simp
  have notin: "f \<notin> set (qs q)" for q using sched_invD(4)[OF inv, of f q] by auto
  define s1 where "s1 = s\<lparr>pid_list := l\<rparr>"
  define s2 where "s2 = upd_pcb s1 f (init_fields task (int f))"
  have h2: "pcb s2 p = (if p = f then init_fields task (int f) (pcb s f) else pcb s p)" for p
    by (simp add: s2_def s1_def)
  have "pcb s2 p = pcb s p" if "p \<in> set (qs q)" for p q using that notin[of q] by (auto simp: h2)
  then have "is_queue (pcb s2) (queues s q) (qs q)" for q
    using sched_inv_is_queue[OF inv, of q] is_queue_cong[of "qs q" "pcb s2" "pcb s"] by simp
  then have fam2: "family is_queue (pcb s2) (queues s2) qs"
    using sched_invD(1)[OF inv] by (simp add: family_def s2_def s1_def)
  obtain h Q where push: "queue_push (pcb s2) (queues s2 ReadyQ) f = Some (h, Q)"
    "relinks (insert f (set (qs ReadyQ))) (pcb s2) h"
    "family is_queue h ((queues s2)(ReadyQ := Q)) (qs(ReadyQ := qs ReadyQ @ [f]))"
    using tq.family_push[OF fam2 notin, of ReadyQ] by blast
  define s3 where "s3 = s2\<lparr>pcb := h, queues := (queues s2)(ReadyQ := Q)\<rparr>"
  define g where "g = (\<lambda>c. c\<lparr>pqueue := Some ReadyQ, status := TASK_READY, cursor_x := 0, cursor_y := 0,
      page_dir := page_dir_init (page_dir c)\<rparr> :: pcb_t)"
  define s' where "s' = upd_pcb s3 f g\<lparr>queues := (queues s3)(WaitQ f := queue_init)\<rparr>"
  have eq: "init_pcb s task = Some s'"
    using l(1) push(1) f
    by (simp add: init_pcb_def q_push_def s'_def s3_def s2_def s1_def g_def upd_pcb_def)
  have ul: "unlinked (h p) = unlinked (pcb s2 p)" for p using push(2) by (simp add: relinks_def)
  let ?qs = "qs(ReadyQ := qs ReadyQ @ [f])"
  have hp: "pcb s' p = (if p = f then g (h f) else h p)" for p by (simp add: s'_def s3_def)
  have "is_queue (pcb s') (queues s' q) (?qs q)" for q
  proof (cases "q = WaitQ f")
    case True
    then show ?thesis using w by (simp add: s'_def)
  next
    case False
    then have "is_queue h (queues s' q) (?qs q)"
      using push(3) by (simp add: family_def s'_def s3_def)
    then show ?thesis using is_queue_cong[of "?qs q" "pcb s'" h] by (simp add: hp g_def)
  qed
  then have "family is_queue (pcb s') (queues s') ?qs"
    using push(3) by (simp add: family_def)
  moreover have "task_ok (pcb s' p) p q" if "p \<in> set (?qs q)" for p q
  proof (cases "p = f")
    case True
    then have "q = ReadyQ" using that notin[of q] by (auto split: if_splits)
    with True unlinked_fields[OF ul[of f]] pr show ?thesis
      by (simp add: task_ok_def hp g_def h2 init_fields_def)
  next
    case False
    then have "p \<in> set (qs q)" using that by (auto split: if_splits)
    with sched_invD(3)[OF inv this] False unlinked_fields[OF ul[of p]] show ?thesis
      by (simp add: task_ok_def hp h2)
  qed
  moreover have "(\<exists>q. p \<in> set (?qs q)) \<longleftrightarrow> 0 < p \<and> p < MAX_TASK_NUM \<and> p \<notin> set fs" for p
  proof (cases "p = f")
    case True
    have "f \<in> set (?qs ReadyQ)" by simp
    with True f ff show ?thesis by blast
  next
    case False
    then have "p \<in> set (?qs q) \<longleftrightarrow> p \<in> set (qs q)" for q by auto
    with False show ?thesis using inv unfolding sched_inv_def by simp
  qed
  ultimately have "sched_inv s' ?qs fs"
    using l(2) f sched_invD(6)[OF inv] unlinked_fields(1)[OF ul[of 0]]
    unfolding sched_inv_def by (simp add: hp h2) (simp add: s'_def s3_def s2_def s1_def)
  moreover have "unlinked (pcb s' p) = unlinked (pcb s p)" if "p \<noteq> f" for p
    using that ul[of p] by (simp add: hp h2)
  moreover have "status (pcb s' f) = TASK_READY \<and> kcont (pcb s' f) = K_exit \<and> lock_num (pcb s' f) = 0 \<and>
           cp0_epc (user_regs_context (pcb s' f)) = entry_point task \<and>
           (\<forall>i<PDE_NUMBER. pde_valid (page_dir (pcb s' f) i) = 0)"
    using unlinked_fields[OF ul[of f]] by (simp add: hp g_def h2 init_fields_def page_dir_init_def)
  ultimately show ?thesis using eq by (simp add: s'_def s3_def s2_def s1_def)
qed

end
