(* ===== verification/Process.thy ===== *)
theory Process
  imports Sched_Inv
begin

text \<open>
  Termination of processes: \<^verbatim>\<open>kill\<close>, \<^verbatim>\<open>exit\<close> and \<^verbatim>\<open>wait\<close> of \<^verbatim>\<open>kernel/sched/sched.c\<close> keep the invariant
  of the process table, free the pid, wake the tasks that waited for it and release the locks of the
  kernel's lock table that it held.
\<close>

section \<open>Releasing the locks of a killed task\<close>

definition held :: "kstate \<Rightarrow> nat \<Rightarrow> nat \<Rightarrow> nat set" where
  "held s p n = {i. MAX_LOCKS_NUM - n \<le> i \<and> i < MAX_LOCKS_NUM \<and> lk_owner (locks s i) = int p}"

lemma finite_held [simp]: "finite (held s p n)"
  by (simp add: held_def)

lemma held_0 [simp]: "held s p 0 = {}"
  by (simp add: held_def)

lemma held_Suc:
  assumes "n < MAX_LOCKS_NUM"
  shows "held s p (Suc n) = (if lk_owner (locks s (MAX_LOCKS_NUM - Suc n)) = int p
                       then insert (MAX_LOCKS_NUM - Suc n) (held s p n) else held s p n)"
proof -
  define k where "k = MAX_LOCKS_NUM - Suc n"
  have "MAX_LOCKS_NUM - n = Suc k" "k < MAX_LOCKS_NUM" using assms by (auto simp: k_def)
  then show ?thesis unfolding held_def k_def[symmetric] by (auto simp: Suc_le_eq order_le_less)
qed

text \<open>What the release loop keeps: the running task, the continuations, all queues but the ready queue
  and the lock queues, and every lock the killed task does not own.\<close>

definition kill_frame :: "nat \<Rightarrow> kstate \<Rightarrow> (qid \<Rightarrow> nat list) \<Rightarrow> kstate \<Rightarrow> (qid \<Rightarrow> nat list) \<Rightarrow> bool" where
  "kill_frame p s qs s' qs' \<longleftrightarrow>
     current_running s' = current_running s \<and> halted s' = halted s \<and>
     (\<forall>x. kcont (pcb s' x) = kcont (pcb s x) \<and> pid (pcb s' x) = pid (pcb s x) \<and>
          user_regs_context (pcb s' x) = user_regs_context (pcb s x)) \<and>
     (\<forall>x. x \<noteq> p \<longrightarrow> lock_num (pcb s' x) = lock_num (pcb s x)) \<and>
     sems s' = sems s \<and> conds s' = conds s \<and> barriers s' = barriers s \<and>
     set (qs ReadyQ) \<subseteq> set (qs' ReadyQ) \<and>
     (\<forall>r. r \<noteq> ReadyQ \<longrightarrow> (\<forall>i<MAX_LOCKS_NUM. r \<noteq> LockQ i) \<longrightarrow> qs' r = qs r) \<and>
     (\<forall>j. locks s' j = locks s j \<or>
          j < MAX_LOCKS_NUM \<and> lk_owner (locks s j) = int p \<and>
          locks s' j = \<lparr>lk_status = UNLOCKED, lk_owner = 0\<rparr>)"

lemma kill_frame_refl [simp]: "kill_frame p s qs s qs"
  by (simp add: kill_frame_def)

lemma kill_frameD:
  assumes "kill_frame p s qs s' qs'"
  shows "locks s' j = locks s j \<or> j < MAX_LOCKS_NUM \<and> lk_owner (locks s j) = int p \<and>
          locks s' j = \<lparr>lk_status = UNLOCKED, lk_owner = 0\<rparr>"
    and "r \<noteq> ReadyQ \<Longrightarrow> (\<forall>i<MAX_LOCKS_NUM. r \<noteq> LockQ i) \<Longrightarrow> qs' r = qs r"
    and "set (qs ReadyQ) \<subseteq> set (qs' ReadyQ)"
    and "current_running s' = current_running s" "halted s' = halted s"
    and "kcont (pcb s' x) = kcont (pcb s x)" "pid (pcb s' x) = pid (pcb s x)"
    and "user_regs_context (pcb s' x) = user_regs_context (pcb s x)"
    and "x \<noteq> p \<Longrightarrow> lock_num (pcb s' x) = lock_num (pcb s x)"
  using assms unfolding kill_frame_def by blast+

lemma kill_frame_trans:
  assumes a: "kill_frame p s qs s' qs'" and b: "kill_frame p s' qs' s'' qs''"
  shows "kill_frame p s qs s'' qs''"
proof -
  have "locks s'' j = locks s j \<or> j < MAX_LOCKS_NUM \<and> lk_owner (locks s j) = int p \<and>
          locks s'' j = \<lparr>lk_status = UNLOCKED, lk_owner = 0\<rparr>" for j
    using kill_frameD(1)[OF a, of j] kill_frameD(1)[OF b, of j] by auto
  moreover have "set (qs ReadyQ) \<subseteq> set (qs'' ReadyQ)"
    using kill_frameD(3)[OF a] kill_frameD(3)[OF b] by blast
  ultimately show ?thesis using a b unfolding kill_frame_def by simp
qed

lemma kill_locks_inv:
  assumes "sched_inv s qs fs" and "n \<le> MAX_LOCKS_NUM" and "0 < p" and "\<And>q. p \<notin> set (qs q)"
  shows "\<exists>s' qs'. kill_locks s p n = Some s' \<and> sched_inv s' qs' fs \<and> kill_frame p s qs s' qs' \<and>
           (int (card (held s p n)) \<le> lock_num (pcb s p) \<longrightarrow> held s' p n = {})"
  using assms
proof (induction n arbitrary: s qs)
  case 0
  then show ?case by (auto intro!: exI[of _ qs])
next
  case (Suc n)
  let ?i = "MAX_LOCKS_NUM - Suc n"
  have n: "n < MAX_LOCKS_NUM" "?i < MAX_LOCKS_NUM" using Suc.prems by auto
  consider (stop) "lock_num (pcb s p) \<le> 0"
    | (skip) "lock_num (pcb s p) > 0" "lk_owner (locks s ?i) \<noteq> int p"
    | (rel) "lock_num (pcb s p) > 0" "lk_owner (locks s ?i) = int p" by fastforce
  then show ?case
  proof cases
    case stop
    then have "int (card (held s p (Suc n))) \<le> lock_num (pcb s p) \<longrightarrow> held s p (Suc n) = {}"
      using card_0_eq[OF finite_held, of s p "Suc n"] by linarith
    with stop show ?thesis using Suc.prems
      by (intro exI[of _ s] exI[of _ qs]) (simp add: Let_def)
  next
    case skip
    then have "held s p (Suc n) = held s p n" using held_Suc[OF n(1)] by simp
    moreover from Suc.IH[OF Suc.prems(1) _ Suc.prems(3,4)] n obtain s' qs' where
      *: "kill_locks s p n = Some s'" "sched_inv s' qs' fs" "kill_frame p s qs s' qs'"
      "int (card (held s p n)) \<le> lock_num (pcb s p) \<longrightarrow> held s' p n = {}" by auto
    moreover have "lk_owner (locks s' ?i) \<noteq> int p"
      using kill_frameD(1)[OF *(3), of ?i] skip(2) Suc.prems(3) by auto
    ultimately show ?thesis
      using skip held_Suc[OF n(1), of s' p] by (intro exI[of _ s'] exI[of _ qs']) (auto simp: Let_def)
  next
    case rel
    obtain s1 qs1 where u: "do_unblock_one s (LockQ ?i) = Some s1" "sched_inv s1 qs1 fs" "wake_frame s s1"
      "set (qs1 (LockQ ?i)) \<subseteq> set (qs (LockQ ?i))" "set (qs ReadyQ) \<subseteq> set (qs1 ReadyQ)"
      "\<And>r. r \<noteq> LockQ ?i \<Longrightarrow> r \<noteq> ReadyQ \<Longrightarrow> qs1 r = qs r"
      by (rule do_unblock_one_total[OF Suc.prems(1), of "LockQ ?i"]) auto
    define s2 where "s2 = upd_pcb s1 p (\<lambda>c. c\<lparr>lock_num := lock_num c - 1\<rparr>)"
    define s3 where "s3 = s2\<lparr>locks := (locks s2)(?i := \<lparr>lk_status = UNLOCKED, lk_owner = 0\<rparr>)\<rparr>"
    have p1: "p \<notin> set (qs1 q)" for q
      using sched_invD(4,5)[OF u(2), of p] sched_invD(4,5)[OF Suc.prems(1), of p] Suc.prems(4) by blast
    have "sched_inv s2 qs1 fs"
      unfolding s2_def by (intro sched_inv_upd u(2)) (auto simp: task_ok_def)
    then have inv3: "sched_inv s3 qs1 fs" by (rule sched_inv_cong) (simp_all add: s3_def)
    from Suc.IH[OF inv3 _ Suc.prems(3) p1] n obtain s' qs' where
      *: "kill_locks s3 p n = Some s'" "sched_inv s' qs' fs" "kill_frame p s3 qs1 s' qs'"
      "int (card (held s3 p n)) \<le> lock_num (pcb s3 p) \<longrightarrow> held s' p n = {}" by auto
    have fr3: "kill_frame p s qs s3 qs1"
      using u rel n by (auto simp: kill_frame_def s3_def s2_def wake_frame_def sched_frame_def)
    have tr: "kill_frame p s qs s' qs'" by (rule kill_frame_trans[OF fr3 *(3)])
    have lo: "held s3 p n = held s p n" and ni: "?i \<notin> held s p n"
      using u(3) n by (auto simp: held_def s3_def s2_def wake_frame_def sched_frame_def)
    have "lock_num (pcb s3 p) = lock_num (pcb s p) - 1"
      using u(3) by (simp add: s3_def s2_def wake_frame_def sched_frame_def)
    moreover have "int (card (held s p (Suc n))) = int (card (held s p n)) + 1"
      using held_Suc[OF n(1), of s p] rel ni by simp
    moreover have "lk_owner (locks s' ?i) \<noteq> int p"
      using kill_frameD(1)[OF *(3), of ?i] Suc.prems(3) by (auto simp: s3_def)
    ultimately have "int (card (held s p (Suc n))) \<le> lock_num (pcb s p) \<longrightarrow> held s' p (Suc n) = {}"
      using *(4) lo held_Suc[OF n(1), of s' p] by simp
    moreover have "kill_locks s p (Suc n) = Some s'"
      using rel u(1) *(1) by (simp add: Let_def s3_def s2_def)
    ultimately show ?thesis using *(2) tr by blast
  qed
qed

section \<open>Kill, exit and wait\<close>

lemma pid_free_rep:
  assumes "sched_inv s qs fs" and "0 < p" "p < MAX_TASK_NUM" "p \<notin> set fs"
  obtains l where "pid_free s (int p) = Some (1, s\<lparr>pid_list := l\<rparr>)" "pool_rep MAX_TASK_NUM l (p # fs)"
proof -
  have "pid_rep s fs" using sched_invD(2)[OF assms(1)] by (simp add: pid_rep_def)
  from pids.free_used[OF this assms(2-4)] show ?thesis
    using that by (auto simp: pid_rep_def pid_free_def bind_eq_Some_conv)
qed

text \<open>Taking a task whose pid was just freed out of its queue.\<close>

lemma unqueue:
  assumes inv: "sched_inv s qs fs" and p: "p \<in> set (qs q)" and l: "pool_rep MAX_TASK_NUM l (p # fs)"
  obtains h Q where "q_remove (s\<lparr>pid_list := l\<rparr>) q p = Some (s\<lparr>pid_list := l, pcb := h, queues := Q\<rparr>)"
    "\<And>x. unlinked (h x) = unlinked (pcb s x)"
    "sched_inv (s\<lparr>pid_list := l, pcb := h, queues := Q\<rparr>) (qs(q := remove1 p (qs q))) (p # fs)"
proof -
  let ?qs = "qs(q := remove1 p (qs q))"
  obtain n h Q where r: "queue_remove (pcb s) (queues s q) p = Some (n, h, Q)"
    "relinks (set (qs q)) (pcb s) h" "family is_queue h ((queues s)(q := Q)) ?qs"
    using tq.family_remove[OF sched_invD(1)[OF inv] p] by blast
  have ul: "unlinked (h x) = unlinked (pcb s x)" for x using r(2) by (simp add: relinks_def)
  have mem: "x \<in> set (?qs r) \<longleftrightarrow> x \<in> set (qs r) \<and> x \<noteq> p" for x r
    using sched_inv_unique[OF inv p, of r] sched_inv_distinct[OF inv, of q] by auto
  have "task_ok (h x) x r" if "x \<in> set (?qs r)" for x r
    using that mem[of x r] sched_invD(3)[OF inv, of x r] unlinked_fields[OF ul[of x]] by (simp add: task_ok_def)
  moreover have "(\<exists>r. x \<in> set (?qs r)) \<longleftrightarrow> 0 < x \<and> x < MAX_TASK_NUM \<and> x \<notin> set (p # fs)" for x
    using sched_invD(4,5)[OF inv, of x] by (auto simp: mem simp del: fun_upd_apply)
  ultimately have "sched_inv (s\<lparr>pid_list := l, pcb := h, queues := (queues s)(q := Q)\<rparr>) ?qs (p # fs)"
    using r(3) l sched_invD(6)[OF inv] unlinked_fields(1)[OF ul[of 0]]
    unfolding sched_inv_def by (simp del: fun_upd_apply)
  moreover have "q_remove (s\<lparr>pid_list := l\<rparr>) q p = Some (s\<lparr>pid_list := l, pcb := h, queues := (queues s)(q := Q)\<rparr>)"
    using r(1) by (simp add: q_remove_def)
  ultimately show ?thesis using that ul by blast
qed

lemma kill_refused:
  assumes "sched_inv s qs fs" and "p = 1 \<or> p \<le> 0 \<or> int MAX_TASK_NUM \<le> p \<or> nat p \<in> set fs"
  shows "kill s p = Some (set_v0 s (current_running s) 0)"
proof (cases "p = 1")
  case True
  then show ?thesis by (simp add: kill_def)
next
  case False
  have rep: "slist_rep (pid_list s) fs" "length (pid_list s) = MAX_TASK_NUM"
    using sched_invD(2)[OF assms(1)] by (auto simp: pool_rep_def)
  have "slist_free (pid_list s) p (int MAX_TASK_NUM) = Some (0, pid_list s)"
    using slist_free_invalid[OF rep(1), of p] rep(2) assms(2) False by auto
  with False show ?thesis by (simp add: kill_def pid_free_def)
qed

lemma current_pid:
  assumes "sched_inv s qs fs" and "current_running s = 0 \<or> current_running s \<in> set (qs ReadyQ)"
  shows "pid (pcb s (current_running s)) = int (current_running s)"
  using assms sched_invD(3)[OF assms(1)] sched_invD(6)[OF assms(1)] by (auto simp: task_ok_def)

lemma kill_inv:
  assumes inv: "sched_inv s qs fs" and w: "wait_ok qs fs"
    and cur: "current_running s = 0 \<or> current_running s \<in> set (qs ReadyQ)"
    and p: "1 < p" "p < MAX_TASK_NUM" "p \<notin> set fs"
  shows "\<exists>s' qs'. kill s (int p) = Some s' \<and> sched_inv s' qs' (p # fs) \<and> wait_ok qs' (p # fs) \<and>
           set (qs ReadyQ) \<union> set (qs (WaitQ p)) - {p} \<subseteq> set (qs' ReadyQ) \<and>
           (int (card (held s p MAX_LOCKS_NUM)) \<le> lock_num (pcb s p) \<longrightarrow> held s' p MAX_LOCKS_NUM = {}) \<and>
           sems s' = sems s \<and> conds s' = conds s \<and> barriers s' = barriers s \<and>
           (\<forall>j. locks s' j = locks s j \<or> lk_owner (locks s j) = int p \<and>
                locks s' j = \<lparr>lk_status = UNLOCKED, lk_owner = 0\<rparr>) \<and>
           (\<forall>x. x \<noteq> p \<longrightarrow> lock_num (pcb s' x) = lock_num (pcb s x) \<and> kcont (pcb s' x) = kcont (pcb s x)) \<and>
           (if current_running s = p
            then (if qs' ReadyQ = [] then halted s' = Some ''no task to run.''
                  else halted s' = halted s \<and> current_running s' \<in> set (qs' ReadyQ))
            else halted s' = halted s \<and> current_running s' = current_running s \<and>
                 regs (user_regs_context (pcb s' (current_running s))) 2 = 1)"
proof -
  obtain q where q: "p \<in> set (qs q)" using sched_invD(5)[OF inv, of p] p by auto
  have pq: "pqueue (pcb s p) = Some q" using sched_invD(3)[OF inv q] by (simp add: task_ok_def)
  obtain l where l: "pid_free s (int p) = Some (1, s\<lparr>pid_list := l\<rparr>)" "pool_rep MAX_TASK_NUM l (p # fs)"
    by (rule pid_free_rep[OF inv]) (use p in auto)
  let ?qs1 = "qs(q := remove1 p (qs q))"
  obtain h Q where r: "q_remove (s\<lparr>pid_list := l\<rparr>) q p = Some (s\<lparr>pid_list := l, pcb := h, queues := Q\<rparr>)"
    "\<And>x. unlinked (h x) = unlinked (pcb s x)"
    "sched_inv (s\<lparr>pid_list := l, pcb := h, queues := Q\<rparr>) ?qs1 (p # fs)"
    using unqueue[OF inv q l(2)] by blast
  define s2 where "s2 = s\<lparr>pid_list := l, pcb := h, queues := Q\<rparr>"
  have out: "p \<notin> set (?qs1 r)" for r using sched_invD(4)[OF r(3), of p r] by auto
  have in1: "x \<in> set (?qs1 r)" if "x \<in> set (qs r)" "x \<noteq> p" for x r using that by auto
  obtain s3 qs3 where k: "kill_locks s2 p MAX_LOCKS_NUM = Some s3" "sched_inv s3 qs3 (p # fs)"
    "kill_frame p s2 ?qs1 s3 qs3"
    "int (card (held s2 p MAX_LOCKS_NUM)) \<le> lock_num (pcb s2 p) \<longrightarrow> held s3 p MAX_LOCKS_NUM = {}"
    using kill_locks_inv[of s2 ?qs1 "p # fs" MAX_LOCKS_NUM p] r(3) out p by (auto simp: s2_def)
  let ?qs4 = "qs3(WaitQ p := [], ReadyQ := qs3 ReadyQ @ qs3 (WaitQ p))"
  obtain s4 where u: "do_unblock_all s3 (WaitQ p) = Some s4" "sched_inv s4 ?qs4 (p # fs)" "wake_frame s3 s4"
    using do_unblock_all_inv[OF k(2), of "WaitQ p"] by auto
  have wq: "qs3 (WaitQ x) = ?qs1 (WaitQ x)" for x using kill_frameD(2)[OF k(3), of "WaitQ x"] by simp
  have w4: "wait_ok ?qs4 (p # fs)" using w wq by (auto simp: wait_ok_def)
  have sub: "set (qs ReadyQ) \<union> set (qs (WaitQ p)) - {p} \<subseteq> set (?qs4 ReadyQ)"
  proof
    fix x assume "x \<in> set (qs ReadyQ) \<union> set (qs (WaitQ p)) - {p}"
    then have "x \<in> set (?qs1 ReadyQ) \<or> x \<in> set (?qs1 (WaitQ p))" using in1 by blast
    then show "x \<in> set (?qs4 ReadyQ)" using kill_frameD(3)[OF k(3)] wq[of p] by auto
  qed
  have held_eq: "held s2 p MAX_LOCKS_NUM = held s p MAX_LOCKS_NUM" "lock_num (pcb s2 p) = lock_num (pcb s p)"
    using unlinked_fields(6)[OF r(2)] by (simp_all add: held_def s2_def)
  have held4: "held s4 p n = held s3 p n" for n
    using u(3) by (simp add: held_def wake_frame_def sched_frame_def)
  have cur4: "current_running s4 = current_running s" "halted s4 = halted s" and
    pid4: "pid (pcb s4 (current_running s4)) = pid (pcb s (current_running s))"
    using u(3) kill_frameD[OF k(3)] unlinked_fields(1)[OF r(2)]
    by (simp_all add: wake_frame_def sched_frame_def s2_def)
  have objs: "sems s4 = sems s" "conds s4 = conds s" "barriers s4 = barriers s"
    using u(3) k(3) by (simp_all add: wake_frame_def sched_frame_def kill_frame_def s2_def)
  have lk: "locks s4 j = locks s j \<or> lk_owner (locks s j) = int p \<and>
      locks s4 j = \<lparr>lk_status = UNLOCKED, lk_owner = 0\<rparr>" for j
    using kill_frameD(1)[OF k(3), of j] u(3) by (auto simp: wake_frame_def sched_frame_def s2_def)
  have oth: "lock_num (pcb s4 x) = lock_num (pcb s x) \<and> kcont (pcb s4 x) = kcont (pcb s x)" if "x \<noteq> p" for x
    using that kill_frameD(6,9)[OF k(3), of x] u(3) unlinked_fields(6,8)[OF r(2)[of x]]
    by (simp add: wake_frame_def sched_frame_def s2_def)
  have self: "pid (pcb s4 (current_running s4)) = int p \<longleftrightarrow> current_running s = p"
    using current_pid[OF inv cur] pid4 by simp
  have eq: "kill s (int p) = (if current_running s = p then do_scheduler K_kill_ret s4
      else Some (set_v0 s4 (current_running s4) 1))"
    using p l(1) pq r(1) k(1) u(1) self by (simp add: kill_def s2_def)
  show ?thesis
  proof (cases "current_running s = p")
    case True
    obtain s' where s': "do_scheduler K_kill_ret s4 = Some s'" "sched_inv s' ?qs4 (p # fs)"
      "sched_frame s4 s'" "switched K_kill_ret (?qs4 ReadyQ) s4 s'"
      using do_scheduler_inv[OF u(2), of K_kill_ret] by blast
    have "held s' p n = held s4 p n" for n using s'(3) by (simp add: held_def sched_frame_def)
    moreover have "locks s' j = locks s j \<or> lk_owner (locks s j) = int p \<and>
        locks s' j = \<lparr>lk_status = UNLOCKED, lk_owner = 0\<rparr>" for j
      using lk[of j] s'(3) by (simp add: sched_frame_def)
    moreover have "lock_num (pcb s' x) = lock_num (pcb s x) \<and> kcont (pcb s' x) = kcont (pcb s x)"
      if "x \<noteq> p" for x
      using oth[OF that] s'(3,4) that True cur4 by (simp add: sched_frame_def switched_def)
    moreover have "sems s' = sems s" "conds s' = conds s" "barriers s' = barriers s"
      using s'(3) objs by (simp_all add: sched_frame_def)
    ultimately show ?thesis
      using True eq s' w4 sub k(4) held_eq held4 cur4
      by (intro exI[of _ s'] exI[of _ ?qs4]) (simp, simp add: switched_def best_def split: if_splits)
  next
    case False
    let ?s' = "set_v0 s4 (current_running s4) 1"
    have "held ?s' p n = held s4 p n" for n by (simp add: held_def)
    moreover have "regs (user_regs_context (pcb ?s' (current_running s))) 2 = 1"
      using cur4 by (simp add: set_v0_def)
    moreover have "sched_inv ?s' ?qs4 (p # fs)" by (rule sched_inv_set_v0[OF u(2)])
    ultimately show ?thesis
      using False eq w4 sub k(4) held_eq held4 cur4 objs lk oth
      by (intro exI[of _ ?s'] exI[of _ ?qs4]) simp
  qed
qed

text \<open>Waiting for a live task other than oneself; every other argument is refused.\<close>

lemma pid_is_valid_rep:
  assumes "sched_inv s qs fs"
  shows "pid_is_valid s p = Some (if 0 < p \<and> p < int MAX_TASK_NUM \<and> nat p \<notin> set fs then 1 else 0)"
  using slist_is_valid_rep[of "pid_list s" fs p] sched_invD(2)[OF assms]
  by (auto simp: pid_is_valid_def pool_rep_def)

lemma wait_refused:
  assumes "sched_inv s qs fs" and "current_running s \<in> set (qs ReadyQ)"
    and "p \<le> 0 \<or> int MAX_TASK_NUM \<le> p \<or> nat p \<in> set fs \<or> p = int (current_running s)"
  shows "wait s p = Some (set_v0 s (current_running s) 0)"
  using pid_is_valid_rep[OF assms(1), of p] current_pid[OF assms(1)] assms(2,3)
  by (auto simp: wait_def)

lemma wait_inv:
  assumes inv: "sched_inv s qs fs" and cur: "current_running s \<in> set (qs ReadyQ)"
    and p: "0 < p" "p < MAX_TASK_NUM" "p \<notin> set fs" "p \<noteq> current_running s"
  shows "\<exists>s'. wait s (int p) = Some s' \<and>
     sched_inv s' (qs(ReadyQ := remove1 (current_running s) (qs ReadyQ),
                      WaitQ p := qs (WaitQ p) @ [current_running s])) fs \<and>
     sched_frame (set_v0 s (current_running s) 1) s' \<and>
     switched K_exit (remove1 (current_running s) (qs ReadyQ)) (set_v0 s (current_running s) 1) s' \<and>
     status (pcb s' (current_running s)) = TASK_WAITING"
proof -
  have "wait s (int p) = do_wait (set_v0 s (current_running s) 1) (current_running s) (WaitQ p) TASK_WAITING K_exit"
    using pid_is_valid_rep[OF inv, of "int p"] current_pid[OF inv] cur p by (simp add: wait_def Let_def)
  then show ?thesis
    using do_wait_inv[OF sched_inv_set_v0[OF inv, of "current_running s" 1] cur,
        where q = "WaitQ p" and st = TASK_WAITING and k = K_exit] by simp
qed

lemma do_sleep_inv:
  assumes inv: "sched_inv s qs fs" and cur: "current_running s \<in> set (qs ReadyQ)"
  shows "\<exists>s'. do_sleep s t = Some s' \<and>
     sched_inv s' (qs(ReadyQ := remove1 (current_running s) (qs ReadyQ),
                      SleepQ := qs SleepQ @ [current_running s])) fs \<and>
     awakened_time (pcb s' (current_running s)) = time_elapsed s + t div 10 \<and>
     (\<forall>p. p \<noteq> current_running s \<longrightarrow> awakened_time (pcb s' p) = awakened_time (pcb s p)) \<and>
     switched K_exit (remove1 (current_running s) (qs ReadyQ)) s s' \<and>
     locks s' = locks s \<and> sems s' = sems s \<and> conds s' = conds s \<and> barriers s' = barriers s \<and>
     (\<forall>p. lock_num (pcb s' p) = lock_num (pcb s p)) \<and> time_elapsed s' = time_elapsed s \<and>
     status (pcb s' (current_running s)) = TASK_SLEEPING"
proof -
  let ?c = "current_running s"
  let ?s1 = "upd_pcb s ?c (\<lambda>c. c\<lparr>awakened_time := get_ticks s + t div 10\<rparr>)"
  have inv1: "sched_inv ?s1 qs fs" by (intro sched_inv_upd inv) (auto simp: task_ok_def)
  obtain s' where s': "do_wait ?s1 ?c SleepQ TASK_SLEEPING K_exit = Some s'"
    "sched_inv s' (qs(ReadyQ := remove1 ?c (qs ReadyQ), SleepQ := qs SleepQ @ [?c])) fs"
    "sched_frame ?s1 s'" "switched K_exit (remove1 ?c (qs ReadyQ)) ?s1 s'"
    "status (pcb s' ?c) = TASK_SLEEPING"
    using do_wait_inv[OF inv1 cur, where q = SleepQ and st = TASK_SLEEPING and k = K_exit] by auto
  have b: "best scheduler_priority (pcb ?s1) rq x = best scheduler_priority (pcb s) rq x" for rq x
    by (rule best_cong) simp
  have "switched K_exit (remove1 ?c (qs ReadyQ)) s s'"
    using s'(4) unfolding switched_def b by auto
  with s' show ?thesis by (auto simp: do_sleep_def sched_frame_def get_ticks_def)
qed

end
