(* ===== verification/Sync.thy ===== *)
theory Sync
  imports Process
begin

text \<open>
  The synchronisation primitives of \<^verbatim>\<open>kernel/lock\<close>: mutex and spin locks (\<^verbatim>\<open>lock.c\<close>), semaphores
  (\<^verbatim>\<open>sem.c\<close>), conditions (\<^verbatim>\<open>cond.c\<close>) and barriers (\<^verbatim>\<open>barrier.c\<close>), built on \<^verbatim>\<open>do_wait\<close> and
  \<^verbatim>\<open>do_unblock_*\<close> of the scheduler. A primitive that blocks in the middle of its body records in its
  continuation where it goes on.
\<close>

section \<open>Locks\<close>

abbreviation cur_pid :: "kstate \<Rightarrow> int" where
  "cur_pid s \<equiv> pid (pcb s (current_running s))"

definition spin_lock_init :: "kstate \<Rightarrow> nat \<Rightarrow> kstate" where
  "spin_lock_init s l = s\<lparr>locks := (locks s)(l := \<lparr>lk_status = UNLOCKED, lk_owner = 0\<rparr>)\<rparr>"

text \<open>\<^verbatim>\<open>++current_running->lock_num; lock->owner = current_running->pid; lock->status = LOCKED\<close>\<close>

definition lock_take :: "kstate \<Rightarrow> nat \<Rightarrow> kstate" where
  "lock_take s l =
     (let s1 = upd_pcb s (current_running s) (\<lambda>c. c\<lparr>lock_num := lock_num c + 1\<rparr>)
      in s1\<lparr>locks := (locks s1)(l := \<lparr>lk_status = LOCKED, lk_owner = cur_pid s1\<rparr>)\<rparr>)"

text \<open>\<^verbatim>\<open>--current_running->lock_num; lock->owner = 0; lock->status = UNLOCKED\<close>\<close>

definition lock_drop :: "kstate \<Rightarrow> nat \<Rightarrow> kstate" where
  "lock_drop s l =
     (let s1 = upd_pcb s (current_running s) (\<lambda>c. c\<lparr>lock_num := lock_num c - 1\<rparr>)
      in s1\<lparr>locks := (locks s1)(l := \<lparr>lk_status = UNLOCKED, lk_owner = 0\<rparr>)\<rparr>)"

text \<open>The spin lock waits in an empty loop: with the lock held by another task it never returns, since
  the kernel runs with interrupts disabled.\<close>

definition spin_lock_acquire :: "kstate \<Rightarrow> nat \<Rightarrow> kstate option" where
  "spin_lock_acquire s l =
     (if lk_owner (locks s l) = cur_pid s then Some s
      else if lk_status (locks s l) = LOCKED then None
      else Some (lock_take s l))"

definition spin_lock_release :: "kstate \<Rightarrow> nat \<Rightarrow> kstate" where
  "spin_lock_release s l = (if lk_owner (locks s l) \<noteq> cur_pid s then s else lock_drop s l)"

definition do_mutex_lock_init :: "kstate \<Rightarrow> nat \<Rightarrow> kstate" where
  "do_mutex_lock_init s l =
     s\<lparr>locks := (locks s)(l := \<lparr>lk_status = UNLOCKED, lk_owner = 0\<rparr>),
       queues := (queues s)(LockQ l := queue_init)\<rparr>"

fun init_mutex_locks_loop :: "kstate \<Rightarrow> nat \<Rightarrow> kstate" where
  "init_mutex_locks_loop s 0 = s"
| "init_mutex_locks_loop s (Suc n) = do_mutex_lock_init (init_mutex_locks_loop s n) n"

definition init_mutex_locks :: "kstate \<Rightarrow> kstate" where
  "init_mutex_locks s = init_mutex_locks_loop s MAX_LOCKS_NUM"

fun init_spin_locks_loop :: "kstate \<Rightarrow> nat \<Rightarrow> kstate" where
  "init_spin_locks_loop s 0 = s"
| "init_spin_locks_loop s (Suc n) = spin_lock_init (init_spin_locks_loop s n) n"

definition init_spin_locks :: "kstate \<Rightarrow> kstate" where
  "init_spin_locks s = init_spin_locks_loop s MAX_LOCKS_NUM"

text \<open>The loop of \<^verbatim>\<open>do_mutex_lock_acquire\<close>, up to the next switch: a task that finds the lock taken
  blocks, and tests again when it is resumed.\<close>

definition mutex_loop :: "kstate \<Rightarrow> nat \<Rightarrow> kstate option" where
  "mutex_loop s l =
     (if lk_status (locks s l) = LOCKED
      then do_wait s (current_running s) (LockQ l) TASK_BLOCKED (K_mutex_loop l)
      else Some (lock_take s l))"

definition do_mutex_lock_acquire :: "kstate \<Rightarrow> nat \<Rightarrow> kstate option" where
  "do_mutex_lock_acquire s l =
     (if lk_owner (locks s l) = cur_pid s then Some s else mutex_loop s l)"

definition do_mutex_lock_release :: "kstate \<Rightarrow> nat \<Rightarrow> kstate option" where
  "do_mutex_lock_release s l =
     (if lk_owner (locks s l) \<noteq> cur_pid s then Some s
      else do { s1 \<leftarrow> do_unblock_one s (LockQ l); Some (lock_drop s1 l) })"

section \<open>Semaphores\<close>

definition do_semaphore_init :: "kstate \<Rightarrow> nat \<Rightarrow> int \<Rightarrow> kstate" where
  "do_semaphore_init s i v =
     s\<lparr>sems := (sems s)(i := \<lparr>sem_value = (if v < 0 then 0 else v)\<rparr>),
       queues := (queues s)(SemQ i := queue_init)\<rparr>"

definition do_semaphore_up :: "kstate \<Rightarrow> nat \<Rightarrow> kstate option" where
  "do_semaphore_up s i =
     (let s1 = s\<lparr>sems := (sems s)(i := \<lparr>sem_value = sem_value (sems s i) + 1\<rparr>)\<rparr>
      in if sem_value (sems s1 i) \<le> 0 then do_unblock_one s1 (SemQ i) else Some s1)"

text \<open>The argument \<open>k\<close> is where the caller goes on after the call.\<close>

definition do_semaphore_down :: "kstate \<Rightarrow> nat \<Rightarrow> kcont \<Rightarrow> kstate option" where
  "do_semaphore_down s i k =
     (let s1 = s\<lparr>sems := (sems s)(i := \<lparr>sem_value = sem_value (sems s i) - 1\<rparr>)\<rparr>
      in if sem_value (sems s1 i) < 0
         then do_wait s1 (current_running s1) (SemQ i) TASK_BLOCKED k else Some s1)"

section \<open>Conditions\<close>

definition do_condition_init :: "kstate \<Rightarrow> nat \<Rightarrow> kstate" where
  "do_condition_init s c =
     s\<lparr>conds := (conds s)(c := \<lparr>waiting_num = 0\<rparr>), queues := (queues s)(CondQ c := queue_init)\<rparr>"

definition do_condition_wait :: "kstate \<Rightarrow> nat \<Rightarrow> nat \<Rightarrow> kstate option" where
  "do_condition_wait s c l =
     (let s1 = s\<lparr>conds := (conds s)(c := \<lparr>waiting_num = waiting_num (conds s c) + 1\<rparr>)\<rparr>
      in do { s2 \<leftarrow> do_mutex_lock_release s1 l;
              do_wait s2 (current_running s2) (CondQ c) TASK_BLOCKED (K_mutex_acquire l) })"

definition do_condition_signal :: "kstate \<Rightarrow> nat \<Rightarrow> kstate option" where
  "do_condition_signal s c =
     (if waiting_num (conds s c) > 0
      then do_unblock_one (s\<lparr>conds := (conds s)(c := \<lparr>waiting_num = waiting_num (conds s c) - 1\<rparr>)\<rparr>) (CondQ c)
      else Some s)"

definition do_condition_broadcast :: "kstate \<Rightarrow> nat \<Rightarrow> kstate option" where
  "do_condition_broadcast s c =
     (if waiting_num (conds s c) > 0
      then do_unblock_all (s\<lparr>conds := (conds s)(c := \<lparr>waiting_num = 0\<rparr>)\<rparr>) (CondQ c)
      else Some s)"

section \<open>Barriers\<close>

definition do_barrier_init :: "kstate \<Rightarrow> nat \<Rightarrow> int \<Rightarrow> kstate" where
  "do_barrier_init s b g =
     s\<lparr>barriers := (barriers s)(b := \<lparr>goal = (if g < 1 then 1 else g), arrived = 0\<rparr>),
       queues := (queues s)(BarrierQ b := queue_init)\<rparr>"

definition do_barrier_wait :: "kstate \<Rightarrow> nat \<Rightarrow> kstate option" where
  "do_barrier_wait s b =
     (let a = arrived (barriers s b) + 1;
          s1 = s\<lparr>barriers := (barriers s)(b := (barriers s b)\<lparr>arrived := a\<rparr>)\<rparr>
      in if arrived (barriers s1 b) = goal (barriers s1 b)
         then do_unblock_all (s1\<lparr>barriers := (barriers s1)(b := (barriers s1 b)\<lparr>arrived := 0\<rparr>)\<rparr>) (BarrierQ b)
         else do_wait s1 (current_running s1) (BarrierQ b) TASK_WAITING K_exit)"

section \<open>Network receive\<close>

text \<open>\<^verbatim>\<open>do_wait_recv_package\<close> of \<^verbatim>\<open>drivers/mac.c\<close> and the wake-up of \<^verbatim>\<open>irq_mac\<close> (\<^verbatim>\<open>irq.c\<close>).\<close>

definition do_wait_recv_package :: "kstate \<Rightarrow> kstate option" where
  "do_wait_recv_package s = do_wait s (current_running s) RecvQ TASK_BLOCKED K_exit"

end
