(* ===== verification/Kernel.thy ===== *)
theory Kernel
  imports Sync
begin

text \<open>
  The kernel as a state machine: system calls (\<^verbatim>\<open>kernel/exception/syscall.c\<close>), the timer and network
  interrupts (\<^verbatim>\<open>kernel/exception/irq.c\<close>), the exception path of \<^verbatim>\<open>asm.S\<close>, and the resumption of a
  switched-out task. Numbers of system calls and the argument registers are as in \<^verbatim>\<open>syscall.h\<close>.
  The invariant \<open>kernel_inv\<close> holds in every reachable state.
\<close>

section \<open>System calls\<close>

text \<open>The calls that act on the scheduler and the synchronisation objects; pointers are addresses.\<close>

datatype kcall =
    C_spawn u32 | C_kill int | C_exit | C_wait int | C_sleep u32 | C_getpid
  | C_mutex_lock_init u32 | C_mutex_lock_acquire u32 | C_mutex_lock_release u32
  | C_semaphore_init u32 int | C_semaphore_up u32 | C_semaphore_down u32
  | C_cond_init u32 | C_cond_wait u32 u32 | C_cond_signal u32 | C_cond_broadcast u32
  | C_barrier_init u32 int | C_barrier_wait u32
  | C_wait_recv

text \<open>The calls of the drivers and of the file system.\<close>

datatype dcall =
    D_show_process
  | D_write u32 | D_read | D_cursor int int | D_reflush | D_clear int int
  | D_init_mac | D_net_send | D_net_recv

datatype fcall =
    F_mkfs | F_mount | F_statfs | F_get_dir_name | F_mkdir u32 | F_rmdir u32 | F_ls | F_cd u32 | F_touch u32
  | F_fopen u32 int | F_fclose int | F_fread int u32 u32 | F_fwrite int u32 u32 | F_fseek int u32

datatype syscall = Kern kcall | Dev dcall | Fs fcall

text \<open>The argument registers \<^verbatim>\<open>a0\<close> to \<^verbatim>\<open>a3\<close> of a trap.\<close>

record trap_args =
  a_fn :: u32
  a_1 :: u32
  a_2 :: u32
  a_3 :: u32

definition invoke_syscall :: "u32 \<Rightarrow> u32 \<Rightarrow> u32 \<Rightarrow> u32 \<Rightarrow> trap_args" where
  "invoke_syscall f x y z = \<lparr>a_fn = f, a_1 = x, a_2 = y, a_3 = z\<rparr>"

text \<open>The switch of \<^verbatim>\<open>system_call_helper\<close>; \<open>None\<close> is its default case.\<close>

definition decode_syscall :: "trap_args \<Rightarrow> syscall option" where
  "decode_syscall t =
     (let fn = sint (a_fn t); x = a_1 t; y = a_2 t; z = a_3 t in
      if fn = 0 then Some (Dev D_show_process)
      else if fn = 1 then Some (Kern (C_spawn x))
      else if fn = 2 then Some (Kern (C_kill (sint x)))
      else if fn = 3 then Some (Kern C_exit)
      else if fn = 4 then Some (Kern (C_wait (sint x)))
      else if fn = 5 then Some (Kern (C_sleep x))
      else if fn = 6 then Some (Kern C_getpid)
      else if fn = 20 then Some (Dev (D_write x))
      else if fn = 21 then Some (Dev D_read)
      else if fn = 22 then Some (Dev (D_cursor (sint x) (sint y)))
      else if fn = 23 then Some (Dev D_reflush)
      else if fn = 24 then Some (Dev (D_clear (sint x) (sint y)))
      else if fn = 30 then Some (Kern (C_mutex_lock_init x))
      else if fn = 31 then Some (Kern (C_mutex_lock_acquire x))
      else if fn = 32 then Some (Kern (C_mutex_lock_release x))
      else if fn = 33 then Some (Kern (C_semaphore_init x (sint y)))
      else if fn = 34 then Some (Kern (C_semaphore_up x))
      else if fn = 35 then Some (Kern (C_semaphore_down x))
      else if fn = 36 then Some (Kern (C_cond_init x))
      else if fn = 37 then Some (Kern (C_cond_wait x y))
      else if fn = 38 then Some (Kern (C_cond_signal x))
      else if fn = 39 then Some (Kern (C_cond_broadcast x))
      else if fn = 40 then Some (Kern (C_barrier_init x (sint y)))
      else if fn = 41 then Some (Kern (C_barrier_wait x))
      else if fn = 50 then Some (Dev D_init_mac)
      else if fn = 51 then Some (Dev D_net_send)
      else if fn = 52 then Some (Dev D_net_recv)
      else if fn = 53 then Some (Kern C_wait_recv)
      else if fn = 60 then Some (Fs F_mkfs)
      else if fn = 61 then Some (Fs F_mount)
      else if fn = 62 then Some (Fs F_statfs)
      else if fn = 63 then Some (Fs F_get_dir_name)
      else if fn = 64 then Some (Fs (F_mkdir x))
      else if fn = 65 then Some (Fs (F_rmdir x))
      else if fn = 66 then Some (Fs F_ls)
      else if fn = 67 then Some (Fs (F_cd x))
      else if fn = 68 then Some (Fs (F_touch x))
      else if fn = 70 then Some (Fs (F_fopen x (sint y)))
      else if fn = 71 then Some (Fs (F_fclose (sint x)))
      else if fn = 72 then Some (Fs (F_fread (sint x) y z))
      else if fn = 73 then Some (Fs (F_fwrite (sint x) y z))
      else if fn = 74 then Some (Fs (F_fseek (sint x) y))
      else None)"

text \<open>The user-side wrappers (\<^verbatim>\<open>sys_getpid\<close>, \<^verbatim>\<open>barrier_init\<close>, \<dots>), in two groups.\<close>

fun kern_wrapper :: "kcall \<Rightarrow> trap_args" where
  "kern_wrapper C_getpid = invoke_syscall 6 0 0 0"
| "kern_wrapper (C_barrier_init b g) = invoke_syscall 40 b (word_of_int g) 0"
| "kern_wrapper (C_barrier_wait b) = invoke_syscall 41 b 0 0"
| "kern_wrapper (C_cond_init c) = invoke_syscall 36 c 0 0"
| "kern_wrapper (C_cond_wait c l) = invoke_syscall 37 c l 0"
| "kern_wrapper (C_cond_signal c) = invoke_syscall 38 c 0 0"
| "kern_wrapper (C_cond_broadcast c) = invoke_syscall 39 c 0 0"
| "kern_wrapper (C_semaphore_init s v) = invoke_syscall 33 s (word_of_int v) 0"
| "kern_wrapper (C_semaphore_up s) = invoke_syscall 34 s 0 0"
| "kern_wrapper (C_semaphore_down s) = invoke_syscall 35 s 0 0"
| "kern_wrapper (C_spawn t) = invoke_syscall 1 t 0 0"
| "kern_wrapper (C_kill p) = invoke_syscall 2 (word_of_int p) 0 0"
| "kern_wrapper C_exit = invoke_syscall 3 0 0 0"
| "kern_wrapper (C_wait p) = invoke_syscall 4 (word_of_int p) 0 0"
| "kern_wrapper (C_sleep t) = invoke_syscall 5 t 0 0"
| "kern_wrapper (C_mutex_lock_init l) = invoke_syscall 30 l 0 0"
| "kern_wrapper (C_mutex_lock_acquire l) = invoke_syscall 31 l 0 0"
| "kern_wrapper (C_mutex_lock_release l) = invoke_syscall 32 l 0 0"
| "kern_wrapper C_wait_recv = invoke_syscall 53 0 0 0"

fun dev_wrapper :: "dcall \<Rightarrow> trap_args" where
  "dev_wrapper D_show_process = invoke_syscall 0 0 0 0"
| "dev_wrapper (D_write b) = invoke_syscall 20 b 0 0"
| "dev_wrapper D_read = invoke_syscall 21 0 0 0"
| "dev_wrapper (D_cursor x y) = invoke_syscall 22 (word_of_int x) (word_of_int y) 0"
| "dev_wrapper D_reflush = invoke_syscall 23 0 0 0"
| "dev_wrapper (D_clear a b) = invoke_syscall 24 (word_of_int a) (word_of_int b) 0"
| "dev_wrapper D_init_mac = invoke_syscall 50 0 0 0"
| "dev_wrapper D_net_send = invoke_syscall 51 0 0 0"
| "dev_wrapper D_net_recv = invoke_syscall 52 0 0 0"

fun fs_wrapper :: "fcall \<Rightarrow> trap_args" where
  "fs_wrapper F_mkfs = invoke_syscall 60 0 0 0"
| "fs_wrapper F_mount = invoke_syscall 61 0 0 0"
| "fs_wrapper F_statfs = invoke_syscall 62 0 0 0"
| "fs_wrapper F_get_dir_name = invoke_syscall 63 0 0 0"
| "fs_wrapper (F_mkdir s) = invoke_syscall 64 s 0 0"
| "fs_wrapper (F_rmdir s) = invoke_syscall 65 s 0 0"
| "fs_wrapper F_ls = invoke_syscall 66 0 0 0"
| "fs_wrapper (F_cd s) = invoke_syscall 67 s 0 0"
| "fs_wrapper (F_touch s) = invoke_syscall 68 s 0 0"
| "fs_wrapper (F_fopen s a) = invoke_syscall 70 s (word_of_int a) 0"
| "fs_wrapper (F_fclose fd) = invoke_syscall 71 (word_of_int fd) 0 0"
| "fs_wrapper (F_fread fd b n) = invoke_syscall 72 (word_of_int fd) b n"
| "fs_wrapper (F_fwrite fd b n) = invoke_syscall 73 (word_of_int fd) b n"
| "fs_wrapper (F_fseek fd off) = invoke_syscall 74 (word_of_int fd) off 0"

fun syscall_wrapper :: "syscall \<Rightarrow> trap_args" where
  "syscall_wrapper (Kern c) = kern_wrapper c"
| "syscall_wrapper (Dev c) = dev_wrapper c"
| "syscall_wrapper (Fs c) = fs_wrapper c"

text \<open>The wrappers \<^verbatim>\<open>sys_block\<close>, \<^verbatim>\<open>sys_unblock_one\<close> and \<^verbatim>\<open>sys_unblock_all\<close> use these numbers.\<close>

definition sys_block :: "u32 \<Rightarrow> trap_args" where
  "sys_block q = invoke_syscall 10 q 0 0"

definition sys_unblock_one :: "u32 \<Rightarrow> trap_args" where
  "sys_unblock_one q = invoke_syscall 11 q 0 0"

definition sys_unblock_all :: "u32 \<Rightarrow> trap_args" where
  "sys_unblock_all q = invoke_syscall 12 q 0 0"

section \<open>Handlers\<close>

text \<open>
  Where the linker put the kernel's objects, and what is in memory at the address of a
  \<^verbatim>\<open>task_info_t\<close>: \<open>obj_at\<close> numbers the locks, semaphores, conditions and barriers by address.
\<close>

record mem_view =
  obj_at :: "u32 \<Rightarrow> nat"
  task_at :: "u32 \<Rightarrow> task_info_t"

fun kern_exec :: "mem_view \<Rightarrow> kstate \<Rightarrow> kcall \<Rightarrow> kstate option" where
  "kern_exec m s (C_spawn a) = init_pcb s (task_at m a)"
| "kern_exec m s (C_kill p) = kill s p"
| "kern_exec m s C_exit = exit s"
| "kern_exec m s (C_wait p) = wait s p"
| "kern_exec m s (C_sleep t) = do_sleep s t"
| "kern_exec m s C_getpid = Some (do_getpid s)"
| "kern_exec m s (C_mutex_lock_init a) = Some (do_mutex_lock_init s (obj_at m a))"
| "kern_exec m s (C_mutex_lock_acquire a) = do_mutex_lock_acquire s (obj_at m a)"
| "kern_exec m s (C_mutex_lock_release a) = do_mutex_lock_release s (obj_at m a)"
| "kern_exec m s (C_semaphore_init a v) = Some (do_semaphore_init s (obj_at m a) v)"
| "kern_exec m s (C_semaphore_up a) = do_semaphore_up s (obj_at m a)"
| "kern_exec m s (C_semaphore_down a) = do_semaphore_down s (obj_at m a) K_exit"
| "kern_exec m s (C_cond_init a) = Some (do_condition_init s (obj_at m a))"
| "kern_exec m s (C_cond_wait a b) = do_condition_wait s (obj_at m a) (obj_at m b)"
| "kern_exec m s (C_cond_signal a) = do_condition_signal s (obj_at m a)"
| "kern_exec m s (C_cond_broadcast a) = do_condition_broadcast s (obj_at m a)"
| "kern_exec m s (C_barrier_init a g) = Some (do_barrier_init s (obj_at m a) g)"
| "kern_exec m s (C_barrier_wait a) = do_barrier_wait s (obj_at m a)"
| "kern_exec m s C_wait_recv = do_wait_recv_package s"

definition trap_of :: "kstate \<Rightarrow> trap_args" where
  "trap_of s = (let r = regs (user_regs_context (pcb s (current_running s)))
                in \<lparr>a_fn = r 4, a_1 = r 5, a_2 = r 6, a_3 = r 7\<rparr>)"

definition advance_epc :: "kstate \<Rightarrow> kstate" where
  "advance_epc s = upd_pcb s (current_running s) (\<lambda>c. c\<lparr>user_regs_context :=
      (user_regs_context c)\<lparr>cp0_epc := cp0_epc (user_regs_context c) + 4\<rparr>\<rparr>)"

text \<open>
  \<^verbatim>\<open>system_call_helper\<close> for the calls of the kernel proper; the calls of the drivers and the file
  system do not touch this state except for the return value \<open>v\<close> their handler stores.
\<close>

definition system_call_helper :: "mem_view \<Rightarrow> u32 option \<Rightarrow> kstate \<Rightarrow> kstate option" where
  "system_call_helper m v s =
     (let t = trap_of s; s1 = advance_epc s in
      case decode_syscall t of
        None \<Rightarrow> Some (panic ''unknown syscall.'' s1)
      | Some (Kern c) \<Rightarrow> kern_exec m s1 c
      | Some _ \<Rightarrow> Some (case v of None \<Rightarrow> s1 | Some x \<Rightarrow> set_v0 s1 (current_running s1) x))"

definition irq_timer :: "kstate \<Rightarrow> kstate option" where
  "irq_timer s =
     do { let s1 = s\<lparr>time_elapsed := time_elapsed s + 1\<rparr>;
          s2 \<leftarrow> check_sleeping s1;
          do_scheduler K_exit s2 }"

definition irq_mac :: "kstate \<Rightarrow> kstate option" where
  "irq_mac s = (if \<not> queue_is_empty (queues s RecvQ) then do_unblock_one s RecvQ else Some s)"

definition irq_ip3_helper :: "u32 \<Rightarrow> kstate \<Rightarrow> kstate option" where
  "irq_ip3_helper int1_sr s =
     (if drop_bit 3 int1_sr AND 1 \<noteq> 0 then irq_mac s else Some (panic ''unknown ip3.'' s))"

definition interrupt_helper :: "u32 \<Rightarrow> kstate \<Rightarrow> kstate option" where
  "interrupt_helper int1_sr s =
     (let cause = cp0_cause (user_regs_context (pcb s (current_running s))) in
      if cause AND 0x8000 \<noteq> 0 then irq_timer s
      else if cause AND 0x0800 \<noteq> 0 then irq_ip3_helper int1_sr s
      else Some (panic ''unknown interrupt.'' s))"

text \<open>
  A task that runs again after \<^verbatim>\<open>do_scheduler\<close> goes on where it left off. While it does, its own
  return path is the exit of the exception handler. (Theory \<open>Memory\<close> adds the two continuations of a
  page being swapped.)
\<close>

definition resume :: "kstate \<Rightarrow> kstate option" where
  "resume s =
     (let cur = current_running s; s1 = upd_pcb s cur (\<lambda>c. c\<lparr>kcont := K_exit\<rparr>) in
      case kcont (pcb s cur) of
        K_exit \<Rightarrow> Some s
      | K_mutex_loop l \<Rightarrow> mutex_loop s1 l
      | K_mutex_acquire l \<Rightarrow> do_mutex_lock_acquire s1 l
      | K_kill_ret \<Rightarrow> Some (set_v0 s1 cur 1)
      | _ \<Rightarrow> Some s)"


section \<open>Wrappers and dispatcher agree\<close>

text \<open>C \<^verbatim>\<open>int\<close> arguments are 32-bit signed.\<close>

definition int_arg :: "int \<Rightarrow> bool" where
  "int_arg i \<longleftrightarrow> - (2 ^ 31) \<le> i \<and> i < 2 ^ 31"

fun syscall_args_ok :: "syscall \<Rightarrow> bool" where
  "syscall_args_ok (Kern (C_kill p)) = int_arg p"
| "syscall_args_ok (Kern (C_wait p)) = int_arg p"
| "syscall_args_ok (Kern (C_semaphore_init a v)) = int_arg v"
| "syscall_args_ok (Kern (C_barrier_init a g)) = int_arg g"
| "syscall_args_ok (Dev (D_cursor x y)) = (int_arg x \<and> int_arg y)"
| "syscall_args_ok (Dev (D_clear x y)) = (int_arg x \<and> int_arg y)"
| "syscall_args_ok (Fs (F_fopen a m)) = int_arg m"
| "syscall_args_ok (Fs (F_fclose fd)) = int_arg fd"
| "syscall_args_ok (Fs (F_fread fd b n)) = int_arg fd"
| "syscall_args_ok (Fs (F_fwrite fd b n)) = int_arg fd"
| "syscall_args_ok (Fs (F_fseek fd n)) = int_arg fd"
| "syscall_args_ok _ = True"

lemma sint_int_arg: "int_arg i \<Longrightarrow> sint (word_of_int i :: u32) = i"
  by (simp add: int_arg_def sint_sbintrunc' signed_take_bit_int_eq_self)

lemma decode_syscall_wrapper: "syscall_args_ok c \<Longrightarrow> decode_syscall (syscall_wrapper c) = Some c"
proof (cases c)
  case (Kern k)
  then show "syscall_args_ok c \<Longrightarrow> ?thesis"
    by (cases k) (simp_all add: decode_syscall_def invoke_syscall_def sint_int_arg)
next
  case (Dev k)
  then show "syscall_args_ok c \<Longrightarrow> ?thesis"
    by (cases k) (simp_all add: decode_syscall_def invoke_syscall_def sint_int_arg)
next
  case (Fs k)
  then show "syscall_args_ok c \<Longrightarrow> ?thesis"
    by (cases k) (simp_all add: decode_syscall_def invoke_syscall_def sint_int_arg)
qed

lemma decode_sys_block:
  "decode_syscall (sys_block q) = None" "decode_syscall (sys_unblock_one q) = None"
  "decode_syscall (sys_unblock_all q) = None"
  by (simp_all add: decode_syscall_def sys_block_def sys_unblock_one_def sys_unblock_all_def invoke_syscall_def)
end
