(* ===== verification/Kernel_Inv.thy ===== *)
theory Kernel_Inv
  imports Kernel
begin

text \<open>
  The invariant of the kernel state machine and its preservation by every handler. In addition to
  the process table (\<open>sched_inv\<close>, \<open>wait_ok\<close>) it says that the running task is ready, that every lock
  is held by a live task or free and every task's \<^verbatim>\<open>lock_num\<close> counts its locks (\<open>lock_inv\<close>), and that
  every live task has a continuation it can be resumed at (\<open>cont_inv\<close>).
\<close>

section \<open>The invariant\<close>

fun cont_ok :: "kcont \<Rightarrow> bool" where
  "cont_ok K_exit \<longleftrightarrow> True"
| "cont_ok (K_mutex_loop l) \<longleftrightarrow> l < MAX_LOCKS_NUM"
| "cont_ok (K_mutex_acquire l) \<longleftrightarrow> l < MAX_LOCKS_NUM"
| "cont_ok K_kill_ret \<longleftrightarrow> False"
| "cont_ok (K_swap_out a c p) \<longleftrightarrow> False"
| "cont_ok (K_swap_in a n c) \<longleftrightarrow> False"

definition live :: "nat list \<Rightarrow> nat \<Rightarrow> bool" where
  "live fs p \<longleftrightarrow> 0 < p \<and> p < MAX_TASK_NUM \<and> p \<notin> set fs"

definition cont_inv :: "kstate \<Rightarrow> nat list \<Rightarrow> bool" where
  "cont_inv s fs \<longleftrightarrow>
     (\<forall>p. live fs p \<longrightarrow> cont_ok (kcont (pcb s p))) \<and>
     (current_running s = 0 \<longrightarrow> halted s = None \<longrightarrow> kcont (pcb s 0) = K_exit)"

definition lock_inv :: "kstate \<Rightarrow> nat list \<Rightarrow> bool" where
  "lock_inv s fs \<longleftrightarrow>
     (\<forall>l. lk_status (locks s l) = LOCKED \<longleftrightarrow> lk_owner (locks s l) \<noteq> 0) \<and>
     (\<forall>l. MAX_LOCKS_NUM \<le> l \<longrightarrow> lk_owner (locks s l) = 0) \<and>
     (\<forall>l. lk_owner (locks s l) \<noteq> 0 \<longrightarrow> (\<exists>p. live fs p \<and> lk_owner (locks s l) = int p)) \<and>
     (\<forall>p. live fs p \<longrightarrow> lock_num (pcb s p) = int (card (held s p MAX_LOCKS_NUM)))"

definition kinv :: "kstate \<Rightarrow> (qid \<Rightarrow> nat list) \<Rightarrow> nat list \<Rightarrow> bool" where
  "kinv s qs fs \<longleftrightarrow>
     sched_inv s qs fs \<and> wait_ok qs fs \<and> current_ok s qs \<and> lock_inv s fs \<and> cont_inv s fs"

definition kernel_inv :: "kstate \<Rightarrow> bool" where
  "kernel_inv s \<longleftrightarrow> (\<exists>qs fs. kinv s qs fs)"

lemma kinvD:
  assumes "kinv s qs fs"
  shows "sched_inv s qs fs" "wait_ok qs fs" "current_ok s qs" "lock_inv s fs" "cont_inv s fs"
  using assms by (simp_all add: kinv_def)

lemma queued_live: "sched_inv s qs fs \<Longrightarrow> p \<in> set (qs q) \<Longrightarrow> live fs p"
  using sched_invD(4) by (simp add: live_def)

lemma held_all: "held s p MAX_LOCKS_NUM = {i. i < MAX_LOCKS_NUM \<and> lk_owner (locks s i) = int p}"
  by (auto simp: held_def)

lemma lock_invD:
  assumes "lock_inv s fs"
  shows "lk_status (locks s l) = LOCKED \<longleftrightarrow> lk_owner (locks s l) \<noteq> 0"
    and "lk_owner (locks s l) \<noteq> 0 \<Longrightarrow> l < MAX_LOCKS_NUM"
    and "lk_owner (locks s l) \<noteq> 0 \<Longrightarrow> \<exists>p. live fs p \<and> lk_owner (locks s l) = int p"
    and "live fs p \<Longrightarrow> lock_num (pcb s p) = int (card (held s p MAX_LOCKS_NUM))"
  using assms unfolding lock_inv_def by (blast, meson not_le, blast, blast)

lemma lock_inv_frame: "lock_inv s fs \<Longrightarrow> sched_frame s s' \<Longrightarrow> lock_inv s' fs"
  by (simp add: lock_inv_def sched_frame_def held_def)

lemma lock_inv_cong:
  "lock_inv s fs \<Longrightarrow> locks s' = locks s \<Longrightarrow> (\<And>p. lock_num (pcb s' p) = lock_num (pcb s p)) \<Longrightarrow> lock_inv s' fs"
  by (simp add: lock_inv_def held_def)

text \<open>A handler that ends in a context switch.\<close>

lemma kinv_switched:
  assumes "kinv s qs fs" and "halted s = None" and "sched_inv s' qs' fs" and "wait_ok qs' fs"
    and "lock_inv s' fs" and "switched k (qs' ReadyQ) s1 s'" and "cont_ok k"
    and "current_running s1 = current_running s" and "halted s1 = None"
    and "\<And>p. kcont (pcb s1 p) = kcont (pcb s p)"
  shows "kinv s' qs' fs"
proof -
  have c: "current_ok s' qs'"
    using assms(6,9) by (auto simp: current_ok_def switched_def best_def split: if_splits)
  have "cont_ok (kcont (pcb s' p))" if "live fs p" for p
    using assms(6,7,10) kinvD(5)[OF assms(1)] that by (simp add: switched_def cont_inv_def)
  moreover have "current_running s' \<noteq> 0" if "halted s' = None"
    using assms(6) that sched_invD(4)[OF assms(3), of "current_running s'" ReadyQ]
    by (auto simp: switched_def best_def split: if_splits)
  ultimately have "cont_inv s' fs" by (auto simp: cont_inv_def)
  with c assms(3-5) show ?thesis by (simp add: kinv_def)
qed

text \<open>A handler that only wakes tasks.\<close>

lemma kinv_woken:
  assumes "kinv s qs fs" and "sched_inv s' qs' fs" and "wait_ok qs' fs" and "lock_inv s' fs"
    and "current_running s' = current_running s" "halted s' = halted s"
    and "\<And>p. kcont (pcb s' p) = kcont (pcb s p)" and "set (qs ReadyQ) \<subseteq> set (qs' ReadyQ)"
  shows "kinv s' qs' fs"
  using assms kinvD[OF assms(1)] by (auto simp: kinv_def current_ok_def cont_inv_def)

lemma kinv_current:
  assumes "kinv s qs fs" and "halted s = None" and "current_running s \<noteq> 0"
  shows "current_running s \<in> set (qs ReadyQ)" "live fs (current_running s)"
    "cur_pid s = int (current_running s)"
proof -
  show c: "current_running s \<in> set (qs ReadyQ)"
    using kinvD(3)[OF assms(1)] assms(2,3) by (simp add: current_ok_def)
  show "live fs (current_running s)" by (rule queued_live[OF kinvD(1)[OF assms(1)] c])
  show "cur_pid s = int (current_running s)" using current_pid[OF kinvD(1)[OF assms(1)]] c by blast
qed

text \<open>Changes to registers, the clock or the synchronisation counters do not matter to the invariant.\<close>

definition inert :: "kstate \<Rightarrow> kstate \<Rightarrow> bool" where
  "inert s s' \<longleftrightarrow>
     queues s' = queues s \<and> current_running s' = current_running s \<and> pid_list s' = pid_list s \<and>
     locks s' = locks s \<and> halted s' = halted s \<and>
     (\<forall>p. next_pcb (pcb s' p) = next_pcb (pcb s p) \<and> prev_pcb (pcb s' p) = prev_pcb (pcb s p) \<and>
          pqueue (pcb s' p) = pqueue (pcb s p) \<and> pid (pcb s' p) = pid (pcb s p) \<and>
          priority (pcb s' p) = priority (pcb s p) \<and>
          scheduler_priority (pcb s' p) = scheduler_priority (pcb s p) \<and>
          wait_time (pcb s' p) = wait_time (pcb s p) \<and> lock_num (pcb s' p) = lock_num (pcb s p))"

lemma sched_inv_inert:
  assumes "sched_inv s qs fs" and "inert s s'"
  shows "sched_inv s' qs fs"
proof -
  have "sched_inv (s\<lparr>pcb := pcb s'\<rparr>) qs fs"
    using assms by (intro sched_inv_heap) (auto simp: inert_def task_ok_def)
  then show ?thesis by (rule sched_inv_cong) (use assms(2) in \<open>simp_all add: inert_def\<close>)
qed

lemma kinv_inert:
  assumes "kinv s qs fs" and "inert s s'" and "\<And>p. kcont (pcb s' p) = kcont (pcb s p)"
  shows "kinv s' qs fs"
  using assms(2,3) lock_inv_cong[OF kinvD(4)[OF assms(1)], of s'] kinvD[OF assms(1)]
  by (intro kinv_woken[OF assms(1)] sched_inv_inert[OF kinvD(1)[OF assms(1)]]) (auto simp: inert_def)

lemma inert_set_v0: "inert s (set_v0 s p v)"
  by (simp add: inert_def set_v0_def)

lemma inert_advance_epc: "inert s (advance_epc s)"
  by (simp add: inert_def advance_epc_def)

section \<open>Locks\<close>

lemma owner_current:
  assumes "kinv s qs fs" and "halted s = None" and "current_running s \<noteq> 0"
    and "lk_owner (locks s l) = cur_pid s"
  shows "lk_status (locks s l) = LOCKED" "l < MAX_LOCKS_NUM"
  using kinv_current(2,3)[OF assms(1-3)] assms(4) lock_invD(1,2)[OF kinvD(4)[OF assms(1)], of l]
  by (auto simp: live_def)

lemma lock_take_inv:
  assumes inv: "kinv s qs fs" and h: "halted s = None" and c: "current_running s \<noteq> 0"
    and l: "l < MAX_LOCKS_NUM" and free: "lk_status (locks s l) = UNLOCKED"
  shows "kinv (lock_take s l) qs fs"
proof -
  let ?c = "current_running s" and ?s' = "lock_take s l"
  note cu = kinv_current[OF inv h c]
  have sch: "sched_inv ?s' qs fs"
    unfolding lock_take_def Let_def
    by (rule sched_inv_cong[OF sched_inv_upd[OF kinvD(1)[OF inv], of "\<lambda>c. c\<lparr>lock_num := lock_num c + 1\<rparr>" ?c]])
      (auto simp: task_ok_def)
  have lk: "locks ?s' = (locks s)(l := \<lparr>lk_status = LOCKED, lk_owner = int ?c\<rparr>)"
    using cu(3) by (simp add: lock_take_def)
  have free0: "lk_owner (locks s l) = 0"
    using free lock_invD(1)[OF kinvD(4)[OF inv], of l] by auto
  have "held ?s' p MAX_LOCKS_NUM = (if p = ?c then insert l (held s p MAX_LOCKS_NUM) else held s p MAX_LOCKS_NUM)"
    if "live fs p" for p
    using that free0 l by (auto simp: held_all lk live_def)
  moreover have "l \<notin> held s ?c MAX_LOCKS_NUM" using free0 c by (simp add: held_def)
  moreover have "lock_num (pcb ?s' p) = (if p = ?c then lock_num (pcb s p) + 1 else lock_num (pcb s p))" for p
    by (simp add: lock_take_def Let_def)
  ultimately have "lock_inv ?s' fs"
    using kinvD(4)[OF inv] cu(2) l c unfolding lock_inv_def by (auto simp: lk)
  then show ?thesis
    using sch kinvD[OF inv] by (intro kinv_woken[OF inv sch]) (auto simp: lock_take_def Let_def)
qed

lemma lock_drop_inv:
  assumes inv: "sched_inv s qs fs" and li: "lock_inv s fs" and lv: "live fs (current_running s)"
    and own: "lk_owner (locks s l) = int (current_running s)"
  shows "sched_inv (lock_drop s l) qs fs" "lock_inv (lock_drop s l) fs"
proof -
  let ?c = "current_running s" and ?s' = "lock_drop s l"
  show "sched_inv ?s' qs fs"
    unfolding lock_drop_def Let_def
    by (rule sched_inv_cong[OF sched_inv_upd[OF inv, of "\<lambda>c. c\<lparr>lock_num := lock_num c - 1\<rparr>" ?c]])
      (auto simp: task_ok_def)
  have lk: "locks ?s' = (locks s)(l := \<lparr>lk_status = UNLOCKED, lk_owner = 0\<rparr>)"
    by (simp add: lock_drop_def Let_def)
  have l: "l < MAX_LOCKS_NUM" using lock_invD(2)[OF li, of l] own lv by (auto simp: live_def)
  have h: "held ?s' p MAX_LOCKS_NUM = (if p = ?c then held s p MAX_LOCKS_NUM - {l} else held s p MAX_LOCKS_NUM)"
    if "live fs p" for p
    using that own by (auto simp: held_all lk live_def)
  have "l \<in> held s ?c MAX_LOCKS_NUM" using own l by (simp add: held_all)
  then have cd: "int (card (held s ?c MAX_LOCKS_NUM - {l})) = int (card (held s ?c MAX_LOCKS_NUM)) - 1"
    using card_Diff_singleton[of l "held s ?c MAX_LOCKS_NUM"] card_gt_0_iff[of "held s ?c MAX_LOCKS_NUM"]
    by (auto simp: of_nat_diff)
  have "lock_num (pcb ?s' p) = (if p = ?c then lock_num (pcb s p) - 1 else lock_num (pcb s p))" for p
    by (simp add: lock_drop_def Let_def)
  then show "lock_inv ?s' fs"
    using li h cd unfolding lock_inv_def by (auto simp: lk)
qed

section \<open>Blocking and waking under the invariant\<close>

lemma kinv_do_wait:
  assumes inv: "kinv s qs fs" and h: "halted s = None" and c: "current_running s \<noteq> 0"
    and q: "q \<noteq> ReadyQ" "\<And>p. q = WaitQ p \<Longrightarrow> live fs p" and k: "cont_ok k" and st: "st \<noteq> TASK_RUNNING"
  shows "\<exists>s'. do_wait s (current_running s) q st k = Some s' \<and> sched_frame s s' \<and>
     kinv s' (qs(ReadyQ := remove1 (current_running s) (qs ReadyQ), q := qs q @ [current_running s])) fs"
proof -
  let ?c = "current_running s"
  let ?qs = "qs(ReadyQ := remove1 ?c (qs ReadyQ), q := qs q @ [?c])"
  obtain s' where s': "do_wait s ?c q st k = Some s'" "sched_inv s' ?qs fs" "sched_frame s s'"
    "switched k (remove1 ?c (qs ReadyQ)) s s'"
    using do_wait_inv[OF kinvD(1)[OF inv] kinv_current(1)[OF inv h c] q(1) refl st] by blast
  have "wait_ok ?qs fs" using kinvD(2)[OF inv] q(2) by (auto simp: wait_ok_def live_def)
  moreover have "?qs ReadyQ = remove1 ?c (qs ReadyQ)" using q(1) by simp
  ultimately have "kinv s' ?qs fs"
    using s' lock_inv_frame[OF kinvD(4)[OF inv] s'(3)] h k
    by (intro kinv_switched[OF inv h s'(2), of k s]) auto
  with s' show ?thesis by blast
qed

lemma kinv_unblock_one:
  assumes inv: "kinv s qs fs" and q: "q \<noteq> ReadyQ"
  obtains s' qs' where "do_unblock_one s q = Some s'" "kinv s' qs' fs" "wake_frame s s'"
    "set (qs ReadyQ) \<subseteq> set (qs' ReadyQ)"
proof -
  obtain s' qs' where u: "do_unblock_one s q = Some s'" "sched_inv s' qs' fs" "wake_frame s s'"
    "set (qs' q) \<subseteq> set (qs q)" "set (qs ReadyQ) \<subseteq> set (qs' ReadyQ)"
    "\<And>r. r \<noteq> q \<Longrightarrow> r \<noteq> ReadyQ \<Longrightarrow> qs' r = qs r"
    by (rule do_unblock_one_total[OF kinvD(1)[OF inv] q]) blast
  have "qs' (WaitQ p) = []" if "p \<in> set fs" for p
    using kinvD(2)[OF inv] that u(4) u(6)[of "WaitQ p"] by (cases "q = WaitQ p") (auto simp: wait_ok_def)
  then have "wait_ok qs' fs" by (simp add: wait_ok_def)
  then have "kinv s' qs' fs"
    using u(3,5) lock_inv_frame[OF kinvD(4)[OF inv], of s']
    by (intro kinv_woken[OF inv u(2)]) (simp_all add: wake_frame_def)
  with u that show ?thesis by blast
qed

lemma kinv_unblock_all:
  assumes inv: "kinv s qs fs" and q: "q \<noteq> ReadyQ"
  shows "\<exists>s'. do_unblock_all s q = Some s' \<and> wake_frame s s' \<and>
              kinv s' (qs(q := [], ReadyQ := qs ReadyQ @ qs q)) fs"
proof -
  obtain s' where u: "do_unblock_all s q = Some s'"
    "sched_inv s' (qs(q := [], ReadyQ := qs ReadyQ @ qs q)) fs" "wake_frame s s'"
    using do_unblock_all_inv[OF kinvD(1)[OF inv] q] by blast
  have "wait_ok (qs(q := [], ReadyQ := qs ReadyQ @ qs q)) fs"
    using kinvD(2)[OF inv] by (auto simp: wait_ok_def)
  then have "kinv s' (qs(q := [], ReadyQ := qs ReadyQ @ qs q)) fs"
    using u(3) lock_inv_frame[OF kinvD(4)[OF inv], of s']
    by (intro kinv_woken[OF inv u(2)]) (auto simp: wake_frame_def)
  with u show ?thesis by blast
qed

lemma sched_inv_queue_init:
  assumes "sched_inv s qs fs" and "qs q = []"
  shows "sched_inv (s\<lparr>queues := (queues s)(q := queue_init)\<rparr>) qs fs"
proof -
  have "is_queue (pcb s) (((queues s)(q := queue_init)) r) (qs r)" for r
    using assms(2) sched_inv_is_queue[OF assms(1), of r] by simp
  then show ?thesis using assms(1) by (simp add: sched_inv_def family_def)
qed

lemma kinv_queue_init:
  assumes inv: "kinv s qs fs" and q: "queue_is_empty (queues s q)"
    and s': "pcb s' = pcb s" "queues s' = (queues s)(q := queue_init)" "pid_list s' = pid_list s"
      "current_running s' = current_running s" "halted s' = halted s" "lock_inv s' fs"
  shows "kinv s' qs fs"
proof -
  have "qs q = []" using q sched_inv_empty[OF kinvD(1)[OF inv], of q] by simp
  from sched_inv_queue_init[OF kinvD(1)[OF inv] this] have "sched_inv s' qs fs"
    by (rule sched_inv_cong) (simp_all add: s')
  then show ?thesis
    using kinvD(2)[OF inv] s' by (intro kinv_woken[OF inv]) auto
qed

section \<open>The handlers\<close>

lemma kinv_mutex_loop:
  assumes "kinv s qs fs" and "halted s = None" and "current_running s \<noteq> 0" and "l < MAX_LOCKS_NUM"
  shows "\<exists>s' qs'. mutex_loop s l = Some s' \<and> kinv s' qs' fs"
proof (cases "lk_status (locks s l) = LOCKED")
  case True
  with kinv_do_wait[OF assms(1-3), of "LockQ l" "K_mutex_loop l" TASK_BLOCKED] assms(4)
  show ?thesis by (auto simp: mutex_loop_def)
next
  case False
  then have "lk_status (locks s l) = UNLOCKED" by (cases "lk_status (locks s l)") auto
  with lock_take_inv[OF assms this] show ?thesis by (auto simp: mutex_loop_def)
qed

lemma kinv_mutex_acquire:
  assumes "kinv s qs fs" and "halted s = None" and "current_running s \<noteq> 0" and "l < MAX_LOCKS_NUM"
  shows "\<exists>s' qs'. do_mutex_lock_acquire s l = Some s' \<and> kinv s' qs' fs"
  using kinv_mutex_loop[OF assms] assms(1) by (auto simp: do_mutex_lock_acquire_def)

lemma kinv_mutex_release:
  assumes inv: "kinv s qs fs" and h: "halted s = None" and c: "current_running s \<noteq> 0"
  obtains s' qs' where "do_mutex_lock_release s l = Some s'" "kinv s' qs' fs"
    "current_running s' = current_running s" "halted s' = halted s"
    "\<And>p. kcont (pcb s' p) = kcont (pcb s p)"
proof (cases "lk_owner (locks s l) = cur_pid s")
  case False
  then show ?thesis using inv that by (simp add: do_mutex_lock_release_def)
next
  case True
  obtain s1 qs1 where u: "do_unblock_one s (LockQ l) = Some s1" "kinv s1 qs1 fs" "wake_frame s s1"
    using kinv_unblock_one[OF inv, of "LockQ l"] by blast
  have c1: "current_running s1 = current_running s" "halted s1 = halted s" "locks s1 = locks s"
    using u(3) by (simp_all add: wake_frame_def sched_frame_def)
  note cu = kinv_current[OF inv h c]
  have d: "sched_inv (lock_drop s1 l) qs1 fs" "lock_inv (lock_drop s1 l) fs"
    using lock_drop_inv[OF kinvD(1,4)[OF u(2)], of l] cu(2,3) True c1 by simp_all
  have "kinv (lock_drop s1 l) qs1 fs"
    using kinvD(2)[OF u(2)] by (intro kinv_woken[OF u(2) d(1) _ d(2)]) (auto simp: lock_drop_def Let_def)
  then show ?thesis
    using True u(1,3) c1 by (intro that[of "lock_drop s1 l" qs1])
      (auto simp: do_mutex_lock_release_def lock_drop_def Let_def wake_frame_def)
qed

lemma kinv_condition_wait:
  assumes inv: "kinv s qs fs" and h: "halted s = None" and c: "current_running s \<noteq> 0" and l: "l < MAX_LOCKS_NUM"
  shows "\<exists>s' qs'. do_condition_wait s x l = Some s' \<and> kinv s' qs' fs"
proof -
  let ?s1 = "s\<lparr>conds := (conds s)(x := \<lparr>waiting_num = waiting_num (conds s x) + 1\<rparr>)\<rparr>"
  have i1: "kinv ?s1 qs fs" by (rule kinv_inert[OF inv]) (simp_all add: inert_def)
  obtain s2 qs2 where r: "do_mutex_lock_release ?s1 l = Some s2" "kinv s2 qs2 fs"
    "current_running s2 = current_running s" "halted s2 = None"
    by (rule kinv_mutex_release[OF i1, of l]) (use h c in auto)
  from kinv_do_wait[OF r(2,4), of "CondQ x" "K_mutex_acquire l" TASK_BLOCKED] r(3) c l
  obtain s' where "do_wait s2 (current_running s2) (CondQ x) TASK_BLOCKED (K_mutex_acquire l) = Some s'"
    "kinv s' (qs2(ReadyQ := remove1 (current_running s2) (qs2 ReadyQ),
                  CondQ x := qs2 (CondQ x) @ [current_running s2])) fs" by auto
  with r(1) show ?thesis by (auto simp: do_condition_wait_def Let_def)
qed

lemma kinv_spawn_some:
  assumes inv: "kinv s qs (f # fs')" and pr: "1 \<le> ti_priority task"
  shows "\<exists>s'. init_pcb s task = Some s' \<and> kinv s' (qs(ReadyQ := qs ReadyQ @ [f])) fs' \<and>
           current_running s' = current_running s \<and> halted s' = halted s \<and> locks s' = locks s"
proof -
  let ?fs = "f # fs'"
  let ?qs = "qs(ReadyQ := qs ReadyQ @ [f])"
  obtain s' where s': "init_pcb s task = Some s'" "sched_inv s' ?qs fs'"
    "current_running s' = current_running s" "halted s' = halted s" "locks s' = locks s"
    "\<And>p. p \<noteq> f \<Longrightarrow> unlinked (pcb s' p) = unlinked (pcb s p)" "kcont (pcb s' f) = K_exit"
    "lock_num (pcb s' f) = 0"
    using init_pcb_inv[of s qs f fs' task] kinvD(1,2)[OF inv] pr by (auto simp: wait_ok_def)
  have lv: "live fs' p \<longleftrightarrow> p = f \<or> live ?fs p" for p
    using sched_invD(4)[OF s'(2), of f ReadyQ] by (auto simp: live_def)
  have fl: "\<not> live ?fs f" by (simp add: live_def)
  have f0: "f \<noteq> 0" using sched_invD(4)[OF s'(2), of f ReadyQ] by simp
  have "lk_owner (locks s l) \<noteq> int f" for l
    using lock_invD(3)[OF kinvD(4)[OF inv], of l] fl f0 by auto
  then have hf: "held s f n = {}" for n by (simp add: held_def)
  have hs: "held s' p n = held s p n" for p n using s'(5) by (simp add: held_def)
  have oth: "lock_num (pcb s' p) = lock_num (pcb s p) \<and> kcont (pcb s' p) = kcont (pcb s p)" if "p \<noteq> f" for p
    using unlinked_fields[OF s'(6)[OF that]] by simp
  have "lock_num (pcb s' p) = int (card (held s' p MAX_LOCKS_NUM))" if "live fs' p" for p
    using that s'(8) hf hs oth[of p] lv[of p] lock_invD(4)[OF kinvD(4)[OF inv], of p] by (cases "p = f") auto
  then have "lock_inv s' fs'"
    using kinvD(4)[OF inv] s'(5) lv unfolding lock_inv_def by auto
  moreover have "cont_ok (kcont (pcb s' p))" if "live fs' p" for p
    using that s'(7) oth[of p] lv[of p] kinvD(5)[OF inv] by (cases "p = f") (auto simp: cont_inv_def)
  then have "cont_inv s' fs'"
    using kinvD(5)[OF inv] s'(3,4) oth[of 0] f0 by (auto simp: cont_inv_def)
  moreover have "wait_ok ?qs fs'" using kinvD(2)[OF inv] by (simp add: wait_ok_def)
  moreover have "current_ok s' ?qs" using kinvD(3)[OF inv] s'(3,4) by (auto simp: current_ok_def)
  ultimately show ?thesis using s' unfolding kinv_def by blast
qed

lemma kinv_spawn:
  assumes inv: "kinv s qs fs" and pr: "1 \<le> ti_priority task"
  shows "\<exists>s' qs' fs'. init_pcb s task = Some s' \<and> kinv s' qs' fs'"
proof (cases fs)
  case Nil
  then have "init_pcb s task = Some (set_v0 s (current_running s) 0)"
    using init_pcb_full kinvD(1)[OF inv] by simp
  moreover have "kinv (set_v0 s (current_running s) 0) qs fs"
    by (rule kinv_inert[OF inv inert_set_v0]) simp
  ultimately show ?thesis by blast
next
  case (Cons f fs')
  with kinv_spawn_some[of s qs f fs' task] inv pr show ?thesis by blast
qed

lemma kinv_kill:
  assumes inv: "kinv s qs fs" and h: "halted s = None"
  shows "\<exists>s' qs' fs'. kill s p = Some s' \<and> kinv s' qs' fs'"
proof (cases "p = 1 \<or> p \<le> 0 \<or> int MAX_TASK_NUM \<le> p \<or> nat p \<in> set fs")
  case True
  from kill_refused[OF kinvD(1)[OF inv] True] show ?thesis
    using kinv_inert[OF inv inert_set_v0, of "current_running s" 0] by auto
next
  case False
  define n where "n = nat p"
  have p: "p = int n" and n: "1 < n" "n < MAX_TASK_NUM" "n \<notin> set fs" using False by (auto simp: n_def)
  have cur: "current_running s = 0 \<or> current_running s \<in> set (qs ReadyQ)"
    using kinvD(3)[OF inv] h by (simp add: current_ok_def)
  obtain s' qs' where k: "kill s (int n) = Some s'" "sched_inv s' qs' (n # fs)" "wait_ok qs' (n # fs)"
    "set (qs ReadyQ) \<union> set (qs (WaitQ n)) - {n} \<subseteq> set (qs' ReadyQ)"
    "int (card (held s n MAX_LOCKS_NUM)) \<le> lock_num (pcb s n) \<longrightarrow> held s' n MAX_LOCKS_NUM = {}"
    "\<forall>j. locks s' j = locks s j \<or> lk_owner (locks s j) = int n \<and> locks s' j = \<lparr>lk_status = UNLOCKED, lk_owner = 0\<rparr>"
    "\<forall>x. x \<noteq> n \<longrightarrow> lock_num (pcb s' x) = lock_num (pcb s x) \<and> kcont (pcb s' x) = kcont (pcb s x)"
    "if current_running s = n
     then (if qs' ReadyQ = [] then halted s' = Some ''no task to run.''
           else halted s' = halted s \<and> current_running s' \<in> set (qs' ReadyQ))
     else halted s' = halted s \<and> current_running s' = current_running s \<and>
          regs (user_regs_context (pcb s' (current_running s))) 2 = 1"
    using kill_inv[OF kinvD(1,2)[OF inv] cur n] by blast
  have lv: "live (n # fs) x \<longleftrightarrow> live fs x \<and> x \<noteq> n" for x by (auto simp: live_def)
  have ln: "live fs n" using n by (simp add: live_def)
  have out: "held s' n MAX_LOCKS_NUM = {}" using k(5) lock_invD(4)[OF kinvD(4)[OF inv] ln] by simp
  have own: "lk_owner (locks s' l) \<noteq> int n" for l
  proof
    assume a: "lk_owner (locks s' l) = int n"
    then have "locks s' l = locks s l" using k(6)[rule_format, of l] n by auto
    with a have "l < MAX_LOCKS_NUM" using lock_invD(2)[OF kinvD(4)[OF inv], of l] n by simp
    with a out show False by (auto simp: held_all)
  qed
  have keep: "lk_owner (locks s' l) = int x \<longleftrightarrow> lk_owner (locks s l) = int x" if "x \<noteq> n" "x \<noteq> 0" for l x
    using k(6)[rule_format, of l] that by auto
  have "lock_inv s' (n # fs)"
    unfolding lock_inv_def
  proof (intro conjI allI impI)
    fix l
    show "lk_status (locks s' l) = LOCKED \<longleftrightarrow> lk_owner (locks s' l) \<noteq> 0"
      using k(6)[rule_format, of l] lock_invD(1)[OF kinvD(4)[OF inv], of l] by auto
    show "lk_owner (locks s' l) = 0" if "MAX_LOCKS_NUM \<le> l"
      using that k(6)[rule_format, of l] lock_invD(2)[OF kinvD(4)[OF inv], of l] by fastforce
    show "\<exists>x. live (n # fs) x \<and> lk_owner (locks s' l) = int x" if "lk_owner (locks s' l) \<noteq> 0"
      using that k(6)[rule_format, of l] lock_invD(3)[OF kinvD(4)[OF inv], of l] own[of l] lv by auto
  next
    fix x assume x: "live (n # fs) x"
    then have "held s' x MAX_LOCKS_NUM = held s x MAX_LOCKS_NUM"
      using keep[of x] by (auto simp: held_all lv live_def)
    with x show "lock_num (pcb s' x) = int (card (held s' x MAX_LOCKS_NUM))"
      using k(7) lock_invD(4)[OF kinvD(4)[OF inv], of x] by (simp add: lv)
  qed
  moreover have co: "current_ok s' qs'"
    using k(4,8) cur h by (auto simp: current_ok_def split: if_splits)
  moreover have "cont_inv s' (n # fs)"
  proof -
    have "current_running s = 0" if "current_running s' = 0" "halted s' = None"
      using that k(8) co sched_invD(4)[OF k(2), of 0 ReadyQ] by (auto split: if_splits)
    then show ?thesis using k(7) kinvD(5)[OF inv] h n by (auto simp: cont_inv_def lv)
  qed
  ultimately show ?thesis using k(1-3) p unfolding kinv_def by blast
qed

end
