(* ===== verification/Memory.thy ===== *)
theory Memory
  imports Kernel_Inv
begin

text \<open>
  Virtual memory: the allocators of frames, page tables and swap slots (\<^verbatim>\<open>kernel/mm/memory.c\<close>), the
  handler of TLB misses (\<^verbatim>\<open>kernel/exception/tlb.c\<close>) and the routines of \<^verbatim>\<open>asm.S\<close> that program the TLB.
  The pools are interpretations of the allocator contract \<open>index_pool\<close>. A page being swapped blocks
  the task in the middle of the handler; the handler is cut at those points and its locals are in
  the continuation of the task.
\<close>

section \<open>Data\<close>

text \<open>The union \<^verbatim>\<open>u_address\<close> (frame number or swap address) is one word.\<close>

record pte_t =
  pte_addr :: u32
  pte_valid :: u8
  pte_present :: u8

record tlb_entry =
  te_hi :: u32
  te_lo0 :: u32
  te_lo1 :: u32

datatype io_task_type_t = IO_TASK_READ | IO_TASK_WRITE

record io_task_t =
  io_type :: io_task_type_t
  io_buffer :: u32
  io_base :: u32
  io_n :: int

abbreviation PTE_NUMBER :: nat where "PTE_NUMBER \<equiv> 512"
abbreviation PAGE_TABLE_POOL_SIZE :: nat where "PAGE_TABLE_POOL_SIZE \<equiv> 20"
abbreviation PAGE_TABLE_POOL_SLIST_SIZE :: nat where "PAGE_TABLE_POOL_SLIST_SIZE \<equiv> 21"
abbreviation PM_SLIST_SIZE :: nat where "PM_SLIST_SIZE \<equiv> 2049"
abbreviation PM_BASE :: u32 where "PM_BASE \<equiv> 0x01000000"
abbreviation PM_SCHE_SIZE :: u32 where "PM_SCHE_SIZE \<equiv> 0x2000"
abbreviation SWAP_AREA_SIZE :: nat where "SWAP_AREA_SIZE \<equiv> 1025"
abbreviation SWAP_AREA_BASE :: u32 where "SWAP_AREA_BASE \<equiv> 0x700200"
abbreviation SWAP_AREA_TOP :: u32 where "SWAP_AREA_TOP \<equiv> 0xf00200"
abbreviation SWAP_AREA_UINT_SIZE :: u32 where "SWAP_AREA_UINT_SIZE \<equiv> 0x2000"
abbreviation TLB_ENTRY_NUMBER :: nat where "TLB_ENTRY_NUMBER \<equiv> 32"

text \<open>The numbers of the semaphores \<^verbatim>\<open>io_tasks\<close> and \<^verbatim>\<open>io_done\<close> of \<^verbatim>\<open>io_proc.c\<close>.\<close>

abbreviation (input) IO_TASKS :: nat where "IO_TASKS \<equiv> 0"
abbreviation (input) IO_DONE :: nat where "IO_DONE \<equiv> 1"

record mstate =
  ks :: kstate
  page_table_pool :: "nat \<Rightarrow> nat \<Rightarrow> pte_t"
  pt_pool_slist :: slist_t
  pm_slist :: slist_t
  pm_pid :: "u32 list"
  pm_vpn :: "u32 list"
  swap_area_slist :: slist_t
  tlb :: "tlb_entry list"
  io_task :: io_task_t

text \<open>\<^verbatim>\<open>page_table_pool[pool][j]\<close>, read and written.\<close>

definition pte_get :: "mstate \<Rightarrow> nat \<Rightarrow> nat \<Rightarrow> pte_t option" where
  "pte_get m pool j =
     (if pool < PAGE_TABLE_POOL_SIZE \<and> j < PTE_NUMBER then Some (page_table_pool m pool j) else None)"

definition pte_upd :: "mstate \<Rightarrow> nat \<Rightarrow> nat \<Rightarrow> (pte_t \<Rightarrow> pte_t) \<Rightarrow> mstate option" where
  "pte_upd m pool j f =
     (if pool < PAGE_TABLE_POOL_SIZE \<and> j < PTE_NUMBER
      then Some (m\<lparr>page_table_pool := (page_table_pool m)(pool := (page_table_pool m pool)(j := f (page_table_pool m pool j)))\<rparr>)
      else None)"

definition page_table_init :: "(nat \<Rightarrow> pte_t) \<Rightarrow> (nat \<Rightarrow> pte_t)" where
  "page_table_init pt = (\<lambda>i. if i < PTE_NUMBER then (pt i)\<lparr>pte_valid := 0\<rparr> else pt i)"

section \<open>Allocators\<close>

definition pm_alloc :: "mstate \<Rightarrow> (int \<times> mstate) option" where
  "pm_alloc m = do { (i, l) \<leftarrow> slist_alloc (pm_slist m); Some (i - 1, m\<lparr>pm_slist := l\<rparr>) }"

definition pm_free :: "mstate \<Rightarrow> int \<Rightarrow> (int \<times> mstate) option" where
  "pm_free m index =
     do { (r, l) \<leftarrow> slist_free (pm_slist m) (index + 1) (int PM_SLIST_SIZE); Some (r, m\<lparr>pm_slist := l\<rparr>) }"

definition pt_pool_alloc :: "mstate \<Rightarrow> (int \<times> mstate) option" where
  "pt_pool_alloc m = do { (i, l) \<leftarrow> slist_alloc (pt_pool_slist m); Some (i - 1, m\<lparr>pt_pool_slist := l\<rparr>) }"

definition pt_pool_free :: "mstate \<Rightarrow> int \<Rightarrow> (int \<times> mstate) option" where
  "pt_pool_free m index =
     do { (r, l) \<leftarrow> slist_free (pt_pool_slist m) (index + 1) (int PAGE_TABLE_POOL_SLIST_SIZE);
          Some (r, m\<lparr>pt_pool_slist := l\<rparr>) }"

definition swap_area_alloc :: "mstate \<Rightarrow> (u32 \<times> mstate) option" where
  "swap_area_alloc m =
     do { (i, l) \<leftarrow> slist_alloc (swap_area_slist m);
          Some (SWAP_AREA_BASE + word_of_int (i - 1) * SWAP_AREA_UINT_SIZE, m\<lparr>swap_area_slist := l\<rparr>) }"

definition swap_area_free :: "mstate \<Rightarrow> u32 \<Rightarrow> (int \<times> mstate) option" where
  "swap_area_free m address =
     (let index = sint ((address - SWAP_AREA_BASE) div SWAP_AREA_UINT_SIZE + 1)
      in do { (r, l) \<leftarrow> slist_free (swap_area_slist m) index (int SWAP_AREA_SIZE);
              Some (r, m\<lparr>swap_area_slist := l\<rparr>) })"

definition swap_scheduler :: "mstate \<Rightarrow> int" where
  "swap_scheduler m = sint (2 + get_timer (ks m) mod (word_of_nat PM_SLIST_SIZE - 3))"

text \<open>\<^verbatim>\<open>init_memory\<close> of \<^verbatim>\<open>init/main.c\<close>, with \<^verbatim>\<open>init_TLB\<close>.\<close>

definition init_TLB :: "mstate \<Rightarrow> mstate" where
  "init_TLB m = m\<lparr>tlb := replicate TLB_ENTRY_NUMBER \<lparr>te_hi = 0x80000000, te_lo0 = 0, te_lo1 = 0\<rparr>,
     ks := (ks m)\<lparr>entry_hi := 0x80000000\<rparr>\<rparr>"

definition init_memory :: "mstate \<Rightarrow> mstate option" where
  "init_memory m =
     do { let m1 = init_TLB m;
          l1 \<leftarrow> slist_init (pm_slist m1) PM_SLIST_SIZE;
          l2 \<leftarrow> slist_init (pt_pool_slist m1) PAGE_TABLE_POOL_SLIST_SIZE;
          l3 \<leftarrow> slist_init (swap_area_slist m1) SWAP_AREA_SIZE;
          Some (m1\<lparr>pm_slist := l1, pt_pool_slist := l2, swap_area_slist := l3\<rparr>) }"

section \<open>The TLB\<close>

text \<open>\<^verbatim>\<open>tlbp\<close>: an entry matches on the virtual page pair and the address space.\<close>

definition hi_match :: "u32 \<Rightarrow> u32 \<Rightarrow> bool" where
  "hi_match a b \<longleftrightarrow> a AND 0xffffe0ff = b AND 0xffffe0ff"

fun tlb_probe :: "tlb_entry list \<Rightarrow> u32 \<Rightarrow> nat option" where
  "tlb_probe [] eh = None"
| "tlb_probe (e # es) eh = (if hi_match (te_hi e) eh then Some 0 else map_option Suc (tlb_probe es eh))"

definition set_TLB_invalid :: "mstate \<Rightarrow> u32 \<Rightarrow> mstate" where
  "set_TLB_invalid m eh =
     (let m1 = m\<lparr>ks := (ks m)\<lparr>entry_hi := eh\<rparr>\<rparr> in
      case tlb_probe (tlb m1) eh of
        None \<Rightarrow> m1
      | Some i \<Rightarrow> m1\<lparr>tlb := (tlb m1)[i := \<lparr>te_hi = eh, te_lo0 = 0, te_lo1 = 0\<rparr>]\<rparr>)"

text \<open>
  The end of \<^verbatim>\<open>TLB_exception_helper\<close>: \<^verbatim>\<open>tlbwr\<close> writes the entry the hardware's counter points to
  (\<open>rnd\<close>), \<^verbatim>\<open>tlbp; tlbwi\<close> the entry that matches; writing after a failed probe is undefined.
\<close>

definition tlb_write :: "nat \<Rightarrow> tlb_ctx \<Rightarrow> u32 \<Rightarrow> mstate \<Rightarrow> mstate option" where
  "tlb_write rnd c PFN m =
     (let EntryLo0 = push_bit 6 PFN OR 0b010110;
          EntryLo1 = push_bit 6 (PFN + 1) OR 0b010110;
          e = \<lparr>te_hi = c_entry_hi c, te_lo0 = EntryLo0, te_lo1 = EntryLo1\<rparr>;
          m1 = m\<lparr>ks := (ks m)\<lparr>entry_hi := c_entry_hi c\<rparr>\<rparr>
      in if c_refill c then Some (m1\<lparr>tlb := (tlb m1)[rnd := e]\<rparr>)
         else do { i \<leftarrow> tlb_probe (tlb m1) (c_entry_hi c); Some (m1\<lparr>tlb := (tlb m1)[i := e]\<rparr>) })"

section \<open>Swapping\<close>

definition pm_address :: "int \<Rightarrow> u32" where
  "pm_address pm_index = PM_BASE + word_of_int pm_index * PM_SCHE_SIZE"

text \<open>
  \<^verbatim>\<open>io_task\<close> is filled in, \<^verbatim>\<open>do_semaphore_up(&io_tasks)\<close> wakes the input/output process and
  \<^verbatim>\<open>do_semaphore_down(&io_done)\<close> waits for it; the task goes on at \<open>k\<close>.
\<close>

definition io_request :: "io_task_type_t \<Rightarrow> u32 \<Rightarrow> u32 \<Rightarrow> kcont \<Rightarrow> mstate \<Rightarrow> mstate option" where
  "io_request ty buffer base k m =
     do { let m1 = m\<lparr>io_task := \<lparr>io_type = ty, io_buffer = buffer, io_base = base, io_n = uint SWAP_AREA_UINT_SIZE\<rparr>\<rparr>;
          s1 \<leftarrow> do_semaphore_up (ks m1) IO_TASKS;
          s2 \<leftarrow> do_semaphore_down (upd_pcb s1 (current_running s1) (\<lambda>c. c\<lparr>kcont := k\<rparr>)) IO_DONE k;
          Some (m1\<lparr>ks := s2\<rparr>) }"

text \<open>\<^verbatim>\<open>swap_out\<close> up to its wait, and the rest of it.\<close>

definition swap_out :: "u32 option \<Rightarrow> tlb_ctx \<Rightarrow> mstate \<Rightarrow> mstate option" where
  "swap_out a c m =
     do { let pm_index = swap_scheduler m;
          w \<leftarrow> arr_get (pm_pid m) pm_index;
          vpn \<leftarrow> arr_get (pm_vpn m) pm_index;
          let pd = unat (ucast w :: u8);
          let page_dir_num = unat (drop_bit 22 vpn);
          let page_table_num = unat (drop_bit 13 vpn AND 0x1ff);
          _ \<leftarrow> (if pd < MAX_TASK_NUM \<and> page_dir_num < PDE_NUMBER then Some () else None);
          let pool = unat (pool_num (page_dir (pcb (ks m) pd) page_dir_num));
          (_, m1) \<leftarrow> pm_free m pm_index;
          let buffer = pm_address pm_index OR 0xa0000000;
          (base, m2) \<leftarrow> swap_area_alloc m1;
          m3 \<leftarrow> pte_upd m2 pool page_table_num (\<lambda>e. e\<lparr>pte_present := 0, pte_addr := base\<rparr>);
          let m4 = set_TLB_invalid m3 ((vpn AND 0xffffe000) OR word_of_nat pd);
          s \<leftarrow> (if current_running (ks m4) \<noteq> pd
                then do { q \<leftarrow> pqueue (pcb (ks m4) pd); q_remove (ks m4) q pd } else Some (ks m4));
          io_request IO_TASK_WRITE buffer base (K_swap_out a c pd) (m4\<lparr>ks := s\<rparr>) }"

definition swap_out_end :: "nat \<Rightarrow> mstate \<Rightarrow> mstate option" where
  "swap_out_end pd m =
     (if current_running (ks m) \<noteq> pd
      then do { q \<leftarrow> pqueue (pcb (ks m) pd); s \<leftarrow> q_push (ks m) q pd; Some (m\<lparr>ks := s\<rparr>) }
      else Some m)"

text \<open>\<^verbatim>\<open>swap_in\<close>: the request for the page once a frame is there, the end, and the whole.\<close>

definition swap_in_request :: "u32 \<Rightarrow> tlb_ctx \<Rightarrow> int \<Rightarrow> mstate \<Rightarrow> mstate option" where
  "swap_in_request address c pm_index m =
     (let buffer = pm_address pm_index OR 0xa0000000
      in io_request IO_TASK_READ buffer address (K_swap_in address pm_index c) m)"

definition swap_in_end :: "u32 \<Rightarrow> int \<Rightarrow> tlb_ctx \<Rightarrow> mstate \<Rightarrow> mstate option" where
  "swap_in_end address pm_index c m =
     do { (_, m1) \<leftarrow> swap_area_free m address;
          m2 \<leftarrow> pte_upd m1 (c_pool_num c) (c_ptn c)
                 (\<lambda>e. e\<lparr>pte_addr := drop_bit 12 (pm_address pm_index), pte_present := 1\<rparr>);
          ps \<leftarrow> arr_set (pm_pid m2) pm_index (word_of_int (pid (pcb (ks m2) (current_running (ks m2)))));
          vs \<leftarrow> arr_set (pm_vpn m2) pm_index (c_badvaddr c AND 0xfffff000);
          Some (m2\<lparr>pm_pid := ps, pm_vpn := vs\<rparr>) }"

definition swap_in :: "tlb_ctx \<Rightarrow> mstate \<Rightarrow> mstate option" where
  "swap_in c m =
     do { e \<leftarrow> pte_get m (c_pool_num c) (c_ptn c);
          let address = pte_addr e;
          (pm_index, m1) \<leftarrow> pm_alloc m;
          if pm_index = -1 then swap_out (Some address) c m1
          else swap_in_request address c pm_index m1 }"

section \<open>The TLB exception\<close>

text \<open>A frame is entered in the page table.\<close>

definition tlb_map :: "tlb_ctx \<Rightarrow> int \<Rightarrow> mstate \<Rightarrow> mstate option" where
  "tlb_map c pm_index m =
     do { let PFN = drop_bit 12 (pm_address pm_index);
          ps \<leftarrow> arr_set (pm_pid m) pm_index (word_of_int (pid (pcb (ks m) (current_running (ks m)))));
          vs \<leftarrow> arr_set (pm_vpn m) pm_index (c_badvaddr c AND 0xfffff000);
          pte_upd (m\<lparr>pm_pid := ps, pm_vpn := vs\<rparr>) (c_pool_num c) (c_ptn c)
            (\<lambda>e. e\<lparr>pte_addr := PFN, pte_valid := 1, pte_present := 1\<rparr>) }"

definition tlb_finish :: "nat \<Rightarrow> tlb_ctx \<Rightarrow> mstate \<Rightarrow> mstate option" where
  "tlb_finish rnd c m = do { e \<leftarrow> pte_get m (c_pool_num c) (c_ptn c); tlb_write rnd c (pte_addr e) m }"

text \<open>From the test of the page table entry on.\<close>

definition tlb_page :: "nat \<Rightarrow> tlb_ctx \<Rightarrow> mstate \<Rightarrow> mstate option" where
  "tlb_page rnd c m =
     do { e \<leftarrow> pte_get m (c_pool_num c) (c_ptn c);
          if pte_valid e = 0 then
            do { (pm_index, m1) \<leftarrow> pm_alloc m;
                 if pm_index = -1 then swap_out None c m1
                 else do { m2 \<leftarrow> tlb_map c pm_index m1; tlb_finish rnd c m2 } }
          else if pte_present e = 0 then swap_in c m
          else tlb_finish rnd c m }"

definition TLB_exception_helper :: "nat \<Rightarrow> bool \<Rightarrow> mstate \<Rightarrow> mstate option" where
  "TLB_exception_helper rnd is_TLB_refill m =
     do { let cur = current_running (ks m);
          let badvaddr = cp0_badvaddr (user_regs_context (pcb (ks m) cur));
          let EntryHi = entry_hi (ks m);
          let page_dir_num = unat (drop_bit 22 badvaddr);
          let page_table_num = unat (drop_bit 13 badvaddr AND 0x1ff);
          let c = \<lparr>c_refill = is_TLB_refill, c_entry_hi = EntryHi, c_badvaddr = badvaddr,
                   c_pool_num = 0, c_ptn = page_table_num\<rparr>;
          _ \<leftarrow> (if page_dir_num < PDE_NUMBER then Some () else None);
          let pde = page_dir (pcb (ks m) cur) page_dir_num;
          if pde_valid pde = 0 then
            do { (n, m1) \<leftarrow> pt_pool_alloc m;
                 if n = -1 then Some (m1\<lparr>ks := panic ''Empty page table pool.'' (ks m1)\<rparr>)
                 else do {
                   let s = upd_pcb (ks m1) cur (\<lambda>x. x\<lparr>page_dir := (page_dir x)(page_dir_num :=
                             \<lparr>pool_num = word_of_int n, pde_valid = 1\<rparr>)\<rparr>);
                   let m2 = m1\<lparr>ks := s, page_table_pool := (page_table_pool m1)(nat n :=
                             page_table_init (page_table_pool m1 (nat n)))\<rparr>;
                   tlb_page rnd (c\<lparr>c_pool_num := nat n\<rparr>) m2 } }
          else tlb_page rnd (c\<lparr>c_pool_num := unat (pool_num pde)\<rparr>) m }"

text \<open>A task that was waiting for the swap goes on in the handler.\<close>

definition mem_resume :: "nat \<Rightarrow> mstate \<Rightarrow> mstate option" where
  "mem_resume rnd m =
     (let cur = current_running (ks m);
          m1 = m\<lparr>ks := upd_pcb (ks m) cur (\<lambda>c. c\<lparr>kcont := K_exit\<rparr>)\<rparr> in
      case kcont (pcb (ks m) cur) of
        K_swap_out a c v \<Rightarrow>
          do { m2 \<leftarrow> swap_out_end v m1;
               (pm_index, m3) \<leftarrow> pm_alloc m2;
               case a of
                 None \<Rightarrow> do { m4 \<leftarrow> tlb_map c pm_index m3; tlb_finish rnd c m4 }
               | Some address \<Rightarrow> swap_in_request address c pm_index m3 }
      | K_swap_in address pm_index c \<Rightarrow>
          do { m2 \<leftarrow> swap_in_end address pm_index c m1; tlb_finish rnd c m2 }
      | _ \<Rightarrow> do { s \<leftarrow> resume (ks m); Some (m\<lparr>ks := s\<rparr>) })"

end
