(* ===== verification/Memory_Inv.thy ===== *)
theory Memory_Inv
  imports Memory
begin

text \<open>
  The pools of the memory manager meet the allocator contract; the page tables of all tasks map
  disjoint sets of frames and the TLB handler keeps it so (\<open>mm_inv\<close>).
\<close>

section \<open>Pools\<close>

definition pm_rep :: "mstate \<Rightarrow> nat list \<Rightarrow> bool" where
  "pm_rep m fs \<longleftrightarrow> pool_rep PM_SLIST_SIZE (pm_slist m) fs"

definition pt_rep :: "mstate \<Rightarrow> nat list \<Rightarrow> bool" where
  "pt_rep m fs \<longleftrightarrow> pool_rep PAGE_TABLE_POOL_SLIST_SIZE (pt_pool_slist m) fs"

definition swap_rep :: "mstate \<Rightarrow> nat list \<Rightarrow> bool" where
  "swap_rep m fs \<longleftrightarrow> pool_rep SWAP_AREA_SIZE (swap_area_slist m) fs"

definition swap_address :: "int \<Rightarrow> u32" where
  "swap_address i = SWAP_AREA_BASE + word_of_int (i - 1) * SWAP_AREA_UINT_SIZE"

interpretation pm: index_pool pm_rep PM_SLIST_SIZE "\<lambda>i. int i - 1" "-1" pm_alloc pm_free
proof -
  have eq: "pm_rep = (\<lambda>m. pool_rep PM_SLIST_SIZE (pm_slist m))"
    "pm_alloc = (\<lambda>m. do { (h, l) \<leftarrow> slist_alloc (pm_slist m); Some (h - 1, pm_slist_update (\<lambda>_. l) m) })"
    "pm_free = (\<lambda>m h. do { (r, l) \<leftarrow> slist_free (pm_slist m) (h + 1) (int PM_SLIST_SIZE);
                           Some (r, pm_slist_update (\<lambda>_. l) m) })"
    by (auto simp: fun_eq_iff pm_rep_def pm_alloc_def pm_free_def)
  show "index_pool pm_rep PM_SLIST_SIZE (\<lambda>i. int i - 1) (- 1) pm_alloc pm_free"
    unfolding eq using sl.embed[of pm_slist "\<lambda>m l. pm_slist_update (\<lambda>_. l) m" PM_SLIST_SIZE "\<lambda>i. i - 1" "\<lambda>i. i + 1"] by simp
qed

interpretation pt: index_pool pt_rep PAGE_TABLE_POOL_SLIST_SIZE "\<lambda>i. int i - 1" "-1" pt_pool_alloc pt_pool_free
proof -
  have eq: "pt_rep = (\<lambda>m. pool_rep PAGE_TABLE_POOL_SLIST_SIZE (pt_pool_slist m))"
    "pt_pool_alloc = (\<lambda>m. do { (h, l) \<leftarrow> slist_alloc (pt_pool_slist m); Some (h - 1, pt_pool_slist_update (\<lambda>_. l) m) })"
    "pt_pool_free = (\<lambda>m h. do { (r, l) \<leftarrow> slist_free (pt_pool_slist m) (h + 1) (int PAGE_TABLE_POOL_SLIST_SIZE);
                                Some (r, pt_pool_slist_update (\<lambda>_. l) m) })"
    by (auto simp: fun_eq_iff pt_rep_def pt_pool_alloc_def pt_pool_free_def)
  show "index_pool pt_rep PAGE_TABLE_POOL_SLIST_SIZE (\<lambda>i. int i - 1) (- 1) pt_pool_alloc pt_pool_free"
    unfolding eq using sl.embed[of pt_pool_slist "\<lambda>m l. pt_pool_slist_update (\<lambda>_. l) m" PAGE_TABLE_POOL_SLIST_SIZE
        "\<lambda>i. i - 1" "\<lambda>i. i + 1"] by simp
qed

lemma uint_swap_address:
  assumes "0 \<le> i" "i < int SWAP_AREA_SIZE"
  shows "uint (swap_address i) = 0x700200 + (i - 1) * 0x2000"
proof -
  have "swap_address i = word_of_int (0x700200 + (i - 1) * 0x2000)" by (simp add: swap_address_def)
  moreover have "uint (word_of_int (0x700200 + (i - 1) * 0x2000) :: u32) = 0x700200 + (i - 1) * 0x2000"
    using assms by (intro uint_word_of_int_small) simp_all
  ultimately show ?thesis by simp
qed

lemma swap_index:
  assumes "0 < i" "i < SWAP_AREA_SIZE"
  shows "sint ((swap_address (int i) - SWAP_AREA_BASE) div SWAP_AREA_UINT_SIZE + 1) = int i"
proof -
  have "swap_address (int i) - SWAP_AREA_BASE = word_of_nat ((i - 1) * 0x2000)"
    using assms by (simp add: swap_address_def of_nat_diff)
  moreover have "unat (word_of_nat ((i - 1) * 0x2000) :: u32) = (i - 1) * 0x2000"
    using assms by (intro unat_word_of_nat_small) simp
  ultimately have "unat ((swap_address (int i) - SWAP_AREA_BASE) div SWAP_AREA_UINT_SIZE) = i - 1"
    by (simp add: unat_div)
  then have "(swap_address (int i) - SWAP_AREA_BASE) div SWAP_AREA_UINT_SIZE = word_of_nat (i - 1)"
    by (metis word_unat_eq_iff unat_word_of_nat_small unsigned_less)
  then have "(swap_address (int i) - SWAP_AREA_BASE) div SWAP_AREA_UINT_SIZE + 1 = word_of_nat (i - 1) + 1"
    by (rule arg_cong)
  also have "\<dots> = word_of_nat i" using assms(1) by (cases i) simp_all
  finally have "(swap_address (int i) - SWAP_AREA_BASE) div SWAP_AREA_UINT_SIZE + 1 = word_of_nat i" .
  then show ?thesis using assms by (simp add: sint_uint unsigned_of_nat take_bit_nat_eq_self signed_take_bit_int_eq_self)
qed

interpretation swap: index_pool swap_rep SWAP_AREA_SIZE "\<lambda>i. swap_address (int i)" "swap_address 0"
  swap_area_alloc swap_area_free
proof -
  let ?g' = "\<lambda>a. sint ((a - SWAP_AREA_BASE) div SWAP_AREA_UINT_SIZE + 1)"
  have eq1: "swap_rep = (\<lambda>m. pool_rep SWAP_AREA_SIZE (swap_area_slist m))"
    by (intro ext) (unfold swap_rep_def, rule refl)
  have eq2: "swap_area_alloc = (\<lambda>m. do { (h, l) \<leftarrow> slist_alloc (swap_area_slist m);
      Some (swap_address h, swap_area_slist_update (\<lambda>_. l) m) })"
    by (intro ext) (unfold swap_area_alloc_def swap_address_def, rule refl)
  have eq3: "swap_area_free = (\<lambda>m h. do { (r, l) \<leftarrow> slist_free (swap_area_slist m) (?g' h) (int SWAP_AREA_SIZE);
      Some (r, swap_area_slist_update (\<lambda>_. l) m) })"
    by (intro ext) (unfold swap_area_free_def Let_def, rule refl)
  have inj: "i = j" if "0 < i" "i < SWAP_AREA_SIZE" "0 < j" "j < SWAP_AREA_SIZE"
    "swap_address (int i) = swap_address (int j)" for i j
  proof -
    have "uint (swap_address (int i)) = 0x700200 + (int i - 1) * 0x2000"
      by (rule uint_swap_address) (use that(2) in simp_all)
    moreover have "uint (swap_address (int j)) = 0x700200 + (int j - 1) * 0x2000"
      by (rule uint_swap_address) (use that(4) in simp_all)
    ultimately have "0x700200 + (int i - 1) * 0x2000 = 0x700200 + (int j - 1) * 0x2000"
      using that(5) by argo
    then show ?thesis by simp
  qed
  have nf: "swap_address (int i) \<noteq> swap_address 0" if "0 < i" "i < SWAP_AREA_SIZE" for i
  proof -
    have "uint (swap_address (int i)) = 0x700200 + (int i - 1) * 0x2000"
      by (rule uint_swap_address) (use that(2) in simp_all)
    moreover have "uint (swap_address 0) = 0x700200 + (0 - 1) * 0x2000"
      by (rule uint_swap_address) simp_all
    moreover have "0x700200 + (int i - 1) * 0x2000 \<noteq> (0x700200 + (0 - 1) * 0x2000 :: int)" using that(1) by simp
    ultimately show ?thesis by metis
  qed
  show "index_pool swap_rep SWAP_AREA_SIZE (\<lambda>i. swap_address (int i)) (swap_address 0)
      swap_area_alloc swap_area_free"
    unfolding eq1 eq2 eq3
  proof (rule sl.embed[of swap_area_slist "\<lambda>m l. swap_area_slist_update (\<lambda>_. l) m" SWAP_AREA_SIZE swap_address ?g'])
    show "int i = int j" if "0 < i" "i < SWAP_AREA_SIZE" "0 < j" "j < SWAP_AREA_SIZE"
      "swap_address (int i) = swap_address (int j)" for i j
      using inj[OF that] by (rule arg_cong)
  qed (simp_all only: swap_index nf mstate.simps not_False_eq_True, simp_all)
qed

section \<open>Frames and address translation\<close>

text \<open>The frame pair \<open>k\<close> of the 2048 pairs of user memory, as the frame number of its first page.\<close>

definition frame_pfn :: "nat \<Rightarrow> u32" where
  "frame_pfn k = drop_bit 12 (pm_address (int k))"

lemma unat_pm_address: "k < 2048 \<Longrightarrow> unat (pm_address (int k)) = 0x1000000 + k * 0x2000"
proof -
  assume k: "k < 2048"
  have "pm_address (int k) = word_of_nat (0x1000000 + k * 0x2000)" by (simp add: pm_address_def)
  moreover have "unat (word_of_nat (0x1000000 + k * 0x2000) :: u32) = 0x1000000 + k * 0x2000"
    using k by (intro unat_word_of_nat_small) simp
  ultimately show ?thesis by simp
qed

lemma unat_frame_pfn: "k < 2048 \<Longrightarrow> unat (frame_pfn k) = 4096 + 2 * k"
  using unat_pm_address[of k] by (simp add: frame_pfn_def drop_bit_eq_div unat_div)

lemma frame_pfn_inj:
  assumes "j < 2048" "k < 2048" "frame_pfn j = frame_pfn k"
  shows "j = k"
proof -
  have "4096 + 2 * j = 4096 + 2 * k"
    using unat_frame_pfn[OF assms(1)] unat_frame_pfn[OF assms(2)] assms(3) by metis
  then show ?thesis by simp
qed

lemma frame_pfn_even:
  assumes "k < 2048"
  shows "even (frame_pfn k)"
proof -
  have "bit (unat (frame_pfn k)) 0 = bit (frame_pfn k) 0" by (simp only: bit_unsigned_iff) simp
  then show ?thesis by (simp only: bit_0 unat_frame_pfn[OF assms]) simp
qed

text \<open>The page walk: the physical address a task's page tables give to a virtual address.\<close>

definition pdn :: "u32 \<Rightarrow> nat" where
  "pdn va = unat (drop_bit 22 va)"

definition ptn :: "u32 \<Rightarrow> nat" where
  "ptn va = unat (drop_bit 13 va AND 0x1ff)"

definition walk :: "mstate \<Rightarrow> nat \<Rightarrow> u32 \<Rightarrow> u32 option" where
  "walk m p va =
     (if p < MAX_TASK_NUM \<and> pdn va < PDE_NUMBER \<and> pde_valid (page_dir (pcb (ks m) p) (pdn va)) \<noteq> 0 then
        let e = page_table_pool m (unat (pool_num (page_dir (pcb (ks m) p) (pdn va)))) (ptn va) in
        if pte_valid e \<noteq> 0 \<and> pte_present e \<noteq> 0 then Some (push_bit 12 (pte_addr e) OR (va AND 0x1fff)) else None
      else None)"

text \<open>What the processor does with an address of space \<open>asid\<close>, as far as the TLB decides it.\<close>

definition tlb_translate :: "tlb_entry list \<Rightarrow> u32 \<Rightarrow> u32 \<Rightarrow> u32 option" where
  "tlb_translate es asid va =
     do { i \<leftarrow> tlb_probe es ((va AND 0xffffe000) OR asid);
          let lo = (if bit va 12 then te_lo1 (es ! i) else te_lo0 (es ! i));
          if bit lo 1 then Some (push_bit 12 (drop_bit 6 lo) OR (va AND 0xfff)) else None }"

lemma ptn_less: "ptn va < PTE_NUMBER"
proof -
  have "drop_bit 13 va AND 0x1ff = take_bit 9 (drop_bit 13 va)"
    by (simp add: take_bit_eq_mask mask_eq_exp_minus_1)
  then show ?thesis
    using take_bit_nat_less_exp[of 9 "unat (drop_bit 13 va)"] by (simp add: ptn_def unsigned_take_bit_eq)
qed

section \<open>The invariant of the page tables\<close>

text \<open>A page table entry that is in use: its table is allocated, and it maps a page in memory.\<close>

definition in_use :: "mstate \<Rightarrow> nat list \<Rightarrow> nat \<Rightarrow> nat \<Rightarrow> bool" where
  "in_use m fpt pl j \<longleftrightarrow> pl < PAGE_TABLE_POOL_SIZE \<and> Suc pl \<notin> set fpt \<and> j < PTE_NUMBER \<and>
     pte_valid (page_table_pool m pl j) \<noteq> 0 \<and> pte_present (page_table_pool m pl j) \<noteq> 0"

text \<open>Entry \<open>i\<close> of the directory of task \<open>p\<close> points to the table \<open>pl\<close>.\<close>

definition dir_entry :: "mstate \<Rightarrow> nat \<Rightarrow> nat \<Rightarrow> nat \<Rightarrow> bool" where
  "dir_entry m p i pl \<longleftrightarrow> p < MAX_TASK_NUM \<and> i < PDE_NUMBER \<and>
     pde_valid (page_dir (pcb (ks m) p) i) \<noteq> 0 \<and> pl = unat (pool_num (page_dir (pcb (ks m) p) i))"

definition mm_inv :: "mstate \<Rightarrow> nat list \<Rightarrow> nat list \<Rightarrow> bool" where
  "mm_inv m fpt fpm \<longleftrightarrow>
     pt_rep m fpt \<and> pm_rep m fpm \<and> length (pm_pid m) = PM_SLIST_SIZE \<and> length (pm_vpn m) = PM_SLIST_SIZE \<and>
     (\<forall>p i pl. dir_entry m p i pl \<longrightarrow> pl < PAGE_TABLE_POOL_SIZE \<and> Suc pl \<notin> set fpt) \<and>
     (\<forall>p i q j pl. dir_entry m p i pl \<longrightarrow> dir_entry m q j pl \<longrightarrow> p = q \<and> i = j) \<and>
     (\<forall>pl j. in_use m fpt pl j \<longrightarrow>
        (\<exists>k<2048. Suc k \<notin> set fpm \<and> pte_addr (page_table_pool m pl j) = frame_pfn k)) \<and>
     (\<forall>pl j pl' j'. in_use m fpt pl j \<longrightarrow> in_use m fpt pl' j' \<longrightarrow>
        pte_addr (page_table_pool m pl j) = pte_addr (page_table_pool m pl' j') \<longrightarrow> pl = pl' \<and> j = j') \<and>
     (\<forall>p i pl j k. dir_entry m p i pl \<longrightarrow> in_use m fpt pl j \<longrightarrow> k < 2048 \<longrightarrow>
        pte_addr (page_table_pool m pl j) = frame_pfn k \<longrightarrow>
        pm_pid m ! k = word_of_nat p \<and> pdn (pm_vpn m ! k) = i \<and> ptn (pm_vpn m ! k) = j)"

lemma mm_invD:
  assumes "mm_inv m fpt fpm"
  shows "pt_rep m fpt" "pm_rep m fpm" "length (pm_pid m) = PM_SLIST_SIZE" "length (pm_vpn m) = PM_SLIST_SIZE"
    "dir_entry m p i pl \<Longrightarrow> pl < PAGE_TABLE_POOL_SIZE \<and> Suc pl \<notin> set fpt"
    "dir_entry m p i pl \<Longrightarrow> dir_entry m q j pl \<Longrightarrow> p = q \<and> i = j"
    "in_use m fpt pl j \<Longrightarrow> \<exists>k<2048. Suc k \<notin> set fpm \<and> pte_addr (page_table_pool m pl j) = frame_pfn k"
    "in_use m fpt pl j \<Longrightarrow> in_use m fpt pl' j' \<Longrightarrow>
       pte_addr (page_table_pool m pl j) = pte_addr (page_table_pool m pl' j') \<Longrightarrow> pl = pl' \<and> j = j'"
    "dir_entry m p i pl \<Longrightarrow> in_use m fpt pl j \<Longrightarrow> k < 2048 \<Longrightarrow> pte_addr (page_table_pool m pl j) = frame_pfn k \<Longrightarrow>
       pm_pid m ! k = word_of_nat p \<and> pdn (pm_vpn m ! k) = i \<and> ptn (pm_vpn m ! k) = j"
  using assms unfolding mm_inv_def by blast+

text \<open>Only the page tables, the directories, the two pools and the reverse maps matter.\<close>

lemma mm_inv_cong:
  assumes "mm_inv m fpt fpm" and "page_table_pool m' = page_table_pool m"
    and "\<And>p. page_dir (pcb (ks m') p) = page_dir (pcb (ks m) p)"
    and "pt_pool_slist m' = pt_pool_slist m" "pm_slist m' = pm_slist m" "pm_pid m' = pm_pid m" "pm_vpn m' = pm_vpn m"
  shows "mm_inv m' fpt fpm"
proof -
  have "dir_entry m' = dir_entry m" "in_use m' = in_use m" "pt_rep m' = pt_rep m" "pm_rep m' = pm_rep m"
    using assms(2-) by (auto simp: fun_eq_iff dir_entry_def in_use_def pt_rep_def pm_rep_def)
  then show ?thesis using assms by (simp add: mm_inv_def)
qed

text \<open>A fresh page table for entry \<open>i\<close> of the directory of task \<open>p\<close>.\<close>

definition add_table :: "nat \<Rightarrow> nat \<Rightarrow> nat \<Rightarrow> mstate \<Rightarrow> mstate" where
  "add_table p i n m = m\<lparr>ks := upd_pcb (ks m) p (\<lambda>x. x\<lparr>page_dir := (page_dir x)(i :=
       \<lparr>pool_num = word_of_int (int n), pde_valid = 1\<rparr>)\<rparr>),
     page_table_pool := (page_table_pool m)(n := page_table_init (page_table_pool m n))\<rparr>"

lemma mm_inv_add_table:
  assumes inv: "mm_inv m (Suc n # fpt) fpm" and p: "p < MAX_TASK_NUM" "i < PDE_NUMBER"
    and free: "pde_valid (page_dir (pcb (ks m) p) i) = 0" and m1: "pt_rep m1 fpt"
    and eqs: "ks m1 = ks m" "page_table_pool m1 = page_table_pool m" "pm_slist m1 = pm_slist m"
      "pm_pid m1 = pm_pid m" "pm_vpn m1 = pm_vpn m"
  shows "mm_inv (add_table p i n m1) fpt fpm" and "dir_entry (add_table p i n m1) p i n"
proof -
  let ?m = "add_table p i n m1"
  have n: "n < PAGE_TABLE_POOL_SIZE" "Suc n \<notin> set fpt"
    using pt.rep_range[OF mm_invD(1)[OF inv], of "Suc n"] pt.rep_distinct[OF mm_invD(1)[OF inv]] by auto
  then have un: "unat (word_of_int (int n) :: u32) = n"
    by (simp add: unat_word_of_nat_small del: of_nat_numeral)
  have de: "dir_entry ?m q j pl \<longleftrightarrow> (if q = p \<and> j = i then pl = n else dir_entry m q j pl)" for q j pl
    using p un eqs(1) by (auto simp: dir_entry_def add_table_def upd_pcb_def)
  have iu: "in_use ?m fpt pl j \<longleftrightarrow> pl \<noteq> n \<and> in_use m (Suc n # fpt) pl j" for pl j
    using n eqs(2) by (auto simp: in_use_def add_table_def page_table_init_def)
  have nd: "\<not> dir_entry m q j n" for q j using mm_invD(5)[OF inv, of q j n] by auto
  have pt: "pte_addr (page_table_pool ?m pl j) = pte_addr (page_table_pool m pl j)" if "pl \<noteq> n" for pl j
    using that eqs(2) by (simp add: add_table_def)
  have same: "pt_rep ?m fpt" "pm_rep ?m fpm" "pm_pid ?m = pm_pid m" "pm_vpn ?m = pm_vpn m"
    using m1 mm_invD(2)[OF inv] eqs by (simp_all add: add_table_def pt_rep_def pm_rep_def)
  show "dir_entry ?m p i n" using de by simp
  show "mm_inv ?m fpt fpm"
    unfolding mm_inv_def
  proof (intro conjI allI impI)
    fix q j pl
    assume "dir_entry ?m q j pl"
    then show "pl < PAGE_TABLE_POOL_SIZE" "Suc pl \<notin> set fpt"
      using de n mm_invD(5)[OF inv, of q j pl] by (auto split: if_splits)
  next
    fix q j q' j' pl
    assume "dir_entry ?m q j pl" "dir_entry ?m q' j' pl"
    then show "q = q'" "j = j'"
      using de nd mm_invD(6)[OF inv, of q j pl q' j'] by (auto split: if_splits)
  next
    fix pl j
    assume "in_use ?m fpt pl j"
    then show "\<exists>k<2048. Suc k \<notin> set fpm \<and> pte_addr (page_table_pool ?m pl j) = frame_pfn k"
      using iu pt mm_invD(7)[OF inv, of pl j] by auto
  next
    fix pl j pl' j'
    assume "in_use ?m fpt pl j" "in_use ?m fpt pl' j'"
      "pte_addr (page_table_pool ?m pl j) = pte_addr (page_table_pool ?m pl' j')"
    then show "pl = pl'" "j = j'" using iu pt mm_invD(8)[OF inv, of pl j pl' j'] by auto
  next
    fix q j pl j' k
    assume "dir_entry ?m q j pl" "in_use ?m fpt pl j'" "k < 2048" "pte_addr (page_table_pool ?m pl j') = frame_pfn k"
    then show "pm_pid ?m ! k = word_of_nat q" "pdn (pm_vpn ?m ! k) = j" "ptn (pm_vpn ?m ! k) = j'"
      using iu[of pl j'] de[of q j pl] pt[of pl j'] same mm_invD(9)[OF inv, of q j pl j' k] by (auto split: if_splits)
  qed (use same mm_invD(3,4)[OF inv] in simp_all)
qed

text \<open>A fresh frame for entry \<open>j\<close> of table \<open>pl\<close>, which belongs to the running task.\<close>

definition add_frame :: "tlb_ctx \<Rightarrow> nat \<Rightarrow> mstate \<Rightarrow> mstate" where
  "add_frame c k m = m\<lparr>pm_pid := (pm_pid m)[k := word_of_nat (current_running (ks m))],
     pm_vpn := (pm_vpn m)[k := c_badvaddr c AND 0xfffff000],
     page_table_pool := (page_table_pool m)(c_pool_num c := (page_table_pool m (c_pool_num c))(c_ptn c :=
       \<lparr>pte_addr = frame_pfn k, pte_valid = 1, pte_present = 1\<rparr>))\<rparr>"

lemma tlb_map_eq:
  assumes "k < 2048" "length (pm_pid m) = PM_SLIST_SIZE" "length (pm_vpn m) = PM_SLIST_SIZE"
    and "c_pool_num c < PAGE_TABLE_POOL_SIZE" "c_ptn c < PTE_NUMBER"
    and "pid (pcb (ks m) (current_running (ks m))) = int (current_running (ks m))"
  shows "tlb_map c (int k) m = Some (add_frame c k m)"
proof -
  have "(\<lambda>e. e\<lparr>pte_addr := a, pte_valid := 1, pte_present := 1\<rparr>) = (\<lambda>_. \<lparr>pte_addr = a, pte_valid = 1, pte_present = 1\<rparr>)"
    for a by (auto simp: fun_eq_iff intro: pte_t.equality)
  then show ?thesis using assms by (simp add: tlb_map_def add_frame_def pte_upd_def frame_pfn_def)
qed

lemma pdn_page: "pdn (va AND 0xfffff000) = pdn va"
proof -
  have "drop_bit 22 (va AND 0xfffff000) = drop_bit 22 va AND drop_bit 22 (0xfffff000 :: u32)" by simp
  also have "drop_bit 22 (0xfffff000 :: u32) = mask 10" by (simp add: mask_eq_exp_minus_1)
  also have "drop_bit 22 va AND mask 10 = take_bit 10 (drop_bit 22 va)" by (simp only: take_bit_eq_mask)
  also have "\<dots> = drop_bit 22 va"
    by (rule bit_word_eqI) (auto simp: bit_take_bit_iff bit_drop_bit_eq dest: bit_imp_le_length)
  finally show ?thesis by (simp only: pdn_def)
qed

lemma ptn_page: "ptn (va AND 0xfffff000) = ptn va"
proof -
  have "drop_bit 13 (va AND 0xfffff000) AND 0x1ff = drop_bit 13 va AND (drop_bit 13 (0xfffff000 :: u32) AND 0x1ff)"
    by (simp add: and.assoc)
  also have "drop_bit 13 (0xfffff000 :: u32) AND 0x1ff = 0x1ff" by simp
  finally show ?thesis by (simp only: ptn_def)
qed

lemma mm_inv_add_frame:
  assumes inv: "mm_inv m fpt (Suc k # fpm)" and m1: "pm_rep m1 fpm"
    and eqs: "ks m1 = ks m" "page_table_pool m1 = page_table_pool m" "pt_pool_slist m1 = pt_pool_slist m"
      "pm_pid m1 = pm_pid m" "pm_vpn m1 = pm_vpn m"
    and de: "dir_entry m (current_running (ks m)) (pdn (c_badvaddr c)) (c_pool_num c)"
    and j: "c_ptn c = ptn (c_badvaddr c)"
  shows "mm_inv (add_frame c k m1) fpt fpm"
proof -
  let ?m = "add_frame c k m1" and ?pl = "c_pool_num c" and ?j = "c_ptn c"
  have k: "k < 2048" "Suc k \<notin> set fpm"
    using pm.rep_range[OF mm_invD(2)[OF inv], of "Suc k"] pm.rep_distinct[OF mm_invD(2)[OF inv]] by auto
  have pl: "?pl < PAGE_TABLE_POOL_SIZE" "Suc ?pl \<notin> set fpt" using mm_invD(5)[OF inv de] by auto
  have d: "dir_entry ?m = dir_entry m" using eqs(1) by (auto simp: fun_eq_iff dir_entry_def add_frame_def)
  have iu: "in_use ?m fpt a b \<longleftrightarrow> a = ?pl \<and> b = ?j \<or> in_use m fpt a b" for a b
    using pl eqs(2) j ptn_less by (auto simp: in_use_def add_frame_def)
  have at: "pte_addr (page_table_pool ?m a b)
      = (if a = ?pl \<and> b = ?j then frame_pfn k else pte_addr (page_table_pool m a b))" for a b
    using eqs(2) by (simp add: add_frame_def)
  have fresh: "pte_addr (page_table_pool m a b) \<noteq> frame_pfn k" if "in_use m fpt a b" for a b
    using mm_invD(7)[OF inv that] frame_pfn_inj[OF _ k(1)] by auto
  have ln: "length (pm_pid m) = PM_SLIST_SIZE" "length (pm_vpn m) = PM_SLIST_SIZE" using mm_invD(3,4)[OF inv] .
  have bk: "pm_pid ?m ! x = (if x = k then word_of_nat (current_running (ks m)) else pm_pid m ! x)"
    "pm_vpn ?m ! x = (if x = k then c_badvaddr c AND 0xfffff000 else pm_vpn m ! x)" for x
    using eqs ln k(1) by (auto simp: add_frame_def nth_list_update)
  show ?thesis
    unfolding mm_inv_def
  proof (intro conjI allI impI)
    fix a b
    assume u: "in_use ?m fpt a b"
    show "\<exists>x<2048. Suc x \<notin> set fpm \<and> pte_addr (page_table_pool ?m a b) = frame_pfn x"
    proof (cases "a = ?pl \<and> b = ?j")
      case True
      then show ?thesis using k at by auto
    next
      case False
      then show ?thesis using u iu at mm_invD(7)[OF inv, of a b] by auto
    qed
  next
    fix a b a' b'
    assume u: "in_use ?m fpt a b" "in_use ?m fpt a' b'"
      "pte_addr (page_table_pool ?m a b) = pte_addr (page_table_pool ?m a' b')"
    then show "a = a'" "b = b'"
      using iu at fresh[of a b] fresh[of a' b'] mm_invD(8)[OF inv, of a b a' b'] by (auto split: if_splits)
  next
    fix q i a b x
    assume u: "dir_entry ?m q i a" "in_use ?m fpt a b" "x < 2048" "pte_addr (page_table_pool ?m a b) = frame_pfn x"
    have "pm_pid ?m ! x = word_of_nat q \<and> pdn (pm_vpn ?m ! x) = i \<and> ptn (pm_vpn ?m ! x) = b"
    proof (cases "a = ?pl \<and> b = ?j")
      case True
      then have "x = k" using u(3,4) at frame_pfn_inj[OF _ k(1)] by auto
      moreover have "q = current_running (ks m)" "i = pdn (c_badvaddr c)"
        using mm_invD(6)[OF inv, of q i a] u(1) d de True by auto
      ultimately show ?thesis using bk True j by (simp add: pdn_page ptn_page)
    next
      case False
      then have "in_use m fpt a b" "pte_addr (page_table_pool m a b) = frame_pfn x" using u iu at by auto
      then show ?thesis using fresh u bk d mm_invD(9)[OF inv, of q i a b x] by auto
    qed
    then show "pm_pid ?m ! x = word_of_nat q" "pdn (pm_vpn ?m ! x) = i" "ptn (pm_vpn ?m ! x) = b" by auto
  next
    show "pt_rep ?m fpt" "pm_rep ?m fpm" "length (pm_pid ?m) = PM_SLIST_SIZE" "length (pm_vpn ?m) = PM_SLIST_SIZE"
      using mm_invD(1)[OF inv] m1 eqs ln by (simp_all add: add_frame_def pt_rep_def pm_rep_def)
  qed (use d mm_invD(5,6)[OF inv] in auto)
qed

section \<open>TLB entries\<close>

lemma tlb_probe_less: "tlb_probe es h = Some i \<Longrightarrow> i < length es"
  by (induction es arbitrary: i) (auto split: if_splits)

lemma tlb_probe_refill:
  "tlb_probe es h = None \<Longrightarrow> r < length es \<Longrightarrow> hi_match (te_hi e) h \<Longrightarrow> tlb_probe (es[r := e]) h = Some r"
  by (induction es arbitrary: r) (auto split: if_splits nat.splits)

lemma tlb_probe_rewrite:
  "tlb_probe es h = Some i \<Longrightarrow> hi_match (te_hi e) h \<Longrightarrow> tlb_probe (es[i := e]) h = Some i"
  by (induction es arbitrary: i) (auto split: if_splits)

lemma entry_lo:
  fixes X :: u32
  assumes "unat X < 2 ^ 26"
  shows "drop_bit 6 (push_bit 6 X OR 0b010110) = X" and "bit (push_bit 6 X OR 0b010110) 1"
proof -
  have X: "take_bit 26 X = X"
    using assms by (simp add: word_unat_eq_iff unsigned_take_bit_eq take_bit_nat_eq_self)
  have "drop_bit 6 (push_bit 6 X) = X"
  proof (rule bit_word_eqI)
    fix n
    have "bit X n \<Longrightarrow> n < 26" by (subst (asm) X[symmetric]) (simp add: bit_take_bit_iff)
    then show "bit (drop_bit 6 (push_bit 6 X)) n = bit X n"
      by (auto simp: bit_drop_bit_eq bit_push_bit_iff)
  qed
  then show "drop_bit 6 (push_bit 6 X OR 0b010110) = X" by simp
  show "bit (push_bit 6 X OR 0b010110) 1" by (simp add: bit_or_iff)
qed

lemma and_mask_Suc: "w AND mask (Suc n) = (w AND mask n) OR (if bit w n then push_bit n 1 else 0)" for w :: u32
  by (rule bit_word_eqI) (auto simp: bit_and_iff bit_or_iff bit_mask_iff bit_exp_iff less_Suc_eq
      dest: bit_imp_le_length)

lemma page_pair:
  fixes P va :: u32
  assumes "even P"
  shows "bit va 12 \<Longrightarrow> push_bit 12 (P + 1) OR (va AND 0xfff) = push_bit 12 P OR (va AND 0x1fff)"
    and "\<not> bit va 12 \<Longrightarrow> va AND 0xfff = va AND 0x1fff"
proof -
  have m: "(0xfff :: u32) = mask 12" "(0x1fff :: u32) = mask 13" by (simp_all add: mask_eq_exp_minus_1)
  have split: "va AND mask 13 = (va AND mask 12) OR (if bit va 12 then push_bit 12 1 else 0)"
    using and_mask_Suc[of va 12] by simp
  have "P + 1 = P OR 1" using assms by (simp add: or_one_eq)
  then show "bit va 12 \<Longrightarrow> push_bit 12 (P + 1) OR (va AND 0xfff) = push_bit 12 P OR (va AND 0x1fff)"
    unfolding m split by (simp add: push_bit_or or.assoc or.commute or.left_commute)
  show "\<not> bit va 12 \<Longrightarrow> va AND 0xfff = va AND 0x1fff" unfolding m split by simp
qed

text \<open>The end of the handler: the TLB translates the address as the page tables do.\<close>

lemma tlb_finish_translates:
  assumes e: "pte_get m (c_pool_num c) (c_ptn c) = Some e" "pte_addr e = frame_pfn k" "k < 2048"
    and hi: "c_entry_hi c = (va AND 0xffffe000) OR asid"
    and r: "if c_refill c then tlb_probe (tlb m) (c_entry_hi c) = None \<and> rnd < length (tlb m)
            else tlb_probe (tlb m) (c_entry_hi c) \<noteq> None"
  shows "\<exists>es. tlb_finish rnd c m = Some (m\<lparr>tlb := es, ks := (ks m)\<lparr>entry_hi := c_entry_hi c\<rparr>\<rparr>) \<and>
           length es = length (tlb m) \<and>
           tlb_translate es asid va = Some (push_bit 12 (frame_pfn k) OR (va AND 0x1fff))"
proof -
  let ?P = "frame_pfn k"
  let ?x = "\<lparr>te_hi = c_entry_hi c, te_lo0 = push_bit 6 ?P OR 0b010110, te_lo1 = push_bit 6 (?P + 1) OR 0b010110\<rparr>"
  have P: "unat ?P < 2 ^ 26" "unat (?P + 1) < 2 ^ 26"
    using unat_frame_pfn[OF e(3)] e(3) by (simp_all add: unat_plus_if')
  have h: "hi_match (te_hi ?x) (c_entry_hi c)" by (simp add: hi_match_def)
  obtain i where i: "i < length (tlb m)" "tlb_probe ((tlb m)[i := ?x]) (c_entry_hi c) = Some i"
    "tlb_finish rnd c m = Some (m\<lparr>tlb := (tlb m)[i := ?x], ks := (ks m)\<lparr>entry_hi := c_entry_hi c\<rparr>\<rparr>)"
  proof (cases "c_refill c")
    case True
    then have "tlb_finish rnd c m = Some (m\<lparr>tlb := (tlb m)[rnd := ?x], ks := (ks m)\<lparr>entry_hi := c_entry_hi c\<rparr>\<rparr>)"
      using e by (simp add: tlb_finish_def tlb_write_def Let_def)
    with True r tlb_probe_refill[OF _ _ h] show ?thesis by (intro that[of rnd]) auto
  next
    case False
    with r obtain i where p: "tlb_probe (tlb m) (c_entry_hi c) = Some i" by auto
    with False have "tlb_finish rnd c m = Some (m\<lparr>tlb := (tlb m)[i := ?x], ks := (ks m)\<lparr>entry_hi := c_entry_hi c\<rparr>\<rparr>)"
      using e by (simp add: tlb_finish_def tlb_write_def Let_def)
    with tlb_probe_rewrite[OF p h] tlb_probe_less[OF p] show ?thesis by (intro that[of i]) auto
  qed
  have "tlb_translate ((tlb m)[i := ?x]) asid va = Some (push_bit 12 ?P OR (va AND 0x1fff))"
    using i(1,2) entry_lo[OF P(1)] entry_lo[OF P(2)] page_pair[OF frame_pfn_even[OF e(3)], of va] hi
    by (auto simp: tlb_translate_def Let_def)
  with i(3) show ?thesis by auto
qed

section \<open>Address spaces are disjoint\<close>

lemma take_bit_13: "va AND 0x1fff = take_bit 13 va" for va :: u32
  by (simp add: take_bit_eq_mask mask_eq_exp_minus_1)

lemma physical_parts:
  assumes "k < 2048"
  shows "unat (drop_bit 13 (push_bit 12 (frame_pfn k) OR (va AND 0x1fff))) = 2048 + k"
    and "take_bit 13 (push_bit 12 (frame_pfn k) OR (va AND 0x1fff)) = take_bit 13 va"
proof -
  let ?P = "frame_pfn k"
  have P: "take_bit 20 ?P = ?P"
    using unat_frame_pfn[OF assms] assms by (simp add: word_unat_eq_iff unsigned_take_bit_eq take_bit_nat_eq_self)
  have d: "drop_bit 13 (push_bit 12 ?P) = drop_bit 1 ?P"
  proof (rule bit_word_eqI)
    fix n
    have "bit ?P m \<Longrightarrow> m < 20" for m by (subst (asm) P[symmetric]) (simp add: bit_take_bit_iff)
    then show "bit (drop_bit 13 (push_bit 12 ?P)) n = bit (drop_bit 1 ?P) n"
      by (fastforce simp: bit_drop_bit_eq bit_push_bit_iff)
  qed
  have z: "drop_bit 13 (take_bit 13 va) = 0"
    by (rule bit_word_eqI) (simp add: bit_drop_bit_eq bit_take_bit_iff)
  have "drop_bit 13 (push_bit 12 ?P OR (va AND 0x1fff)) = drop_bit 1 ?P"
    unfolding take_bit_13 drop_bit_or d z by simp
  then show "unat (drop_bit 13 (push_bit 12 ?P OR (va AND 0x1fff))) = 2048 + k"
    using unat_frame_pfn[OF assms] by (simp only: drop_bit_eq_div unat_div) simp
  have "take_bit 13 (push_bit 12 ?P) = 0"
  proof (rule bit_word_eqI)
    fix n
    have "\<not> bit ?P 0" using frame_pfn_even[OF assms] by (simp add: bit_0)
    then show "bit (take_bit 13 (push_bit 12 ?P)) n = bit 0 n"
      unfolding bit_take_bit_iff bit_push_bit_iff bit_0_eq
      by (cases "n = 12") auto
  qed
  then show "take_bit 13 (push_bit 12 ?P OR (va AND 0x1fff)) = take_bit 13 va"
    unfolding take_bit_13 take_bit_or by simp
qed

lemma virtual_parts:
  assumes "pdn va = pdn vb" and "ptn va = ptn vb" and "take_bit 13 va = take_bit 13 vb"
  shows "va = vb"
proof (rule bit_word_eqI)
  fix n assume "n < LENGTH(32)"
  have m: "(0x1ff :: u32) = mask 9" by (simp add: mask_eq_exp_minus_1)
  have d: "drop_bit 22 va = drop_bit 22 vb" using assms(1) by (simp add: pdn_def word_unat_eq_iff)
  have t: "drop_bit 13 va AND mask 9 = drop_bit 13 vb AND mask 9"
    using assms(2) by (simp add: ptn_def word_unat_eq_iff m)
  consider "n < 13" | "13 \<le> n" "n < 22" | "22 \<le> n" by linarith
  then show "bit va n = bit vb n"
  proof cases
    case 1
    then show ?thesis using arg_cong[OF assms(3), of "\<lambda>w. bit w n"] by (simp add: bit_take_bit_iff)
  next
    case 2
    then show ?thesis
      using arg_cong[OF t, of "\<lambda>w. bit w (n - 13)"]
      by (auto simp: bit_and_iff bit_drop_bit_eq bit_mask_iff dest: bit_imp_le_length)
  next
    case 3
    then show ?thesis using arg_cong[OF d, of "\<lambda>w. bit w (n - 22)"] by (simp add: bit_drop_bit_eq)
  qed
qed

lemma walkE:
  assumes "mm_inv m fpt fpm" and "walk m p va = Some pa"
  obtains pl k where "dir_entry m p (pdn va) pl" "in_use m fpt pl (ptn va)" "k < 2048" "Suc k \<notin> set fpm"
    "pte_addr (page_table_pool m pl (ptn va)) = frame_pfn k" "pa = push_bit 12 (frame_pfn k) OR (va AND 0x1fff)"
proof -
  define pl where "pl = unat (pool_num (page_dir (pcb (ks m) p) (pdn va)))"
  have d: "dir_entry m p (pdn va) pl"
    using assms(2) by (auto simp: walk_def dir_entry_def pl_def Let_def split: if_splits)
  have u: "in_use m fpt pl (ptn va)" and pa: "pa = push_bit 12 (pte_addr (page_table_pool m pl (ptn va))) OR (va AND 0x1fff)"
    using mm_invD(5)[OF assms(1) d] assms(2) ptn_less
    by (auto simp: walk_def in_use_def pl_def Let_def split: if_splits)
  from mm_invD(7)[OF assms(1) u] d u pa show ?thesis by (auto intro: that)
qed

lemma walk_isolated:
  assumes inv: "mm_inv m fpt fpm" and a: "walk m p va = Some pa" and b: "walk m q vb = Some pa"
  shows "p = q \<and> va = vb"
proof -
  obtain pl k where A: "dir_entry m p (pdn va) pl" "in_use m fpt pl (ptn va)" "k < 2048"
    "pte_addr (page_table_pool m pl (ptn va)) = frame_pfn k" "pa = push_bit 12 (frame_pfn k) OR (va AND 0x1fff)"
    using walkE[OF inv a] by metis
  obtain pl' k' where B: "dir_entry m q (pdn vb) pl'" "in_use m fpt pl' (ptn vb)" "k' < 2048"
    "pte_addr (page_table_pool m pl' (ptn vb)) = frame_pfn k'" "pa = push_bit 12 (frame_pfn k') OR (vb AND 0x1fff)"
    using walkE[OF inv b] by metis
  have "2048 + k = 2048 + k'"
    using physical_parts(1)[OF A(3), of va] physical_parts(1)[OF B(3), of vb] A(5) B(5) by metis
  then have "k = k'" by simp
  moreover have "take_bit 13 va = take_bit 13 vb"
    using physical_parts(2)[OF A(3), of va] physical_parts(2)[OF B(3), of vb] A(5) B(5) by metis
  ultimately have "pl = pl'" "ptn va = ptn vb" using mm_invD(8)[OF inv A(2) B(2)] A(4) B(4) by auto
  with mm_invD(6)[OF inv A(1)] B(1) have "p = q" "pdn va = pdn vb" by blast+
  with \<open>ptn va = ptn vb\<close> \<open>take_bit 13 va = take_bit 13 vb\<close> show ?thesis using virtual_parts by blast
qed

section \<open>The handler\<close>

lemma alloc_frames:
  assumes "pm_rep m fs"
  shows "pm_alloc m = Some (- 1, m) \<and> fs = [] \<or>
    (\<exists>k fs' l. fs = Suc k # fs' \<and> pm_alloc m = Some (int k, m\<lparr>pm_slist := l\<rparr>) \<and> pm_rep (m\<lparr>pm_slist := l\<rparr>) fs')"
proof (cases fs)
  case Nil
  with pm.alloc_none[of m] assms show ?thesis by simp
next
  case (Cons f fs')
  with assms pm.rep_range[OF assms, of f] obtain k where f: "f = Suc k" by (cases f) auto
  from pm.alloc_some[of m f fs'] Cons assms obtain m' where "pm_alloc m = Some (int f - 1, m')" "pm_rep m' fs'" by auto
  with f Cons show ?thesis by (auto simp: pm_alloc_def bind_eq_Some_conv)
qed

lemma alloc_tables:
  assumes "pt_rep m fs"
  shows "pt_pool_alloc m = Some (- 1, m) \<and> fs = [] \<or>
    (\<exists>n fs' l. fs = Suc n # fs' \<and> pt_pool_alloc m = Some (int n, m\<lparr>pt_pool_slist := l\<rparr>) \<and>
       pt_rep (m\<lparr>pt_pool_slist := l\<rparr>) fs')"
proof (cases fs)
  case Nil
  with pt.alloc_none[of m] assms show ?thesis by simp
next
  case (Cons f fs')
  with assms pt.rep_range[OF assms, of f] obtain k where f: "f = Suc k" by (cases f) auto
  from pt.alloc_some[of m f fs'] Cons assms obtain m' where "pt_pool_alloc m = Some (int f - 1, m')" "pt_rep m' fs'" by auto
  with f Cons show ?thesis by (auto simp: pt_pool_alloc_def bind_eq_Some_conv)
qed

definition tlb_ready :: "nat \<Rightarrow> tlb_ctx \<Rightarrow> mstate \<Rightarrow> bool" where
  "tlb_ready rnd c m \<longleftrightarrow>
     c_entry_hi c = (c_badvaddr c AND 0xffffe000) OR word_of_nat (current_running (ks m)) \<and>
     (if c_refill c then tlb_probe (tlb m) (c_entry_hi c) = None \<and> rnd < length (tlb m)
      else tlb_probe (tlb m) (c_entry_hi c) \<noteq> None)"

lemma walk_dir_entry:
  assumes "dir_entry m p (pdn va) pl" and "pte_valid (page_table_pool m pl (ptn va)) \<noteq> 0"
    and "pte_present (page_table_pool m pl (ptn va)) \<noteq> 0"
  shows "walk m p va = Some (push_bit 12 (pte_addr (page_table_pool m pl (ptn va))) OR (va AND 0x1fff))"
  using assms by (simp add: walk_def dir_entry_def)

text \<open>A page in memory: the handler only loads the TLB.\<close>

lemma tlb_finish_inv:
  assumes inv: "mm_inv m fpt fpm" and de: "dir_entry m (current_running (ks m)) (pdn (c_badvaddr c)) (c_pool_num c)"
    and j: "c_ptn c = ptn (c_badvaddr c)" and r: "tlb_ready rnd c m" and u: "in_use m fpt (c_pool_num c) (c_ptn c)"
  shows "\<exists>m' pa. tlb_finish rnd c m = Some m' \<and> mm_inv m' fpt fpm \<and>
           current_running (ks m') = current_running (ks m) \<and>
           walk m' (current_running (ks m)) (c_badvaddr c) = Some pa \<and>
           tlb_translate (tlb m') (word_of_nat (current_running (ks m))) (c_badvaddr c) = Some pa"
proof -
  let ?e = "page_table_pool m (c_pool_num c) (c_ptn c)" and ?p = "current_running (ks m)" and ?va = "c_badvaddr c"
  obtain k where k: "k < 2048" "pte_addr ?e = frame_pfn k" using mm_invD(7)[OF inv u] by auto
  have e: "pte_get m (c_pool_num c) (c_ptn c) = Some ?e" using u by (simp add: pte_get_def in_use_def)
  obtain es where es: "tlb_finish rnd c m = Some (m\<lparr>tlb := es, ks := (ks m)\<lparr>entry_hi := c_entry_hi c\<rparr>\<rparr>)"
    "tlb_translate es (word_of_nat ?p) ?va = Some (push_bit 12 (frame_pfn k) OR (?va AND 0x1fff))"
    using tlb_finish_translates[OF e k(2,1), of ?va "word_of_nat ?p" rnd] r by (auto simp: tlb_ready_def)
  let ?m = "m\<lparr>tlb := es, ks := (ks m)\<lparr>entry_hi := c_entry_hi c\<rparr>\<rparr>"
  have "mm_inv ?m fpt fpm" by (rule mm_inv_cong[OF inv]) simp_all
  moreover have "walk ?m ?p ?va = walk m ?p ?va" by (simp add: walk_def)
  moreover have "walk m ?p ?va = Some (push_bit 12 (frame_pfn k) OR (?va AND 0x1fff))"
    using walk_dir_entry[OF de] u k j by (simp add: in_use_def)
  ultimately show ?thesis using es by auto
qed

lemma tlb_page_inv:
  assumes inv: "mm_inv m fpt fpm" and de: "dir_entry m (current_running (ks m)) (pdn (c_badvaddr c)) (c_pool_num c)"
    and j: "c_ptn c = ptn (c_badvaddr c)" and r: "tlb_ready rnd c m"
    and p: "pid (pcb (ks m) (current_running (ks m))) = int (current_running (ks m))"
    and ok: "if pte_valid (page_table_pool m (c_pool_num c) (c_ptn c)) = 0 then fpm \<noteq> []
             else pte_present (page_table_pool m (c_pool_num c) (c_ptn c)) \<noteq> 0"
  shows "\<exists>m' fpm' pa. tlb_page rnd c m = Some m' \<and> mm_inv m' fpt fpm' \<and>
           walk m' (current_running (ks m)) (c_badvaddr c) = Some pa \<and>
           tlb_translate (tlb m') (word_of_nat (current_running (ks m))) (c_badvaddr c) = Some pa"
proof -
  let ?e = "page_table_pool m (c_pool_num c) (c_ptn c)"
  have pl: "c_pool_num c < PAGE_TABLE_POOL_SIZE" "Suc (c_pool_num c) \<notin> set fpt" using mm_invD(5)[OF inv de] by auto
  have e: "pte_get m (c_pool_num c) (c_ptn c) = Some ?e" using pl ptn_less j by (simp add: pte_get_def)
  show ?thesis
  proof (cases "pte_valid ?e = 0")
    case False
    then have "in_use m fpt (c_pool_num c) (c_ptn c)" using pl ok j ptn_less by (simp add: in_use_def)
    from tlb_finish_inv[OF inv de j r this] show ?thesis using e ok False by (auto simp: tlb_page_def)
  next
    case True
    then obtain k fpm' l where k: "fpm = Suc k # fpm'" "pm_alloc m = Some (int k, m\<lparr>pm_slist := l\<rparr>)"
      "pm_rep (m\<lparr>pm_slist := l\<rparr>) fpm'"
      using alloc_frames[OF mm_invD(2)[OF inv]] ok by auto
    let ?m1 = "m\<lparr>pm_slist := l\<rparr>" let ?m2 = "add_frame c k ?m1"
    have k2: "k < 2048" using pm.rep_range[OF mm_invD(2)[OF inv], of "Suc k"] k(1) by simp
    have t: "tlb_map c (int k) ?m1 = Some ?m2"
      using k2 mm_invD(3,4)[OF inv] pl(1) j ptn_less p by (intro tlb_map_eq) simp_all
    have inv2: "mm_inv ?m2 fpt fpm'"
      using k(1) inv de j by (intro mm_inv_add_frame[OF _ k(3)]) simp_all
    have m2: "ks ?m2 = ks m" "tlb ?m2 = tlb m" by (simp_all add: add_frame_def)
    have "in_use ?m2 fpt (c_pool_num c) (c_ptn c)" using pl j ptn_less by (simp add: in_use_def add_frame_def)
    moreover have "dir_entry ?m2 (current_running (ks ?m2)) (pdn (c_badvaddr c)) (c_pool_num c)"
      using de m2 by (simp add: dir_entry_def)
    moreover have "tlb_ready rnd c ?m2" using r m2 by (auto simp: tlb_ready_def split: if_splits)
    ultimately show ?thesis
      using tlb_finish_inv[OF inv2 _ j, of rnd] e True k(2) t m2 by (auto simp: tlb_page_def)
  qed
qed

text \<open>
  The handler on a page that need not be swapped: the page is new and a frame (and, if it is the
  first page of its directory entry, a page table) is free, or it is in memory.
\<close>

definition no_swap :: "mstate \<Rightarrow> nat list \<Rightarrow> nat list \<Rightarrow> u32 \<Rightarrow> bool" where
  "no_swap m fpt fpm va \<longleftrightarrow>
     (let pde = page_dir (pcb (ks m) (current_running (ks m))) (pdn va);
          e = page_table_pool m (unat (pool_num pde)) (ptn va) in
      if pde_valid pde = 0 then fpt \<noteq> [] \<and> fpm \<noteq> []
      else if pte_valid e = 0 then fpm \<noteq> [] else pte_present e \<noteq> 0)"

lemma TLB_exception_helper_inv:
  assumes inv: "mm_inv m fpt fpm" and cur: "current_running (ks m) < MAX_TASK_NUM"
    "pid (pcb (ks m) (current_running (ks m))) = int (current_running (ks m))"
    and va: "va = cp0_badvaddr (user_regs_context (pcb (ks m) (current_running (ks m))))" "pdn va < PDE_NUMBER"
    and eh: "entry_hi (ks m) = (va AND 0xffffe000) OR word_of_nat (current_running (ks m))"
    and r: "if refill then tlb_probe (tlb m) (entry_hi (ks m)) = None \<and> rnd < length (tlb m)
            else tlb_probe (tlb m) (entry_hi (ks m)) \<noteq> None"
    and ns: "no_swap m fpt fpm va"
  shows "\<exists>m' fpt' fpm' pa. TLB_exception_helper rnd refill m = Some m' \<and> mm_inv m' fpt' fpm' \<and>
           walk m' (current_running (ks m)) va = Some pa \<and>
           tlb_translate (tlb m') (word_of_nat (current_running (ks m))) va = Some pa"
proof -
  let ?p = "current_running (ks m)"
  let ?pde = "page_dir (pcb (ks m) ?p) (pdn va)"
  let ?c = "\<lparr>c_refill = refill, c_entry_hi = entry_hi (ks m), c_badvaddr = va, c_pool_num = 0, c_ptn = ptn va\<rparr>"
  show ?thesis
  proof (cases "pde_valid ?pde = 0")
    case False
    let ?d = "?c\<lparr>c_pool_num := unat (pool_num ?pde)\<rparr>"
    have "TLB_exception_helper rnd refill m = tlb_page rnd ?d m"
      using False va by (simp add: TLB_exception_helper_def Let_def pdn_def ptn_def)
    moreover have "dir_entry m ?p (pdn va) (unat (pool_num ?pde))" using False cur va by (simp add: dir_entry_def)
    moreover have "tlb_ready rnd ?d m" using eh r by (auto simp: tlb_ready_def split: if_splits)
    moreover have "if pte_valid (page_table_pool m (c_pool_num ?d) (c_ptn ?d)) = 0 then fpm \<noteq> []
      else pte_present (page_table_pool m (c_pool_num ?d) (c_ptn ?d)) \<noteq> 0"
      using ns False by (simp add: no_swap_def Let_def)
    ultimately obtain m' fpm' pa where "TLB_exception_helper rnd refill m = Some m'" "mm_inv m' fpt fpm'"
      "walk m' ?p va = Some pa" "tlb_translate (tlb m') (word_of_nat ?p) va = Some pa"
      using tlb_page_inv[OF inv, of ?d rnd] cur(2) by auto
    then show ?thesis by blast
  next
    case True
    then obtain n fpt' l where n: "fpt = Suc n # fpt'" "pt_pool_alloc m = Some (int n, m\<lparr>pt_pool_slist := l\<rparr>)"
      "pt_rep (m\<lparr>pt_pool_slist := l\<rparr>) fpt'"
      using alloc_tables[OF mm_invD(1)[OF inv]] ns by (auto simp: no_swap_def)
    let ?m2 = "add_table ?p (pdn va) n (m\<lparr>pt_pool_slist := l\<rparr>)" and ?d = "?c\<lparr>c_pool_num := n\<rparr>"
    have "TLB_exception_helper rnd refill m = tlb_page rnd ?d ?m2"
      using True va n(2) by (simp add: TLB_exception_helper_def Let_def pdn_def ptn_def add_table_def)
    moreover have inv2: "mm_inv ?m2 fpt' fpm" and de: "dir_entry ?m2 ?p (pdn va) n"
      using mm_inv_add_table[of m n fpt' fpm ?p "pdn va", OF _ _ _ _ n(3)] inv n(1) cur va True by simp_all
    moreover have m2: "current_running (ks ?m2) = ?p" "tlb ?m2 = tlb m" "pid (pcb (ks ?m2) ?p) = int ?p"
      using cur by (simp_all add: add_table_def upd_pcb_def)
    moreover have "tlb_ready rnd ?d ?m2" using eh r m2 by (auto simp: tlb_ready_def split: if_splits)
    moreover have "pte_valid (page_table_pool ?m2 n (ptn va)) = 0"
      using ptn_less by (simp add: add_table_def page_table_init_def)
    ultimately show ?thesis
      using tlb_page_inv[OF inv2, of ?d rnd] ns True cur by (simp add: no_swap_def Let_def) blast
  qed
qed

lemma swap_scheduler_bounds: "2 \<le> swap_scheduler m \<and> swap_scheduler m < int PM_SLIST_SIZE - 1"
proof -
  define r where "r = get_timer (ks m) mod 2046"
  have r: "unat r < 2046" by (simp add: r_def unat_mod)
  then have u: "unat (2 + r) = 2 + unat r" by (simp add: unat_plus_if')
  have "swap_scheduler m = sint (2 + r)" by (simp add: swap_scheduler_def r_def)
  also have "\<dots> = int (2 + unat r)" using sint_small[of "2 + r"] r unfolding u by simp
  finally have "swap_scheduler m = int (2 + unat r)" .
  with r show ?thesis by linarith
qed

end
