(* ===== verification/Machine.thy ===== *)
theory Machine
  imports Kernel_Inv
begin

text \<open>
  The kernel as a transition system: boot (\<^verbatim>\<open>init_task\<close> of \<^verbatim>\<open>init/main.c\<close>), then steps of the running
  user task, system calls, interrupts and resumptions in any order. Every handler returns without
  touching invalid memory, and \<open>kernel_inv\<close> holds in every reachable state.
\<close>

section \<open>The use of the system calls\<close>

text \<open>
  What the kernel expects of its callers and does not check: tasks have a positive priority, only
  the mutex locks of the kernel's table are used, and an object is initialised while nobody uses it.
\<close>

fun call_ok :: "mem_view \<Rightarrow> kstate \<Rightarrow> kcall \<Rightarrow> bool" where
  "call_ok m s (C_spawn a) \<longleftrightarrow> 1 \<le> ti_priority (task_at m a)"
| "call_ok m s (C_mutex_lock_init a) \<longleftrightarrow>
     queue_is_empty (queues s (LockQ (obj_at m a))) \<and> lk_status (locks s (obj_at m a)) = UNLOCKED"
| "call_ok m s (C_mutex_lock_acquire a) \<longleftrightarrow> obj_at m a < MAX_LOCKS_NUM"
| "call_ok m s (C_cond_wait a b) \<longleftrightarrow> obj_at m b < MAX_LOCKS_NUM"
| "call_ok m s (C_semaphore_init a v) \<longleftrightarrow> queue_is_empty (queues s (SemQ (obj_at m a)))"
| "call_ok m s (C_cond_init a) \<longleftrightarrow> queue_is_empty (queues s (CondQ (obj_at m a)))"
| "call_ok m s (C_barrier_init a g) \<longleftrightarrow> queue_is_empty (queues s (BarrierQ (obj_at m a)))"
| "call_ok m s _ \<longleftrightarrow> True"

lemma kinv_wait:
  assumes inv: "kinv s qs fs" and h: "halted s = None" and c: "current_running s \<noteq> 0"
  shows "\<exists>s' qs'. wait s p = Some s' \<and> kinv s' qs' fs"
proof (cases "p \<le> 0 \<or> int MAX_TASK_NUM \<le> p \<or> nat p \<in> set fs \<or> p = int (current_running s)")
  case True
  from wait_refused[OF kinvD(1)[OF inv] kinv_current(1)[OF inv h c] True] show ?thesis
    using kinv_inert[OF inv inert_set_v0, of "current_running s" 0] by auto
next
  case False
  let ?s1 = "set_v0 s (current_running s) 1"
  have i1: "kinv ?s1 qs fs" by (rule kinv_inert[OF inv inert_set_v0]) simp
  have "wait s p = do_wait ?s1 (current_running ?s1) (WaitQ (nat p)) TASK_WAITING K_exit"
    using False pid_is_valid_rep[OF kinvD(1)[OF inv], of p] kinv_current(3)[OF inv h c]
    by (simp add: wait_def Let_def)
  moreover have "live fs (nat p)" using False by (auto simp: live_def)
  ultimately show ?thesis
    using kinv_do_wait[OF i1, of "WaitQ (nat p)" K_exit TASK_WAITING] h c by auto
qed

lemma kinv_sleep:
  assumes inv: "kinv s qs fs" and h: "halted s = None" and c: "current_running s \<noteq> 0"
  shows "\<exists>s' qs'. do_sleep s t = Some s' \<and> kinv s' qs' fs"
proof -
  let ?s1 = "upd_pcb s (current_running s) (\<lambda>c. c\<lparr>awakened_time := get_ticks s + t div TIME_SLICE\<rparr>)"
  have i1: "kinv ?s1 qs fs" by (rule kinv_inert[OF inv]) (simp_all add: inert_def)
  from kinv_do_wait[OF i1, of SleepQ K_exit TASK_SLEEPING] h c
  show ?thesis by (auto simp: do_sleep_def Let_def)
qed

lemma kinv_semaphore:
  assumes inv: "kinv s qs fs" and h: "halted s = None" and c: "current_running s \<noteq> 0"
  shows "\<exists>s' qs'. do_semaphore_up s i = Some s' \<and> kinv s' qs' fs"
    and "cont_ok k \<Longrightarrow> \<exists>s' qs'. do_semaphore_down s i k = Some s' \<and> kinv s' qs' fs"
proof -
  let ?u = "s\<lparr>sems := (sems s)(i := \<lparr>sem_value = sem_value (sems s i) + 1\<rparr>)\<rparr>"
  let ?d = "s\<lparr>sems := (sems s)(i := \<lparr>sem_value = sem_value (sems s i) - 1\<rparr>)\<rparr>"
  have iu: "kinv ?u qs fs" and id: "kinv ?d qs fs"
    by (rule kinv_inert[OF inv]; simp add: inert_def)+
  obtain s' qs' where "do_unblock_one ?u (SemQ i) = Some s'" "kinv s' qs' fs"
    using kinv_unblock_one[OF iu, of "SemQ i"] by blast
  with iu show "\<exists>s' qs'. do_semaphore_up s i = Some s' \<and> kinv s' qs' fs"
    by (auto simp: do_semaphore_up_def Let_def)
  assume "cont_ok k"
  with id h c kinv_do_wait[OF id, of "SemQ i" k TASK_BLOCKED]
  show "\<exists>s' qs'. do_semaphore_down s i k = Some s' \<and> kinv s' qs' fs"
    by (auto simp: do_semaphore_down_def Let_def)
qed

lemma kinv_condition:
  assumes inv: "kinv s qs fs"
  shows "\<exists>s' qs'. do_condition_signal s x = Some s' \<and> kinv s' qs' fs"
    and "\<exists>s' qs'. do_condition_broadcast s x = Some s' \<and> kinv s' qs' fs"
proof -
  let ?d = "s\<lparr>conds := (conds s)(x := \<lparr>waiting_num = waiting_num (conds s x) - 1\<rparr>)\<rparr>"
  let ?z = "s\<lparr>conds := (conds s)(x := \<lparr>waiting_num = 0\<rparr>)\<rparr>"
  have id: "kinv ?d qs fs" and iz: "kinv ?z qs fs"
    by (rule kinv_inert[OF inv]; simp add: inert_def)+
  obtain s' qs' where "do_unblock_one ?d (CondQ x) = Some s'" "kinv s' qs' fs"
    using kinv_unblock_one[OF id, of "CondQ x"] by blast
  with inv show "\<exists>s' qs'. do_condition_signal s x = Some s' \<and> kinv s' qs' fs"
    by (auto simp: do_condition_signal_def)
  from kinv_unblock_all[OF iz, of "CondQ x"] inv
  show "\<exists>s' qs'. do_condition_broadcast s x = Some s' \<and> kinv s' qs' fs"
    by (auto simp: do_condition_broadcast_def)
qed

lemma kinv_barrier_wait:
  assumes inv: "kinv s qs fs" and h: "halted s = None" and c: "current_running s \<noteq> 0"
  shows "\<exists>s' qs'. do_barrier_wait s b = Some s' \<and> kinv s' qs' fs"
proof -
  let ?s1 = "s\<lparr>barriers := (barriers s)(b := (barriers s b)\<lparr>arrived := arrived (barriers s b) + 1\<rparr>)\<rparr>"
  let ?s2 = "?s1\<lparr>barriers := (barriers ?s1)(b := (barriers ?s1 b)\<lparr>arrived := 0\<rparr>)\<rparr>"
  have i1: "kinv ?s1 qs fs" and i2: "kinv ?s2 qs fs"
    by (rule kinv_inert[OF inv]; simp add: inert_def)+
  show ?thesis
  proof (cases "arrived (barriers ?s1 b) = goal (barriers ?s1 b)")
    case True
    then have "do_barrier_wait s b = do_unblock_all ?s2 (BarrierQ b)" by (simp add: do_barrier_wait_def)
    then show ?thesis using kinv_unblock_all[OF i2, of "BarrierQ b"] by auto
  next
    case False
    then have "do_barrier_wait s b = do_wait ?s1 (current_running ?s1) (BarrierQ b) TASK_WAITING K_exit"
      by (simp add: do_barrier_wait_def)
    then show ?thesis using kinv_do_wait[OF i1, of "BarrierQ b" K_exit TASK_WAITING] h c by auto
  qed
qed

lemma kern_exec_inv:
  assumes inv: "kinv s qs fs" and h: "halted s = None" and c: "current_running s \<noteq> 0" and ok: "call_ok m s x"
  shows "\<exists>s' qs' fs'. kern_exec m s x = Some s' \<and> kinv s' qs' fs'"
proof (cases x)
  case (C_spawn a)
  with kinv_spawn[OF inv] ok show ?thesis by auto
next
  case (C_kill p)
  with kinv_kill[OF inv h] show ?thesis by auto
next
  case C_exit
  with kinv_kill[OF inv h] show ?thesis by (auto simp: exit_def)
next
  case (C_wait p)
  with kinv_wait[OF inv h c] show ?thesis by simp blast
next
  case (C_sleep t)
  with kinv_sleep[OF inv h c] show ?thesis by simp blast
next
  case C_getpid
  then show ?thesis using kinv_inert[OF inv inert_set_v0] by (auto simp: do_getpid_def Let_def)
next
  case (C_mutex_lock_init a)
  let ?l = "obj_at m a"
  have "lk_owner (locks s ?l) = 0" using lock_invD(1)[OF kinvD(4)[OF inv], of ?l] ok C_mutex_lock_init by auto
  then have "locks (do_mutex_lock_init s ?l) = locks s"
    using ok C_mutex_lock_init by (cases "locks s ?l") (auto simp: do_mutex_lock_init_def)
  then have "lock_inv (do_mutex_lock_init s ?l) fs"
    by (intro lock_inv_cong[OF kinvD(4)[OF inv]]) (simp_all add: do_mutex_lock_init_def)
  then have "kinv (do_mutex_lock_init s ?l) qs fs"
    using ok C_mutex_lock_init by (intro kinv_queue_init[OF inv]) (auto simp: do_mutex_lock_init_def)
  with C_mutex_lock_init show ?thesis by auto
next
  case (C_mutex_lock_acquire a)
  with kinv_mutex_acquire[OF inv h c] ok show ?thesis by simp blast
next
  case (C_mutex_lock_release a)
  obtain s' qs' where "do_mutex_lock_release s (obj_at m a) = Some s'" "kinv s' qs' fs"
    using kinv_mutex_release[OF inv h c] by blast
  with C_mutex_lock_release show ?thesis by auto
next
  case (C_semaphore_init a v)
  then have "kinv (do_semaphore_init s (obj_at m a) v) qs fs"
    using ok lock_inv_cong[OF kinvD(4)[OF inv], of "do_semaphore_init s (obj_at m a) v"]
    by (intro kinv_queue_init[OF inv]) (auto simp: do_semaphore_init_def)
  with C_semaphore_init show ?thesis by auto
next
  case (C_semaphore_up a)
  with kinv_semaphore(1)[OF inv h c] show ?thesis by simp blast
next
  case (C_semaphore_down a)
  with kinv_semaphore(2)[OF inv h c, of K_exit] show ?thesis by simp blast
next
  case (C_cond_init a)
  then have "kinv (do_condition_init s (obj_at m a)) qs fs"
    using ok lock_inv_cong[OF kinvD(4)[OF inv], of "do_condition_init s (obj_at m a)"]
    by (intro kinv_queue_init[OF inv]) (auto simp: do_condition_init_def)
  with C_cond_init show ?thesis by auto
next
  case (C_cond_wait a b)
  with kinv_condition_wait[OF inv h c] ok show ?thesis by simp blast
next
  case (C_cond_signal a)
  with kinv_condition(1)[OF inv] show ?thesis by simp blast
next
  case (C_cond_broadcast a)
  with kinv_condition(2)[OF inv] show ?thesis by simp blast
next
  case (C_barrier_init a g)
  then have "kinv (do_barrier_init s (obj_at m a) g) qs fs"
    using ok lock_inv_cong[OF kinvD(4)[OF inv], of "do_barrier_init s (obj_at m a) g"]
    by (intro kinv_queue_init[OF inv]) (auto simp: do_barrier_init_def)
  with C_barrier_init show ?thesis by auto
next
  case (C_barrier_wait a)
  with kinv_barrier_wait[OF inv h c] show ?thesis by simp blast
next
  case C_wait_recv
  with kinv_do_wait[OF inv h c, of RecvQ K_exit TASK_BLOCKED] show ?thesis
    by (simp add: do_wait_recv_package_def) blast
qed

section \<open>The handlers under the invariant\<close>

lemma kinv_panic: "kinv s qs fs \<Longrightarrow> kinv (panic msg s) qs fs"
  using sched_inv_cong[of s qs fs "panic msg s"] lock_inv_cong[of s fs "panic msg s"]
  by (auto simp: kinv_def current_ok_def cont_inv_def panic_def)

definition syscall_ok :: "mem_view \<Rightarrow> kstate \<Rightarrow> bool" where
  "syscall_ok m s \<longleftrightarrow>
     (case decode_syscall (trap_of s) of Some (Kern c) \<Rightarrow> call_ok m (advance_epc s) c | _ \<Rightarrow> True)"

lemma system_call_helper_inv:
  assumes "kernel_inv s" and "halted s = None" and "current_running s \<noteq> 0" and "syscall_ok m s"
  shows "\<exists>s'. system_call_helper m v s = Some s' \<and> kernel_inv s'"
proof -
  obtain qs fs where inv: "kinv s qs fs" using assms(1) by (auto simp: kernel_inv_def)
  let ?s1 = "advance_epc s"
  have inv1: "kinv ?s1 qs fs"
    by (rule kinv_inert[OF inv inert_advance_epc]) (simp add: advance_epc_def)
  have 1: "halted ?s1 = None" "current_running ?s1 \<noteq> 0" using assms(2,3) by (simp_all add: advance_epc_def)
  have v: "kinv (case v of None \<Rightarrow> ?s1 | Some x \<Rightarrow> set_v0 ?s1 (current_running ?s1) x) qs fs"
    using inv1 kinv_inert[OF inv1 inert_set_v0] by (cases v) auto
  show ?thesis
  proof (cases "decode_syscall (trap_of s)")
    case None
    then show ?thesis using kinv_panic[OF inv1] by (auto simp: system_call_helper_def kernel_inv_def)
  next
    case (Some c)
    show ?thesis
    proof (cases c)
      case (Kern x)
      with Some assms(4) have "call_ok m ?s1 x" by (simp add: syscall_ok_def)
      from kern_exec_inv[OF inv1 1 this] Some Kern show ?thesis
        by (auto simp: system_call_helper_def kernel_inv_def)
    next
      case (Dev x)
      with Some v show ?thesis by (auto simp: system_call_helper_def kernel_inv_def Let_def)
    next
      case (Fs x)
      with Some v show ?thesis by (auto simp: system_call_helper_def kernel_inv_def Let_def)
    qed
  qed
qed

lemma irq_timer_inv:
  assumes "kinv s qs fs" and "halted s = None"
  shows "\<exists>s' qs'. irq_timer s = Some s' \<and> kinv s' qs' fs"
proof -
  let ?s1 = "s\<lparr>time_elapsed := time_elapsed s + 1\<rparr>"
  have i1: "kinv ?s1 qs fs" by (rule kinv_inert[OF assms(1)]) (simp_all add: inert_def)
  obtain s2 qs2 where c: "check_sleeping ?s1 = Some s2" "sched_inv s2 qs2 fs" "wake_frame ?s1 s2"
    "set (qs ReadyQ) \<subseteq> set (qs2 ReadyQ)" "\<And>q. q \<noteq> ReadyQ \<Longrightarrow> q \<noteq> SleepQ \<Longrightarrow> qs2 q = qs q"
    by (rule check_sleeping_total[OF kinvD(1)[OF i1]]) blast
  have "wait_ok qs2 fs" using kinvD(2)[OF i1] c(5) by (simp add: wait_ok_def)
  then have i2: "kinv s2 qs2 fs"
    using c(3,4) lock_inv_frame[OF kinvD(4)[OF i1], of s2]
    by (intro kinv_woken[OF i1 c(2)]) (auto simp: wake_frame_def)
  have h2: "halted s2 = None" using c(3) assms(2) by (simp add: wake_frame_def)
  obtain s' where s': "do_scheduler K_exit s2 = Some s'" "sched_inv s' qs2 fs" "sched_frame s2 s'"
    "switched K_exit (qs2 ReadyQ) s2 s'"
    using do_scheduler_inv[OF c(2), of K_exit] by blast
  have "kinv s' qs2 fs"
    using s' h2 kinvD(2)[OF i2] lock_inv_frame[OF kinvD(4)[OF i2] s'(3)]
    by (intro kinv_switched[OF i2 h2 s'(2), of K_exit s2]) auto
  with c(1) s'(1) show ?thesis by (auto simp: irq_timer_def)
qed

lemma interrupt_helper_inv:
  assumes "kernel_inv s" and "halted s = None"
  shows "\<exists>s'. interrupt_helper sr s = Some s' \<and> kernel_inv s'"
proof -
  obtain qs fs where inv: "kinv s qs fs" using assms(1) by (auto simp: kernel_inv_def)
  have "\<exists>s'. irq_mac s = Some s' \<and> kernel_inv s'"
  proof (cases "queue_is_empty (queues s RecvQ)")
    case True
    then show ?thesis using assms(1) by (simp add: irq_mac_def)
  next
    case False
    obtain s' qs' where "do_unblock_one s RecvQ = Some s'" "kinv s' qs' fs"
      using kinv_unblock_one[OF inv, of RecvQ] by blast
    with False show ?thesis by (auto simp: irq_mac_def kernel_inv_def)
  qed
  moreover have "\<exists>s'. irq_timer s = Some s' \<and> kernel_inv s'"
    using irq_timer_inv[OF inv assms(2)] by (auto simp: kernel_inv_def)
  moreover have "kernel_inv (panic msg s)" for msg
    using kinv_panic[OF inv] by (auto simp: kernel_inv_def)
  ultimately show ?thesis by (auto simp: interrupt_helper_def irq_ip3_helper_def Let_def)
qed

lemma resume_inv:
  assumes "kernel_inv s" and "halted s = None"
  shows "\<exists>s'. resume s = Some s' \<and> kernel_inv s'"
proof -
  obtain qs fs where inv: "kinv s qs fs" using assms(1) by (auto simp: kernel_inv_def)
  let ?c = "current_running s"
  let ?s1 = "upd_pcb s ?c (\<lambda>c. c\<lparr>kcont := K_exit\<rparr>)"
  show ?thesis
  proof (cases "kcont (pcb s ?c) = K_exit")
    case True
    then show ?thesis using assms(1) by (simp add: resume_def)
  next
    case False
    then have c: "?c \<noteq> 0" using kinvD(5)[OF inv] assms(2) by (intro notI) (simp add: cont_inv_def)
    have "cont_ok (kcont (pcb s ?c))"
      using kinvD(5)[OF inv] kinv_current(2)[OF inv assms(2) c] by (simp add: cont_inv_def)
    moreover have i1: "kinv ?s1 qs fs"
    proof -
      have "inert s ?s1" by (simp add: inert_def)
      then show ?thesis
        using kinvD[OF inv] sched_inv_inert[OF kinvD(1)[OF inv]] lock_inv_cong[OF kinvD(4)[OF inv], of ?s1]
        by (auto simp: kinv_def current_ok_def cont_inv_def)
    qed
    ultimately show ?thesis
      using kinv_mutex_loop[OF i1] kinv_mutex_acquire[OF i1] assms(2) c False
      by (cases "kcont (pcb s ?c)") (simp_all add: resume_def kernel_inv_def, blast+)
  qed
qed

section \<open>Boot\<close>

abbreviation USER_STACK_SIZE_OF_MAIN :: u32 where "USER_STACK_SIZE_OF_MAIN \<equiv> 0x1000"

text \<open>
  The globals when the image has been loaded: every variable without an initialiser is zero, so that
  no queue has an element and no lock is held.
\<close>

definition zero_regs :: regs_context_t where
  "zero_regs = \<lparr>regs = (\<lambda>_. 0), cp0_status = 0, cp0_cause = 0, cp0_epc = 0, cp0_badvaddr = 0, hi = 0, lo = 0\<rparr>"

definition zero_pcb :: pcb_t where
  "zero_pcb = \<lparr>kernel_regs_context = zero_regs, user_regs_context = zero_regs, kernel_stack_size = 0,
     user_stack_size = 0, prev_pcb = None, next_pcb = None, pid = 0, priority = 0,
     scheduler_priority = 0, wait_time = 0, awakened_time = 0, pname = [], ptype = KERNEL_PROCESS,
     status = TASK_BLOCKED, lock_num = 0, pqueue = None, page_dir = (\<lambda>_. \<lparr>pool_num = 0, pde_valid = 0\<rparr>),
     cursor_x = 0, cursor_y = 0, kcont = K_exit\<rparr>"

definition bss :: kstate where
  "bss = \<lparr>pcb = (\<lambda>_. zero_pcb), queues = (\<lambda>_. \<lparr>head = None, tail = None\<rparr>), current_running = 0,
     pid_list = replicate MAX_TASK_NUM \<lparr>valid = 0, cursor = 0\<rparr>, time_elapsed = 0,
     screen_cursor_x = 0, screen_cursor_y = 0, entry_hi = 0,
     locks = (\<lambda>_. \<lparr>lk_status = UNLOCKED, lk_owner = 0\<rparr>), sems = (\<lambda>_. \<lparr>sem_value = 0\<rparr>),
     conds = (\<lambda>_. \<lparr>waiting_num = 0\<rparr>), barriers = (\<lambda>_. \<lparr>goal = 0, arrived = 0\<rparr>), halted = None\<rparr>"

definition init_task :: "task_info_t \<Rightarrow> task_info_t \<Rightarrow> kstate \<Rightarrow> kstate option" where
  "init_task info_shell info_io_proc s =
     do { let s1 = s\<lparr>queues := (queues s)(ReadyQ := queue_init, SleepQ := queue_init)\<rparr>;
          let s2 = upd_pcb s1 0 (\<lambda>c. c\<lparr>pid := 0, pname := ''main'', ptype := KERNEL_PROCESS, lock_num := 0,
                     user_stack_size := USER_STACK_SIZE_OF_MAIN, kernel_stack_size := KERNEL_STACK_SIZE,
                     kernel_regs_context := (kernel_regs_context c)\<lparr>
                       regs := (regs (kernel_regs_context c))(29 := KERNEL_STACK_TOP_ADDRESS)\<rparr>\<rparr>);
          let s3 = s2\<lparr>current_running := 0\<rparr>;
          let s4 = upd_pcb s3 0 (\<lambda>c. c\<lparr>status := TASK_RUNNING, cursor_x := 0, cursor_y := 0\<rparr>);
          let s5 = s4\<lparr>queues := (queues s4)(WaitQ 0 := queue_init)\<rparr>;
          l \<leftarrow> slist_init (pid_list s5) MAX_TASK_NUM;
          s6 \<leftarrow> init_pcb (s5\<lparr>pid_list := l\<rparr>) info_shell;
          init_pcb s6 info_io_proc }"

text \<open>The part of \<^verbatim>\<open>_start\<close> that sets up this state.\<close>

definition boot :: "task_info_t \<Rightarrow> task_info_t \<Rightarrow> kstate option" where
  "boot info_shell info_io_proc =
     do { s \<leftarrow> init_task info_shell info_io_proc bss; Some (init_mutex_locks s) }"

lemma init_mutex_locks_loop_id:
  assumes "\<And>l. locks s l = \<lparr>lk_status = UNLOCKED, lk_owner = 0\<rparr>" and "\<And>l. queues s (LockQ l) = queue_init"
  shows "init_mutex_locks_loop s n = s"
proof (induction n)
  case (Suc n)
  then show ?case
    using assms(1)[of n] assms(2)[of n]
    by (simp add: do_mutex_lock_init_def fun_upd_idem)
qed simp

definition idle :: "kstate \<Rightarrow> bool" where
  "idle s \<longleftrightarrow> current_running s = 0 \<and> halted s = None \<and>
     (\<forall>l. locks s l = \<lparr>lk_status = UNLOCKED, lk_owner = 0\<rparr>)"

lemma boot_base:
  obtains s where
    "init_task sh io (bss\<lparr>entry_hi := v\<rparr>) = do { s1 \<leftarrow> init_pcb s sh; init_pcb s1 io }"
    "kinv s (\<lambda>_. []) [1..<MAX_TASK_NUM]" "idle s" "\<And>p i. pde_valid (page_dir (pcb s p) i) = 0"
proof -
  let ?l0 = "replicate MAX_TASK_NUM \<lparr>valid = 0, cursor = 0\<rparr>"
  obtain l where l: "slist_init ?l0 MAX_TASK_NUM = Some l" "pool_rep MAX_TASK_NUM l [1..<MAX_TASK_NUM]"
    using pool_rep_init[of MAX_TASK_NUM ?l0] by auto
  define s where "s = bss\<lparr>entry_hi := v, pid_list := l, pcb := (pcb bss)(0 := zero_pcb\<lparr>pname := ''main'',
     user_stack_size := USER_STACK_SIZE_OF_MAIN, kernel_stack_size := KERNEL_STACK_SIZE,
     kernel_regs_context := zero_regs\<lparr>regs := (regs zero_regs)(29 := KERNEL_STACK_TOP_ADDRESS)\<rparr>,
     status := TASK_RUNNING\<rparr>)\<rparr>"
  have "init_task sh io (bss\<lparr>entry_hi := v\<rparr>) = do { s1 \<leftarrow> init_pcb s sh; init_pcb s1 io }"
    using l(1) by (simp add: init_task_def s_def bss_def zero_pcb_def upd_pcb_def queue_init_def Let_def fun_upd_idem)
  moreover have "sched_inv s (\<lambda>_. []) [1..<MAX_TASK_NUM]"
    using l(2) by (auto simp: sched_inv_def family_def is_queue_def s_def bss_def zero_pcb_def)
  then have "kinv s (\<lambda>_. []) [1..<MAX_TASK_NUM]"
    by (auto simp: kinv_def wait_ok_def current_ok_def lock_inv_def cont_inv_def live_def s_def bss_def zero_pcb_def)
  moreover have "idle s" "\<And>p i. pde_valid (page_dir (pcb s p) i) = 0" by (simp_all add: idle_def s_def bss_def zero_pcb_def)
  ultimately show ?thesis by (rule that)
qed

text \<open>A new task has no page table, and the tables of the others are kept.\<close>

lemma init_pcb_no_pages:
  assumes "sched_inv s qs (f # fs)" "qs (WaitQ f) = []" "1 \<le> ti_priority task" "init_pcb s task = Some s'"
    and "\<forall>p i. i < PDE_NUMBER \<longrightarrow> pde_valid (page_dir (pcb s p) i) = 0"
  shows "\<forall>p i. i < PDE_NUMBER \<longrightarrow> pde_valid (page_dir (pcb s' p) i) = 0"
proof (intro allI impI)
  fix p i assume i: "i < PDE_NUMBER"
  have u: "\<forall>p. p \<noteq> f \<longrightarrow> unlinked (pcb s' p) = unlinked (pcb s p)" and n: "\<forall>i<PDE_NUMBER. pde_valid (page_dir (pcb s' f) i) = 0"
    using init_pcb_inv[OF assms(1-3)] assms(4) by auto
  show "pde_valid (page_dir (pcb s' p) i) = 0"
  proof (cases "p = f")
    case False
    then have "page_dir (unlinked (pcb s' p)) = page_dir (unlinked (pcb s p))" using u by simp
    then show ?thesis using assms(5) i by (simp add: unlinked_def)
  qed (use n i in simp)
qed

text \<open>Booting gives a state in which the shell is task 1, the input process is task 2, and \<^verbatim>\<open>main\<close> runs.\<close>

lemma init_task_kinv:
  assumes "1 \<le> ti_priority sh" and "1 \<le> ti_priority io"
  shows "\<exists>s. init_task sh io (bss\<lparr>entry_hi := v\<rparr>) = Some s \<and> init_mutex_locks s = s \<and> idle s \<and>
           kinv s ((\<lambda>_. [])(ReadyQ := [1, 2])) [3..<MAX_TASK_NUM] \<and>
           (\<forall>p i. i < PDE_NUMBER \<longrightarrow> pde_valid (page_dir (pcb s p) i) = 0)"
proof -
  obtain s0 where s0: "init_task sh io (bss\<lparr>entry_hi := v\<rparr>) = do { s1 \<leftarrow> init_pcb s0 sh; init_pcb s1 io }"
    "kinv s0 (\<lambda>_. []) [1..<MAX_TASK_NUM]" "idle s0" "\<And>p i. pde_valid (page_dir (pcb s0 p) i) = 0" by (rule boot_base) blast
  have l: "[1..<MAX_TASK_NUM] = 1 # 2 # [3..<MAX_TASK_NUM]" by (simp add: upt_conv_Cons)
  have s0': "kinv s0 (\<lambda>_. []) (1 # 2 # [3..<MAX_TASK_NUM])" using s0(2) unfolding l .
  obtain s1 where s1: "init_pcb s0 sh = Some s1" "kinv s1 ((\<lambda>_. [])(ReadyQ := [1])) (2 # [3..<MAX_TASK_NUM])" "idle s1"
    using kinv_spawn_some[OF s0' assms(1)] s0(3) by (auto simp: idle_def)
  have d1: "\<forall>p i. i < PDE_NUMBER \<longrightarrow> pde_valid (page_dir (pcb s1 p) i) = 0"
    using init_pcb_no_pages[OF kinvD(1)[OF s0'] _ assms(1) s1(1)] s0(4) by simp
  obtain s2 where s2: "init_pcb s1 io = Some s2"
    "kinv s2 ((\<lambda>_. [])(ReadyQ := [1, 2])) [3..<MAX_TASK_NUM]" "idle s2"
    using kinv_spawn_some[OF s1(2) assms(2)] s1(3) by (auto simp: idle_def)
  have d2: "\<forall>p i. i < PDE_NUMBER \<longrightarrow> pde_valid (page_dir (pcb s2 p) i) = 0"
    using init_pcb_no_pages[OF kinvD(1)[OF s1(2)] _ assms(2) s2(1) d1] by simp
  have "queues s2 (LockQ l) = queue_init" for l
    using sched_inv_is_queue[OF kinvD(1)[OF s2(2)], of "LockQ l"]
    by (cases "queues s2 (LockQ l)") (simp add: is_queue_def queue_init_def)
  then have "init_mutex_locks s2 = s2"
    using s2(3) unfolding init_mutex_locks_def by (intro init_mutex_locks_loop_id) (auto simp: idle_def)
  with s0(1) s1(1) s2 d2 show ?thesis by auto
qed

lemma boot_kinv:
  assumes "1 \<le> ti_priority sh" and "1 \<le> ti_priority io"
  shows "\<exists>s. boot sh io = Some s \<and> idle s \<and> kinv s ((\<lambda>_. [])(ReadyQ := [1, 2])) [3..<MAX_TASK_NUM]"
proof -
  have "bss\<lparr>entry_hi := 0\<rparr> = bss" by (simp add: bss_def)
  then show ?thesis using init_task_kinv[OF assms, of 0] by (auto simp: boot_def)
qed

section \<open>The machine\<close>

text \<open>
  One step: the running task computes (only its own user registers change, and \<^verbatim>\<open>main\<close> idles), it
  traps, an interrupt arrives, or a task that was switched in goes on in the kernel. Interrupts are
  disabled in the kernel, so a task in the middle of a kernel call is resumed first.
\<close>

inductive kstep :: "mem_view \<Rightarrow> kstate \<Rightarrow> kstate \<Rightarrow> bool" for m where
  user: "\<lbrakk>halted s = None; kcont (pcb s (current_running s)) = K_exit;
     s' = upd_pcb s (current_running s) (\<lambda>c. c\<lparr>user_regs_context := r\<rparr>)\<rbrakk> \<Longrightarrow> kstep m s s'"
| trap: "\<lbrakk>halted s = None; kcont (pcb s (current_running s)) = K_exit; current_running s \<noteq> 0;
     syscall_ok m s; system_call_helper m v s = Some s'\<rbrakk> \<Longrightarrow> kstep m s s'"
| irq: "\<lbrakk>halted s = None; kcont (pcb s (current_running s)) = K_exit; interrupt_helper sr s = Some s'\<rbrakk>
     \<Longrightarrow> kstep m s s'"
| go_on: "\<lbrakk>halted s = None; kcont (pcb s (current_running s)) \<noteq> K_exit; resume s = Some s'\<rbrakk>
     \<Longrightarrow> kstep m s s'"

inductive reachable :: "mem_view \<Rightarrow> task_info_t \<Rightarrow> task_info_t \<Rightarrow> kstate \<Rightarrow> bool" for m sh io where
  booted: "boot sh io = Some s \<Longrightarrow> reachable m sh io s"
| stepped: "reachable m sh io s \<Longrightarrow> kstep m s s' \<Longrightarrow> reachable m sh io s'"

inductive_cases kstepE: "kstep m s s'"

inductive_simps reachable_simps: "reachable m sh io s"

lemma kstep_inv:
  assumes "kstep m s s'" and inv: "kernel_inv s"
  shows "kernel_inv s'"
  using assms(1)
proof cases
  case (user r)
  obtain qs fs where "kinv s qs fs" using inv by (auto simp: kernel_inv_def)
  then have "kinv s' qs fs" by (rule kinv_inert) (simp_all add: user inert_def)
  then show ?thesis by (auto simp: kernel_inv_def)
next
  case (trap v)
  then show ?thesis using system_call_helper_inv[OF inv, of m v] by auto
next
  case (irq sr)
  then show ?thesis using interrupt_helper_inv[OF inv, of sr] by auto
next
  case go_on
  then show ?thesis using resume_inv[OF inv] by auto
qed

lemma reachable_inv:
  assumes "reachable m sh io s" and "1 \<le> ti_priority sh" and "1 \<le> ti_priority io"
  shows "kernel_inv s"
  using assms
proof (induction rule: reachable.induct)
  case (booted s)
  then show ?case using boot_kinv[of sh io] by (auto simp: kernel_inv_def)
next
  case (stepped s s')
  then show ?case using kstep_inv by blast
qed

text \<open>A machine that has not panicked always has a step, and no handler faults.\<close>

lemma reachable_safe:
  assumes "reachable m sh io s" and "1 \<le> ti_priority sh" and "1 \<le> ti_priority io" and "halted s = None"
  shows "\<exists>s'. interrupt_helper sr s = Some s'" and "\<exists>s'. resume s = Some s'"
    and "current_running s \<noteq> 0 \<Longrightarrow> syscall_ok m s \<Longrightarrow> \<exists>s'. system_call_helper m v s = Some s'"
  using interrupt_helper_inv[OF reachable_inv[OF assms(1-3)] assms(4)]
    resume_inv[OF reachable_inv[OF assms(1-3)] assms(4)]
    system_call_helper_inv[OF reachable_inv[OF assms(1-3)] assms(4)] by blast+

section \<open>The first tasks\<close>

text \<open>\<^verbatim>\<open>shell\<close> (\<^verbatim>\<open>kernel/software/shell.c\<close>) and \<^verbatim>\<open>io_proc\<close> (\<^verbatim>\<open>io_proc.c\<close>); the linker decides the entry point.\<close>

definition info_shell :: "u32 \<Rightarrow> task_info_t" where
  "info_shell sw_shell = \<lparr>entry_point = sw_shell, ti_type = USER_PROCESS, ti_priority = 1, ti_name = ''shell''\<rparr>"

definition info_io_proc :: "u32 \<Rightarrow> task_info_t" where
  "info_io_proc sw_io_proc = \<lparr>entry_point = sw_io_proc, ti_type = USER_PROCESS, ti_priority = 1, ti_name = ''io_proc''\<rparr>"

text \<open>States that exist: the state after booting these two tasks, and the state after the first switch.\<close>

abbreviation boot_queues :: "qid \<Rightarrow> nat list" where
  "boot_queues \<equiv> (\<lambda>_. [])(ReadyQ := [1, 2])"

lemma booted_state:
  obtains s where "boot (info_shell 0xa0801000) (info_io_proc 0xa0802000) = Some s" "idle s"
    "kinv s boot_queues [3..<MAX_TASK_NUM]"
  using boot_kinv[of "info_shell 0xa0801000" "info_io_proc 0xa0802000"]
  by (auto simp: info_shell_def info_io_proc_def)

lemma running_state:
  obtains s where "kinv s boot_queues [3..<MAX_TASK_NUM]" "halted s = None"
    "current_running s \<in> set (boot_queues ReadyQ)" "\<And>l. locks s l = \<lparr>lk_status = UNLOCKED, lk_owner = 0\<rparr>"
proof -
  obtain s where s: "idle s" "kinv s boot_queues [3..<MAX_TASK_NUM]" by (rule booted_state) blast
  obtain s' where s': "do_scheduler K_exit s = Some s'" "sched_inv s' boot_queues [3..<MAX_TASK_NUM]" "sched_frame s s'"
    "switched K_exit (boot_queues ReadyQ) s s'"
    using do_scheduler_inv[OF kinvD(1)[OF s(2)], of K_exit] by blast
  have h: "halted s = None" using s(1) by (simp add: idle_def)
  have "kinv s' boot_queues [3..<MAX_TASK_NUM]"
    using s' h kinvD(2)[OF s(2)] lock_inv_frame[OF kinvD(4)[OF s(2)] s'(3)]
    by (intro kinv_switched[OF s(2) h s'(2), of K_exit s]) auto
  moreover have "halted s' = None" "current_running s' \<in> set (boot_queues ReadyQ)"
    using s'(4) h by (auto simp: switched_def best_def)
  moreover have "locks s' l = \<lparr>lk_status = UNLOCKED, lk_owner = 0\<rparr>" for l
    using s'(3) s(1) by (simp add: sched_frame_def idle_def)
  ultimately show ?thesis by (rule that)
qed

end
