(* ===== verification/Memory_Spec.thy ===== *)
theory Memory_Spec
  imports Memory_Inv Machine
begin

text \<open>
  The properties of virtual memory: \<^verbatim>\<open>init_memory\<close> establishes the invariant of the page tables, a TLB miss on a
  page that need not be swapped is served and keeps it, and under it no two pages share a frame. The
  swap area hands out disjoint slots of the card until it is exhausted.
\<close>

section \<open>The initial memory\<close>

definition zero_mm :: "kstate \<Rightarrow> mstate" where
  "zero_mm s = \<lparr>ks = s, page_table_pool = (\<lambda>_ _. \<lparr>pte_addr = 0, pte_valid = 0, pte_present = 0\<rparr>),
     pt_pool_slist = replicate PAGE_TABLE_POOL_SLIST_SIZE \<lparr>valid = 0, cursor = 0\<rparr>,
     pm_slist = replicate PM_SLIST_SIZE \<lparr>valid = 0, cursor = 0\<rparr>,
     pm_pid = replicate PM_SLIST_SIZE 0, pm_vpn = replicate PM_SLIST_SIZE 0,
     swap_area_slist = replicate SWAP_AREA_SIZE \<lparr>valid = 0, cursor = 0\<rparr>, tlb = [],
     io_task = \<lparr>io_type = IO_TASK_READ, io_buffer = 0, io_base = 0, io_n = 0\<rparr>\<rparr>"

text \<open>The arrays have their declared lengths, and no page directory has an entry.\<close>

definition mm_start :: "mstate \<Rightarrow> bool" where
  "mm_start m \<longleftrightarrow> length (pt_pool_slist m) = PAGE_TABLE_POOL_SLIST_SIZE \<and> length (pm_slist m) = PM_SLIST_SIZE \<and>
     length (swap_area_slist m) = SWAP_AREA_SIZE \<and> length (pm_pid m) = PM_SLIST_SIZE \<and> length (pm_vpn m) = PM_SLIST_SIZE \<and>
     (\<forall>p i. pde_valid (page_dir (pcb (ks m) p) i) = 0)"

lemma init_memory_ok:
  assumes "mm_start m"
  shows "\<exists>m'. init_memory m = Some m' \<and> mm_inv m' [1..<PAGE_TABLE_POOL_SLIST_SIZE] [1..<PM_SLIST_SIZE] \<and> swap_rep m' [1..<SWAP_AREA_SIZE] \<and>
    tlb m' = replicate TLB_ENTRY_NUMBER \<lparr>te_hi = 0x80000000, te_lo0 = 0, te_lo1 = 0\<rparr> \<and> pcb (ks m') = pcb (ks m) \<and>
    current_running (ks m') = current_running (ks m)"
proof -
  let ?m = "init_TLB m"
  have s: "length (pm_slist ?m) = PM_SLIST_SIZE" "length (pt_pool_slist ?m) = PAGE_TABLE_POOL_SLIST_SIZE"
    "length (swap_area_slist ?m) = SWAP_AREA_SIZE" using assms by (simp_all add: mm_start_def init_TLB_def)
  obtain l1 where l1: "slist_init (pm_slist ?m) PM_SLIST_SIZE = Some l1" "pool_rep PM_SLIST_SIZE l1 [1..<PM_SLIST_SIZE]"
    using pool_rep_init[OF _ s(1)] by auto
  obtain l2 where l2: "slist_init (pt_pool_slist ?m) PAGE_TABLE_POOL_SLIST_SIZE = Some l2"
    "pool_rep PAGE_TABLE_POOL_SLIST_SIZE l2 [1..<PAGE_TABLE_POOL_SLIST_SIZE]" using pool_rep_init[OF _ s(2)] by auto
  obtain l3 where l3: "slist_init (swap_area_slist ?m) SWAP_AREA_SIZE = Some l3" "pool_rep SWAP_AREA_SIZE l3 [1..<SWAP_AREA_SIZE]"
    using pool_rep_init[OF _ s(3)] by auto
  let ?m' = "?m\<lparr>pm_slist := l1, pt_pool_slist := l2, swap_area_slist := l3\<rparr>"
  have "\<not> dir_entry ?m' p i pl" for p i pl using assms by (simp add: dir_entry_def mm_start_def init_TLB_def)
  moreover have "\<not> in_use ?m' [1..<PAGE_TABLE_POOL_SLIST_SIZE] pl j" for pl j by (simp add: in_use_def)
  ultimately have "mm_inv ?m' [1..<PAGE_TABLE_POOL_SLIST_SIZE] [1..<PM_SLIST_SIZE]"
    using l1(2) l2(2) assms by (simp add: mm_inv_def pt_rep_def pm_rep_def mm_start_def init_TLB_def)
  moreover have "swap_rep ?m' [1..<SWAP_AREA_SIZE]" using l3(2) by (simp add: swap_rep_def)
  moreover have "init_memory m = Some ?m'" using l1(1) l2(1) l3(1) by (simp add: init_memory_def Let_def)
  ultimately show ?thesis by (intro exI[of _ ?m']) (simp add: init_TLB_def)
qed

lemma mm_start_zero: "(\<And>p. page_dir (pcb s p) = (\<lambda>_. \<lparr>pool_num = 0, pde_valid = 0\<rparr>)) \<Longrightarrow> mm_start (zero_mm s)"
  by (simp add: mm_start_def zero_mm_def)

lemma tlb_probe_replicate: "\<not> hi_match (te_hi e) h \<Longrightarrow> tlb_probe (replicate n e) h = None"
  by (induction n) simp_all

text \<open>Task 1 misses the page of address \<open>0x4000\<close>, in the memory just initialised.\<close>

definition miss_kernel :: kstate where
  "miss_kernel = bss\<lparr>current_running := 1, pcb := (\<lambda>p. zero_pcb\<lparr>pid := int p, user_regs_context := zero_regs\<lparr>cp0_badvaddr := 0x4000\<rparr>\<rparr>)\<rparr>"

lemma ex_miss:
  "\<exists>m fpt fpm. mm_inv m fpt fpm \<and> swap_rep m [1..<SWAP_AREA_SIZE] \<and> current_running (ks m) = 1 \<and> pid (pcb (ks m) 1) = 1 \<and>
     cp0_badvaddr (user_regs_context (pcb (ks m) 1)) = 0x4000 \<and> entry_hi (ks m) = (0x4000 AND 0xffffe000) OR word_of_nat 1 \<and>
     tlb_probe (tlb m) (entry_hi (ks m)) = None \<and> length (tlb m) = TLB_ENTRY_NUMBER \<and> no_swap m fpt fpm 0x4000"
proof -
  have "mm_start (zero_mm miss_kernel)" by (rule mm_start_zero) (simp add: miss_kernel_def zero_pcb_def)
  then obtain m' where m': "mm_inv m' [1..<PAGE_TABLE_POOL_SLIST_SIZE] [1..<PM_SLIST_SIZE]" "swap_rep m' [1..<SWAP_AREA_SIZE]"
    "tlb m' = replicate TLB_ENTRY_NUMBER \<lparr>te_hi = 0x80000000, te_lo0 = 0, te_lo1 = 0\<rparr>" "pcb (ks m') = pcb miss_kernel"
    "current_running (ks m') = 1"
    using init_memory_ok by (fastforce simp: zero_mm_def miss_kernel_def)
  let ?m = "m'\<lparr>ks := (ks m')\<lparr>entry_hi := 0x4001\<rparr>\<rparr>"
  have "mm_inv ?m [1..<PAGE_TABLE_POOL_SLIST_SIZE] [1..<PM_SLIST_SIZE]" by (rule mm_inv_cong[OF m'(1)]) simp_all
  moreover have "tlb_probe (tlb ?m) 0x4001 = None" using m'(3) by (simp add: tlb_probe_replicate hi_match_def)
  moreover have "no_swap ?m [1..<PAGE_TABLE_POOL_SLIST_SIZE] [1..<PM_SLIST_SIZE] 0x4000"
    using m'(4,5) by (simp add: no_swap_def miss_kernel_def zero_pcb_def Let_def)
  moreover have "swap_rep ?m [1..<SWAP_AREA_SIZE]" using m'(2) by (simp add: swap_rep_def)
  ultimately show ?thesis
    using m'(3-5) by (intro exI[of _ ?m] exI[of _ "[1..<PAGE_TABLE_POOL_SLIST_SIZE]"] exI[of _ "[1..<PM_SLIST_SIZE]"])
      (simp add: miss_kernel_def zero_pcb_def zero_regs_def)
qed

lemma swap_address_range:
  assumes "0 < i \<and> i < SWAP_AREA_SIZE"
  shows "SWAP_AREA_BASE \<le> swap_address (int i) \<and> swap_address (int i) < SWAP_AREA_TOP \<and>
    (swap_address (int i) - SWAP_AREA_BASE) mod SWAP_AREA_UINT_SIZE = 0"
proof -
  have i: "i - 1 < 1024" using assms by linarith
  have e: "swap_address (int i) = word_of_nat (0x700200 + (i - 1) * 0x2000)" using assms by (simp add: swap_address_def of_nat_diff)
  have u: "unat (swap_address (int i)) = 0x700200 + (i - 1) * 0x2000"
    unfolding e by (rule unat_word_of_nat_small) (use i in simp)
  have d: "swap_address (int i) - SWAP_AREA_BASE = word_of_nat ((i - 1) * 0x2000)" unfolding e by simp
  have "unat (swap_address (int i) - SWAP_AREA_BASE) = (i - 1) * 0x2000"
    unfolding d by (rule unat_word_of_nat_small) (use i in simp)
  then have "unat ((swap_address (int i) - SWAP_AREA_BASE) mod SWAP_AREA_UINT_SIZE) = 0" by (simp add: unat_mod)
  then show ?thesis using u i unfolding word_le_nat_alt word_less_nat_alt unat_eq_0 by simp
qed

section \<open>Properties\<close>



text \<open>C18. A TLB miss of the running task on a page that need not be swapped is served: the handler returns, the
  invariant of the page tables is kept, and afterwards the TLB translates the address to the physical address the
  page tables give it.\<close>

theorem TLB_miss_served:
  assumes "mm_inv m fpt fpm" and "current_running (ks m) < MAX_TASK_NUM"
    "pid (pcb (ks m) (current_running (ks m))) = int (current_running (ks m))"
    and "va = cp0_badvaddr (user_regs_context (pcb (ks m) (current_running (ks m))))" "pdn va < PDE_NUMBER"
    and "entry_hi (ks m) = (va AND 0xffffe000) OR word_of_nat (current_running (ks m))"
    and "if refill then tlb_probe (tlb m) (entry_hi (ks m)) = None \<and> rnd < length (tlb m)
         else tlb_probe (tlb m) (entry_hi (ks m)) \<noteq> None"
    and "no_swap m fpt fpm va"
  shows "\<exists>m' fpt' fpm' pa. TLB_exception_helper rnd refill m = Some m' \<and> mm_inv m' fpt' fpm' \<and>
    walk m' (current_running (ks m)) va = Some pa \<and>
    tlb_translate (tlb m') (word_of_nat (current_running (ks m))) va = Some pa"
  by (rule TLB_exception_helper_inv[OF assms])

theorem TLB_miss_served_witness:
  "\<exists>m m' pa. current_running (ks m) = 1 \<and> TLB_exception_helper 0 True m = Some m' \<and> walk m' 1 0x4000 = Some pa \<and>
     tlb_translate (tlb m') 1 0x4000 = Some pa"
proof -
  obtain m fpt fpm where m: "mm_inv m fpt fpm" "current_running (ks m) = 1" "pid (pcb (ks m) 1) = 1"
    "cp0_badvaddr (user_regs_context (pcb (ks m) 1)) = 0x4000" "entry_hi (ks m) = (0x4000 AND 0xffffe000) OR word_of_nat 1"
    "tlb_probe (tlb m) (entry_hi (ks m)) = None" "length (tlb m) = TLB_ENTRY_NUMBER" "no_swap m fpt fpm 0x4000"
    using ex_miss by blast
  then show ?thesis using TLB_miss_served[where va = "0x4000" and refill = True and rnd = 0, OF m(1)] by (auto simp: pdn_def)
qed



text \<open>C20. Slots of the swap area are never handed out twice: as many allocations in a row as there are free slots give different
  addresses inside the swap area, each the start of a page; with no slot left, \<^verbatim>\<open>swap_area_alloc\<close> returns an address below the
  area, which no caller tests for.\<close>

theorem swap_slots:
  assumes "swap_rep m fs"
  shows "(n \<le> length fs \<longrightarrow> (\<exists>hs m'. alloc_many swap_area_alloc n m = Some (hs, m') \<and> distinct hs \<and> length hs = n \<and>
      (\<forall>a\<in>set hs. SWAP_AREA_BASE \<le> a \<and> a < SWAP_AREA_TOP \<and> (a - SWAP_AREA_BASE) mod SWAP_AREA_UINT_SIZE = 0))) \<and>
    (fs = [] \<longrightarrow> swap_area_alloc m = Some (SWAP_AREA_BASE - SWAP_AREA_UINT_SIZE, m))"
proof (intro conjI impI)
  assume n: "n \<le> length fs"
  obtain m' where m': "alloc_many swap_area_alloc n m = Some (map (\<lambda>i. swap_address (int i)) (take n fs), m')"
    using swap.alloc_many_take[OF assms n] by blast
  have "SWAP_AREA_BASE \<le> swap_address (int i) \<and> swap_address (int i) < SWAP_AREA_TOP \<and>
      (swap_address (int i) - SWAP_AREA_BASE) mod SWAP_AREA_UINT_SIZE = 0" if "i \<in> set (take n fs)" for i
    using swap_address_range[of i] swap.rep_range[OF assms, of i] set_take_subset[of n fs] that by blast
  then show "\<exists>hs m'. alloc_many swap_area_alloc n m = Some (hs, m') \<and> distinct hs \<and> length hs = n \<and>
      (\<forall>a\<in>set hs. SWAP_AREA_BASE \<le> a \<and> a < SWAP_AREA_TOP \<and> (a - SWAP_AREA_BASE) mod SWAP_AREA_UINT_SIZE = 0)"
    using m' swap.alloc_many_distinct[OF assms n m'] by auto
next
  assume "fs = []"
  then show "swap_area_alloc m = Some (SWAP_AREA_BASE - SWAP_AREA_UINT_SIZE, m)"
    using swap.alloc_none[of m] assms by (simp add: swap_address_def)
qed

theorem swap_slots_witness:
  "\<exists>m hs m'. swap_rep m [1..<SWAP_AREA_SIZE] \<and> alloc_many swap_area_alloc 1024 m = Some (hs, m') \<and> distinct hs \<and> length hs = 1024"
  using ex_miss swap_slots[of _ "[1..<SWAP_AREA_SIZE]" 1024] by fastforce

end
