(* ===== verification/CString.thy ===== *)
theory CString
  imports Prelude
begin

text \<open>
  The string routines of \<^verbatim>\<open>libs/string.c\<close>, \<^verbatim>\<open>memcopy\<close> of \<^verbatim>\<open>arch/mips/pmon/common.c\<close> and \<^verbatim>\<open>atoi\<close> of
  \<^verbatim>\<open>kernel/software/shell.c\<close>. A \<^verbatim>\<open>char *\<close> is the list of bytes from the pointer to the end of its
  array, so that advancing the pointer drops bytes and running off the array is \<open>None\<close>. The meaning of
  such a pointer is the string \<open>cstr s\<close> up to the terminator. \<^verbatim>\<open>memcopy\<close> works on an address space,
  because its operands may overlap.
\<close>

section \<open>Operations\<close>

fun strlen :: "u8 list \<Rightarrow> nat option" where
  "strlen [] = None"
| "strlen (c # s) = (if c \<noteq> 0 then map_option Suc (strlen s) else Some 0)"

fun strcmp :: "u8 list \<Rightarrow> u8 list \<Rightarrow> int option" where
  "strcmp (c # s) (d # t) = (if c = d \<and> c \<noteq> 0 then strcmp s t else Some (sint c - sint d))"
| "strcmp _ _ = None"

fun strcpy :: "u8 list \<Rightarrow> u8 list \<Rightarrow> u8 list option" where
  "strcpy (d # dest) (c # src) = (if c \<noteq> 0 then map_option ((#) c) (strcpy dest src) else Some (0 # dest))"
| "strcpy _ _ = None"

fun memset_loop :: "u8 list \<Rightarrow> u8 \<Rightarrow> nat \<Rightarrow> u8 list option" where
  "memset_loop dst val 0 = Some dst"
| "memset_loop [] val (Suc n) = None"
| "memset_loop (d # dst) val (Suc n) = map_option ((#) val) (memset_loop dst val n)"

definition memset :: "u8 list \<Rightarrow> u8 \<Rightarrow> u32 \<Rightarrow> u8 list option" where
  "memset dest val len = memset_loop dest val (unat len)"

text \<open>The loop of \<^verbatim>\<open>separate\<close> from index \<open>i\<close>, with \<open>s\<close> the rest of the string.\<close>

fun separate_loop :: "u8 list \<Rightarrow> u8 \<Rightarrow> int \<Rightarrow> int option" where
  "separate_loop [] separator i = None"
| "separate_loop (c # s) separator i =
     (if c \<noteq> 0 \<and> c \<noteq> separator then separate_loop s separator (i + 1)
      else Some (if c \<noteq> 0 then i else -1))"

definition separate :: "u8 list \<Rightarrow> u8 \<Rightarrow> int option" where
  "separate s separator = separate_loop s separator 0"

fun atoi_loop :: "u8 list \<Rightarrow> int \<Rightarrow> int option" where
  "atoi_loop [] res = None"
| "atoi_loop (c # s) res =
     (if c = 0 then Some res
      else if 48 \<le> c \<and> c \<le> 57 then atoi_loop s (res * 10 + uint c - 48)
      else Some (-1))"

definition atoi :: "u8 list \<Rightarrow> int option" where
  "atoi s = atoi_loop s 0"

text \<open>\<^verbatim>\<open>memcopy\<close>: the loop that runs down and the loop that runs up.\<close>

fun copy_down :: "(u32 \<Rightarrow> u8) \<Rightarrow> u32 \<Rightarrow> u32 \<Rightarrow> nat \<Rightarrow> (u32 \<Rightarrow> u8)" where
  "copy_down mem t f 0 = mem"
| "copy_down mem t f (Suc n) = copy_down (mem(t - 1 := mem (f - 1))) (t - 1) (f - 1) n"

fun copy_up :: "(u32 \<Rightarrow> u8) \<Rightarrow> u32 \<Rightarrow> u32 \<Rightarrow> nat \<Rightarrow> (u32 \<Rightarrow> u8)" where
  "copy_up mem t f 0 = mem"
| "copy_up mem t f (Suc n) = copy_up (mem(t := mem f)) (t + 1) (f + 1) n"

definition memcopy :: "(u32 \<Rightarrow> u8) \<Rightarrow> u32 \<Rightarrow> u32 \<Rightarrow> int \<Rightarrow> (u32 \<Rightarrow> u8)" where
  "memcopy mem s1 s2 n =
     (if s2 < s1 then copy_down mem (s1 + word_of_int n) (s2 + word_of_int n) (nat n)
      else copy_up mem s1 s2 (nat n))"

section \<open>The string behind a pointer\<close>

definition cstr :: "u8 list \<Rightarrow> u8 list" where
  "cstr s = takeWhile (\<lambda>c. c \<noteq> 0) s"

definition terminated :: "u8 list \<Rightarrow> bool" where
  "terminated s \<longleftrightarrow> 0 \<in> set s"

lemma cstr_simps [simp]:
  "cstr [] = []" "cstr (0 # s) = []" "c \<noteq> 0 \<Longrightarrow> cstr (c # s) = c # cstr s"
  by (simp_all add: cstr_def)

lemma terminated_simps [simp]:
  "\<not> terminated []" "terminated (0 # s)" "c \<noteq> 0 \<Longrightarrow> terminated (c # s) = terminated s"
  by (auto simp: terminated_def)

lemma cstr_nonzero: "0 \<notin> set (cstr s)"
  by (auto simp: cstr_def dest: set_takeWhileD)

lemma terminated_split: "terminated s \<Longrightarrow> \<exists>r. s = cstr s @ 0 # r"
proof (induction s)
  case (Cons c s)
  then show ?case by (cases "c = 0") auto
qed simp

lemma cstr_append: "0 \<notin> set xs \<Longrightarrow> cstr (xs @ 0 # r) = xs"
  by (induction xs) auto

lemma strlen_None: "strlen s = None \<longleftrightarrow> \<not> terminated s"
  by (induction s) auto

lemma strlen_eq: "terminated s \<Longrightarrow> strlen s = Some (length (cstr s))"
  by (induction s) auto

lemma sint_u8_inj: "sint (c :: u8) - sint d = 0 \<longleftrightarrow> c = d"
  using word_eq_iff_signed[of c d, where 'a = int] by auto

lemma strcmp_total: "terminated s \<Longrightarrow> terminated t \<Longrightarrow> \<exists>r. strcmp s t = Some r \<and> (r = 0 \<longleftrightarrow> cstr s = cstr t)"
proof (induction s t rule: strcmp.induct)
  case (1 c s d t)
  then show ?case
    using sint_u8_inj[of c d] by (cases "c = 0"; cases "d = 0"; cases "c = d") auto
qed auto

text \<open>\<^verbatim>\<open>strcpy\<close> succeeds exactly when the string and its terminator fit.\<close>

lemma strcpy_fits:
  assumes "terminated s" "length (cstr s) < length d"
  shows "strcpy d s = Some (cstr s @ 0 # drop (Suc (length (cstr s))) d)"
  using assms
proof (induction d s rule: strcpy.induct)
  case (1 d dest c src)
  then show ?case by (cases "c = 0") auto
qed auto

lemma strcpy_overflow: "length d \<le> length (cstr s) \<Longrightarrow> strcpy d s = None"
proof (induction d s rule: strcpy.induct)
  case (1 d dest c src)
  then show ?case by (cases "c = 0") auto
qed auto

lemma memset_loop_eq: "n \<le> length d \<Longrightarrow> memset_loop d v n = Some (replicate n v @ drop n d)"
  by (induction d v n rule: memset_loop.induct) auto

lemma separate_loop_eq:
  "terminated s \<Longrightarrow> separate_loop s c i =
     Some (if c \<in> set (cstr s) then i + int (length (takeWhile (\<lambda>x. x \<noteq> c) (cstr s))) else -1)"
proof (induction s arbitrary: i)
  case (Cons x s)
  then show ?case by (cases "x = 0"; cases "x = c") auto
qed simp

lemma separate_eq:
  "terminated s \<Longrightarrow> separate s c =
     Some (if c \<in> set (cstr s) then int (length (takeWhile (\<lambda>x. x \<noteq> c) (cstr s))) else -1)"
  by (simp add: separate_def separate_loop_eq)

section \<open>Numbers\<close>

definition digit :: "u8 \<Rightarrow> bool" where
  "digit c \<longleftrightarrow> 48 \<le> c \<and> c \<le> 57"

definition dec_val :: "u8 list \<Rightarrow> int \<Rightarrow> int" where
  "dec_val ds r = foldl (\<lambda>v c. v * 10 + (uint c - 48)) r ds"

lemma atoi_loop_digits:
  "terminated s \<Longrightarrow> list_all digit (cstr s) \<Longrightarrow> atoi_loop s r = Some (dec_val (cstr s) r)"
proof (induction s arbitrary: r)
  case (Cons c s)
  then show ?case by (cases "c = 0") (auto simp: digit_def dec_val_def algebra_simps)
qed simp

lemma atoi_loop_bad: "terminated s \<Longrightarrow> \<not> list_all digit (cstr s) \<Longrightarrow> atoi_loop s r = Some (-1)"
proof (induction s arbitrary: r)
  case (Cons c s)
  then show ?case by (cases "c = 0") (auto simp: digit_def)
qed simp

section \<open>Overlapping copies\<close>

text \<open>Addresses \<open>a\<close> with \<open>t \<le> a < t + n\<close>, without wrap-around.\<close>

definition region :: "u32 \<Rightarrow> nat \<Rightarrow> bool" where
  "region t n \<longleftrightarrow> unat t + n \<le> 2 ^ 32"

text \<open>The result every copy must have: the \<open>n\<close> bytes at \<open>f\<close>, as they were, are at \<open>t\<close>.\<close>

definition moved :: "(u32 \<Rightarrow> u8) \<Rightarrow> u32 \<Rightarrow> u32 \<Rightarrow> nat \<Rightarrow> (u32 \<Rightarrow> u8)" where
  "moved mem t f n = (\<lambda>a. if unat a - unat t < n \<and> t \<le> a then mem (f + (a - t)) else mem a)"

lemma unat_next: "unat t + Suc n \<le> 2 ^ 32 \<Longrightarrow> 0 < n \<Longrightarrow> unat (t + 1 :: u32) = Suc (unat t)"
  by (simp add: unat_plus_if')

lemma copy_up_eq:
  "t \<le> f \<Longrightarrow> region t n \<Longrightarrow> region f n \<Longrightarrow> copy_up mem t f n = moved mem t f n"
proof (induction n arbitrary: mem t f)
  case 0
  then show ?case by (simp add: moved_def)
next
  case (Suc n)
  let ?m = "mem(t := mem f)"
  show ?case
  proof (cases "n = 0")
    case True
    then show ?thesis by (auto simp: moved_def fun_eq_iff word_le_nat_alt dest: word_unat_eq_iff[THEN iffD2])
  next
    case False
    then have n: "unat (t + 1) = Suc (unat t)" "unat (f + 1) = Suc (unat f)"
      using Suc.prems by (simp_all add: region_def unat_next[of _ n])
    then have "copy_up ?m (t + 1) (f + 1) n = moved ?m (t + 1) (f + 1) n"
      using Suc.prems by (intro Suc.IH) (simp_all add: region_def word_le_nat_alt)
    moreover have "moved ?m (t + 1) (f + 1) n a = moved mem t f (Suc n) a" for a
    proof (cases "a = t")
      case True
      then show ?thesis using n by (simp add: moved_def word_le_nat_alt)
    next
      case ne: False
      have eq: "f + 1 + (a - (t + 1)) = f + (a - t)" by simp
      have "f + (a - t) \<noteq> t" if "t \<le> a" "unat a - unat t < Suc n"
      proof -
        have "unat (f + (a - t)) = unat f + (unat a - unat t)"
          using that Suc.prems by (simp add: unat_plus_if' unat_sub_if' word_le_nat_alt region_def)
        moreover have "unat t < unat a" using that ne by (metis le_neq_implies_less word_le_nat_alt word_unat_eq_iff)
        ultimately have "unat (f + (a - t)) \<noteq> unat t" using Suc.prems(1) by (simp add: word_le_nat_alt)
        then show ?thesis by metis
      qed
      moreover have "unat a \<noteq> unat t" using ne by (simp add: word_unat_eq_iff)
      then have "t + 1 \<le> a \<longleftrightarrow> t \<le> a" using n(1) by (auto simp: word_le_nat_alt)
      ultimately show ?thesis
        using ne n(1) unfolding moved_def eq by (auto simp: word_le_nat_alt)
    qed
    ultimately show ?thesis by (auto simp: fun_eq_iff)
  qed
qed

lemma copy_down_eq:
  "f < t \<Longrightarrow> region t n \<Longrightarrow> region f n \<Longrightarrow> copy_down mem (t + word_of_nat n) (f + word_of_nat n) n = moved mem t f n"
proof (induction n arbitrary: mem)
  case 0
  then show ?case by (simp add: moved_def)
next
  case (Suc n)
  let ?k = "word_of_nat n :: u32"
  let ?m = "mem(t + ?k := mem (f + ?k))"
  have k: "unat (t + ?k) = unat t + n" "unat (f + ?k) = unat f + n"
    using Suc.prems by (simp_all add: unat_plus_if' region_def unat_of_nat)
  have "copy_down mem (t + word_of_nat (Suc n)) (f + word_of_nat (Suc n)) (Suc n) = moved ?m t f n"
    using Suc.IH[of ?m] Suc.prems by (simp add: region_def algebra_simps del: fun_upd_apply)
  moreover have "moved ?m t f n a = moved mem t f (Suc n) a" for a
  proof (cases "a = t + ?k")
    case True
    then show ?thesis using k by (simp add: moved_def word_le_nat_alt)
  next
    case False
    then have ne: "unat a \<noteq> unat t + n" using k by (auto simp: word_unat_eq_iff)
    have "f + (a - t) \<noteq> t + ?k" if "t \<le> a" "unat a - unat t < n"
    proof -
      have "unat (f + (a - t)) = unat f + (unat a - unat t)"
        using that Suc.prems by (simp add: unat_plus_if' unat_sub_if' word_le_nat_alt region_def)
      then have "unat (f + (a - t)) \<noteq> unat (t + ?k)" using k(1) that Suc.prems(1) by (simp add: word_less_nat_alt)
      then show ?thesis by metis
    qed
    then show ?thesis using False ne by (auto simp: moved_def word_le_nat_alt)
  qed
  ultimately show ?case by (auto simp: fun_eq_iff)
qed

lemma memcopy_eq:
  assumes "0 \<le> n" and "region s1 (nat n)" and "region s2 (nat n)"
  shows "memcopy mem s1 s2 n = moved mem s1 s2 (nat n)"
  using copy_down_eq[of s2 s1 "nat n" mem] copy_up_eq[of s1 s2 "nat n" mem] assms
  by (auto simp: memcopy_def not_less)

end
