(* ===== verification/Disk.thy ===== *)
theory Disk
  imports CString
begin

text \<open>
  The SD card of \<^verbatim>\<open>arch/mips/pmon/common.c\<close>. The routines of the PMON firmware the code jumps to are
  parameters (record \<open>pmon\<close>): under QEMU a whole transfer, on the LS1C board one 512-byte block.
  \<open>sd_read\<close> and \<open>sd_write\<close> are what a transfer means, on a card that is a function from byte
  addresses; the block loops of \<^verbatim>\<open>sdread\<close> and \<^verbatim>\<open>sdwrite\<close> implement them.
\<close>

type_synonym disk = "u32 \<Rightarrow> u8"

abbreviation SECTOR_SIZE :: nat where "SECTOR_SIZE \<equiv> 512"

definition sd_read :: "disk \<Rightarrow> u32 \<Rightarrow> nat \<Rightarrow> u8 list" where
  "sd_read d base n = map (\<lambda>i. d (base + word_of_nat i)) [0..<n]"

definition sd_write :: "disk \<Rightarrow> u32 \<Rightarrow> u8 list \<Rightarrow> disk" where
  "sd_write d base bs = (\<lambda>a. if unat (a - base) < length bs then bs ! unat (a - base) else d a)"

section \<open>The driver\<close>

text \<open>
  \<open>new_sdcard_read\<close> and \<open>new_sdcard_write\<close> transfer \<open>n\<close> bytes, \<open>Read_Single_Block\<close> reads the block
  with the given number, and \<open>sd_block_write\<close> is the sequence of commands \<^verbatim>\<open>write_block\<close> sends, whose
  data are the 256 half-words in the given order.
\<close>

record pmon =
  isQEMU :: bool
  new_sdcard_read :: "disk \<Rightarrow> u32 \<Rightarrow> nat \<Rightarrow> u8 list"
  new_sdcard_write :: "disk \<Rightarrow> u32 \<Rightarrow> u8 list \<Rightarrow> disk"
  Read_Single_Block :: "disk \<Rightarrow> u32 \<Rightarrow> u8 list"
  sd_block_write :: "disk \<Rightarrow> u32 \<Rightarrow> 16 word list \<Rightarrow> disk"

text \<open>The half-words \<^verbatim>\<open>(write_buffer[2*temp] << 8) | write_buffer[2*temp+1]\<close> of \<^verbatim>\<open>write_block\<close>.\<close>

fun block_words :: "u8 list \<Rightarrow> 16 word list" where
  "block_words (a # b # r) = (push_bit 8 (ucast a) OR ucast b) # block_words r"
| "block_words _ = []"

definition write_block :: "pmon \<Rightarrow> disk \<Rightarrow> u32 \<Rightarrow> u8 list \<Rightarrow> disk" where
  "write_block fw d write_addr write_buffer = sd_block_write fw d write_addr (block_words (take SECTOR_SIZE write_buffer))"

definition once :: "u32 \<Rightarrow> u32 \<Rightarrow> u32" where
  "once pos left = (if 512 - (pos AND 511) < left then 512 - (pos AND 511) else left)"

lemma and_511: "pos AND 511 = take_bit 9 pos" for pos :: u32
  by (simp add: take_bit_eq_mask mask_eq_exp_minus_1)

lemma unat_and_511: "unat (pos AND 511 :: u32) = unat pos mod 512"
  by (simp only: and_511 unsigned_take_bit_eq) (simp add: take_bit_eq_mod)

lemma unat_once: "unat (once pos left) = min (512 - unat pos mod 512) (unat left)"
proof -
  have "unat (512 - (pos AND 511)) = 512 - unat pos mod 512"
    using unat_and_511[of pos] by (simp add: unat_sub_if' less_imp_le)
  then show ?thesis by (auto simp: once_def word_less_nat_alt)
qed

lemma once_pos: "left \<noteq> 0 \<Longrightarrow> 0 < unat (once pos left)"
  by (simp add: unat_once unat_gt_0)

lemma once_le: "unat (left - once pos left) = unat left - unat (once pos left)"
  using unat_once[of pos left] by (simp add: unat_sub_if')

lemma once_less: "left \<noteq> 0 \<Longrightarrow> unat (left - once pos left) < unat left"
  using once_pos[of left pos] by (simp add: once_le unat_once unat_gt_0)

function sdread_loop :: "pmon \<Rightarrow> disk \<Rightarrow> u32 \<Rightarrow> u32 \<Rightarrow> u8 list" where
  "sdread_loop fw d pos left =
     (if left = 0 then []
      else let indexbuf = Read_Single_Block fw d (drop_bit 9 pos); n = once pos left
           in take (unat n) (drop (unat (pos AND 511)) indexbuf) @ sdread_loop fw d (pos + n) (left - n))"
  by pat_completeness auto
termination
  by (relation "measure (\<lambda>(_, _, _, left). unat left)") (auto simp: once_less)

declare sdread_loop.simps [simp del]

definition sdread :: "pmon \<Rightarrow> disk \<Rightarrow> u32 \<Rightarrow> nat \<Rightarrow> u8 list" where
  "sdread fw d base n = (if isQEMU fw then new_sdcard_read fw d base n else sdread_loop fw d base (word_of_nat n))"

text \<open>The block buffer of \<^verbatim>\<open>sdwrite\<close> keeps what it held outside the bytes that are copied into it.\<close>

function sdwrite_loop :: "pmon \<Rightarrow> disk \<Rightarrow> u8 list \<Rightarrow> u8 list \<Rightarrow> u32 \<Rightarrow> u32 \<Rightarrow> disk" where
  "sdwrite_loop fw d indexbuf buf pos left =
     (if left = 0 then d
      else let n = once pos left; ofs = unat (pos AND 511);
               ib = take ofs indexbuf @ take (unat n) buf @ drop (ofs + unat n) indexbuf
           in sdwrite_loop fw (write_block fw d (drop_bit 9 pos) ib) ib (drop (unat n) buf) (pos + n) (left - n))"
  by pat_completeness auto
termination
  by (relation "measure (\<lambda>(_, _, _, _, _, left). unat left)") (auto simp: once_less)

declare sdwrite_loop.simps [simp del]

definition sdwrite :: "pmon \<Rightarrow> disk \<Rightarrow> u8 list \<Rightarrow> u8 list \<Rightarrow> u32 \<Rightarrow> disk" where
  "sdwrite fw d indexbuf buf base =
     (if isQEMU fw then new_sdcard_write fw d base buf
      else sdwrite_loop fw d indexbuf buf base (word_of_nat (length buf)))"

section \<open>Transfers\<close>

lemma length_sd_read [simp]: "length (sd_read d a n) = n"
  by (simp add: sd_read_def)

lemma sd_read_0 [simp]: "sd_read d a 0 = []"
  by (simp add: sd_read_def)

lemma nth_sd_read [simp]: "i < n \<Longrightarrow> sd_read d a n ! i = d (a + word_of_nat i)"
  by (simp add: sd_read_def)

lemma sd_read_append: "sd_read d a (m + n) = sd_read d a m @ sd_read d (a + word_of_nat m) n"
  by (rule nth_equalityI) (auto simp: nth_append of_nat_diff algebra_simps)

lemma take_drop_sd_read: "i + n \<le> m \<Longrightarrow> take n (drop i (sd_read d a m)) = sd_read d (a + word_of_nat i) n"
  by (rule nth_equalityI) (auto simp: algebra_simps)

lemma sd_read_write_same: "length bs \<le> 2 ^ 32 \<Longrightarrow> sd_read (sd_write d a bs) a (length bs) = bs"
  by (rule nth_equalityI) (auto simp: sd_write_def unat_word_of_nat_small)

definition apart :: "u32 \<Rightarrow> nat \<Rightarrow> u32 \<Rightarrow> nat \<Rightarrow> bool" where
  "apart a m b n \<longleftrightarrow> unat a + m \<le> 2 ^ 32 \<and> unat b + n \<le> 2 ^ 32 \<and> (unat a + m \<le> unat b \<or> unat b + n \<le> unat a)"

lemma sd_read_write_apart:
  assumes "apart a (length bs) b n"
  shows "sd_read (sd_write d a bs) b n = sd_read d b n"
proof (rule nth_equalityI)
  fix i assume "i < length (sd_read (sd_write d a bs) b n)"
  then have i: "i < n" by simp
  have "unat (b + word_of_nat i) = unat b + i"
    using assms i by (simp add: apart_def unat_plus_if' unat_of_nat)
  then have "\<not> unat (b + word_of_nat i - a) < length bs"
    using assms i by (auto simp: apart_def unat_sub_if')
  with i show "sd_read (sd_write d a bs) b n ! i = sd_read d b n ! i" by (simp add: sd_write_def)
qed simp

lemma block_base: "push_bit 9 (drop_bit 9 pos) + (pos AND 511) = pos" for pos :: u32
  unfolding and_511
  by (metis add.commute bits_ident)

lemma sdread_loop_eq:
  assumes rsb: "\<And>d b. Read_Single_Block fw d b = sd_read d (push_bit 9 b) SECTOR_SIZE"
  shows "sdread_loop fw d pos left = sd_read d pos (unat left)"
proof (induction "unat left" arbitrary: pos left rule: less_induct)
  case less
  show ?case
  proof (cases "left = 0")
    case True
    then show ?thesis by (simp add: sdread_loop.simps)
  next
    case False
    let ?n = "once pos left" and ?o = "pos AND 511"
    have n: "unat ?o + unat ?n \<le> SECTOR_SIZE" "unat ?n \<le> unat left"
      using unat_once[of pos left] by (simp_all add: unat_and_511)
    have "sdread_loop fw d pos left
        = take (unat ?n) (drop (unat ?o) (sd_read d (push_bit 9 (drop_bit 9 pos)) SECTOR_SIZE)) @
          sdread_loop fw d (pos + ?n) (left - ?n)"
      using False rsb by (subst sdread_loop.simps) (simp add: Let_def)
    also have "take (unat ?n) (drop (unat ?o) (sd_read d (push_bit 9 (drop_bit 9 pos)) SECTOR_SIZE)) = sd_read d pos (unat ?n)"
      using take_drop_sd_read[OF n(1)] block_base[of pos] by simp
    also have "sdread_loop fw d (pos + ?n) (left - ?n) = sd_read d (pos + ?n) (unat left - unat ?n)"
      using less[OF once_less[OF False]] by (simp add: once_le)
    finally show ?thesis using sd_read_append[of d pos "unat ?n" "unat left - unat ?n"] n(2) by simp
  qed
qed

lemma sd_write_append:
  assumes "unat a + length (xs @ ys) \<le> 2 ^ 32"
  shows "sd_write (sd_write d a xs) (a + word_of_nat (length xs)) ys = sd_write d a (xs @ ys)"
proof
  fix x
  let ?b = "a + word_of_nat (length xs)"
  show "sd_write (sd_write d a xs) ?b ys x = sd_write d a (xs @ ys) x"
  proof (cases "ys = []")
    case True
    then show ?thesis by (simp add: sd_write_def)
  next
    case False
    then have l: "length xs < 2 ^ 32" "0 < length ys" using assms by (cases ys; simp)+
    have b: "unat (x - ?b) = (if length xs \<le> unat (x - a) then unat (x - a) - length xs
                              else unat (x - a) + 2 ^ 32 - length xs)"
    proof -
      have eq: "x - ?b = (x - a) - word_of_nat (length xs)" by simp
      have "unat (y - word_of_nat (length xs)) = (if length xs \<le> unat y then unat y - length xs
          else unat y + 2 ^ 32 - length xs)" for y :: u32
        using l(1) by (simp add: unat_sub_if' unat_word_of_nat_small)
      then show ?thesis unfolding eq .
    qed
    show ?thesis
    proof (cases "length xs \<le> unat (x - a)")
      case True
      then show ?thesis using b by (auto simp: sd_write_def nth_append)
    next
      case False
      then have "\<not> unat (x - ?b) < length ys" using b assms l by simp
      then show ?thesis using False by (auto simp: sd_write_def nth_append)
    qed
  qed
qed

text \<open>The bytes of the half-words the card receives.\<close>

definition word_bytes :: "16 word list \<Rightarrow> u8 list" where
  "word_bytes ws = concat (map (\<lambda>w. [ucast (drop_bit 8 w), ucast w]) ws)"

lemma byte_halves:
  fixes a b :: u8
  shows "ucast (drop_bit 8 (push_bit 8 (ucast a) OR ucast b :: 16 word)) = a"
    and "ucast (push_bit 8 (ucast a) OR ucast b :: 16 word) = b"
  by (rule bit_word_eqI; simp add: bit_simps; fastforce dest: bit_imp_le_length)+

lemma word_bytes_block: "even (length bs) \<Longrightarrow> word_bytes (block_words bs) = bs"
  by (induction bs rule: block_words.induct) (auto simp: word_bytes_def byte_halves simp del: drop_bit_or)

lemma sdwrite_loop_eq:
  assumes bw: "\<And>d b ws. length ws = 256 \<Longrightarrow> sd_block_write fw d b ws = sd_write d (push_bit 9 b) (word_bytes ws)"
  shows "\<lbrakk>length indexbuf = SECTOR_SIZE; length buf = SECTOR_SIZE * k; unat pos mod SECTOR_SIZE = 0;
    unat pos + length buf \<le> 2 ^ 32; length buf < 2 ^ 32\<rbrakk> \<Longrightarrow>
    sdwrite_loop fw d indexbuf buf pos (word_of_nat (length buf)) = sd_write d pos buf"
proof (induction k arbitrary: d indexbuf buf pos)
  case 0
  then show ?case by (simp add: sdwrite_loop.simps sd_write_def)
next
  case (Suc k)
  let ?l = "word_of_nat (length buf) :: u32"
  have l: "unat ?l = length buf" using Suc.prems by (intro unat_word_of_nat_small) simp
  have l0: "?l \<noteq> 0" using l Suc.prems(2) by auto
  have o: "unat (pos AND 511) = 0" using Suc.prems(3) by (simp add: unat_and_511)
  have "unat ?l = SECTOR_SIZE + SECTOR_SIZE * k" unfolding l using Suc.prems(2) by simp
  then have "unat (once pos ?l) = min (SECTOR_SIZE - 0) (SECTOR_SIZE + SECTOR_SIZE * k)"
    using unat_once[of pos ?l] Suc.prems(3) by metis
  then have n: "unat (once pos ?l) = SECTOR_SIZE" by (metis diff_zero le_add1 min_absorb1)
  then have n': "once pos ?l = 512" by (simp add: word_unat_eq_iff)
  let ?b = "take SECTOR_SIZE buf"
  have lb: "length ?b = SECTOR_SIZE" using Suc.prems(2) by simp
  have lw: "even (length bs) \<Longrightarrow> 2 * length (block_words bs) = length bs" for bs
    by (induction bs rule: block_words.induct) auto
  have base: "push_bit 9 (drop_bit 9 pos) = pos" using block_base[of pos] o by (simp add: unat_0_iff)
  have w: "write_block fw d (drop_bit 9 pos) ?b = sd_write d pos ?b"
    using bw[of "block_words ?b"] lw[of ?b] lb base by (simp add: write_block_def word_bytes_block)
  have "sdwrite_loop fw d indexbuf buf pos ?l
      = sdwrite_loop fw (write_block fw d (drop_bit 9 pos) ?b) ?b (drop SECTOR_SIZE buf) (pos + 512) (?l - 512)"
    using l0 o n n' Suc.prems(1) by (subst sdwrite_loop.simps) (simp add: Let_def)
  also have "?l - 512 = word_of_nat (length (drop SECTOR_SIZE buf))"
    using Suc.prems(2) by (simp add: of_nat_diff)
  also have "sdwrite_loop fw (write_block fw d (drop_bit 9 pos) ?b) ?b (drop SECTOR_SIZE buf) (pos + 512) \<dots>
      = sd_write (sd_write d pos ?b) (pos + 512) (drop SECTOR_SIZE buf)"
  proof (cases "k = 0")
    case True
    then show ?thesis using w Suc.prems(2) by (simp add: sdwrite_loop.simps sd_write_def)
  next
    case False
    then have "unat (pos + 512) = unat pos + 512" using Suc.prems(2,4) by (simp add: unat_plus_if')
    then show ?thesis unfolding w using Suc.prems lb by (intro Suc.IH) auto
  qed
  also have "\<dots> = sd_write d pos buf"
    using sd_write_append[of pos ?b "drop SECTOR_SIZE buf" d] lb Suc.prems(4) by simp
  finally show ?case .
qed

end
