(* ===== verification/Io_Proc.thy ===== *)
theory Io_Proc
  imports Memory_Spec Disk
begin

text \<open>
  The input/output process of \<^verbatim>\<open>kernel/software/io_proc.c\<close>, which performs the transfers between a frame and the swap area
  that the handler of page faults asks for, and the contents of a page on its way to the card and back. Memory
  and card are functions from byte addresses; a transfer is what \<^verbatim>\<open>sdread\<close> and \<^verbatim>\<open>sdwrite\<close> are shown to do.
\<close>

section \<open>Operations\<close>

text \<open>The number of the third semaphore, \<^verbatim>\<open>free_io_tasks\<close>.\<close>

abbreviation (input) FREE_IO_TASKS :: nat where "FREE_IO_TASKS \<equiv> 2"

definition io_proc_init :: "kstate \<Rightarrow> kstate" where
  "io_proc_init s = do_semaphore_init (do_semaphore_init (do_semaphore_init s IO_TASKS 0) IO_DONE 0) FREE_IO_TASKS 1"

definition io_transfer :: "io_task_t \<Rightarrow> (u32 \<Rightarrow> u8) \<Rightarrow> disk \<Rightarrow> (u32 \<Rightarrow> u8) \<times> disk" where
  "io_transfer t ram sd =
     (if io_type t = IO_TASK_WRITE
      then (ram, sd_write sd (io_base t) (sd_read ram (io_buffer t) (nat (io_n t))))
      else (sd_write ram (io_buffer t) (sd_read sd (io_base t) (nat (io_n t))), sd))"

text \<open>The body of the loop, from the return of \<^verbatim>\<open>semaphore_down(&io_tasks)\<close> to the next call of it.\<close>

definition io_proc_body :: "mstate \<Rightarrow> (u32 \<Rightarrow> u8) \<Rightarrow> disk \<Rightarrow> (mstate \<times> (u32 \<Rightarrow> u8) \<times> disk) option" where
  "io_proc_body m ram sd =
     do { let (ram1, card1) = io_transfer (io_task m) ram sd;
          s1 \<leftarrow> do_semaphore_up (ks m) IO_DONE;
          s2 \<leftarrow> do_semaphore_down s1 IO_TASKS K_exit;
          Some (m\<lparr>ks := s2\<rparr>, ram1, card1) }"

section \<open>The contents of a page\<close>








section \<open>Properties\<close>








end
