(* ===== verification/Printk.thy ===== *)
theory Printk
  imports CString
begin

text \<open>
  The formatted output of \<^verbatim>\<open>libs/printk.c\<close>: conversion of integers (\<^verbatim>\<open>mini_itoa\<close>), the bounded buffer
  (\<^verbatim>\<open>_putc\<close>, \<^verbatim>\<open>_puts\<close>) and the loop over the format (\<^verbatim>\<open>mini_vsnprintf\<close>). The buffer of a call is the
  list of bytes written so far, whose length is \<^verbatim>\<open>b.pbuffer - b.buffer\<close>. A format is the list of its
  characters without the terminator. The specification is \<open>rendering\<close>, which has no buffer: the code
  prints its first 255 bytes.
\<close>

section \<open>Integers\<close>

fun mini_strlen :: "u8 list \<Rightarrow> nat option" where
  "mini_strlen [] = None"
| "mini_strlen (c # s) = (if c \<noteq> 0 then map_option Suc (mini_strlen s) else Some 0)"

definition itoa_char :: "bool \<Rightarrow> u32 \<Rightarrow> u8" where
  "itoa_char uppercase d = (if d < 10 then 48 + ucast d else (if uppercase then 65 else 97) + ucast d - 10)"

text \<open>
  The \<^verbatim>\<open>do\<close> loop: \<^verbatim>\<open>value % radix\<close> and \<^verbatim>\<open>value /= radix\<close> are unsigned because \<^verbatim>\<open>radix\<close> is, the test
  \<^verbatim>\<open>value > 0\<close> is signed. With a radix below two the code divides by zero or does not end.
\<close>

function itoa_loop :: "u32 \<Rightarrow> u32 \<Rightarrow> bool \<Rightarrow> u8 list" where
  "itoa_loop radix value uppercase =
     (let c = itoa_char uppercase (value mod radix); v = value div radix
      in if 0 < sint v \<and> 2 \<le> radix then c # itoa_loop radix v uppercase else [c])"
  by pat_completeness auto
termination
proof (relation "measure (\<lambda>(_, v, _). unat v)")
  fix radix x v :: u32 and uppercase :: bool
  assume "v = x div radix" "0 < sint v \<and> 2 \<le> radix"
  moreover from this have "x \<noteq> 0" by auto
  ultimately show "((radix, v, uppercase), radix, x, uppercase) \<in> measure (\<lambda>(_, v, _). unat v)"
    by (simp add: unat_div word_le_nat_alt unat_gt_0)
qed simp

declare itoa_loop.simps [simp del]

text \<open>\<^verbatim>\<open>for (i = 0; i < len / 2; i++)\<close> swaps the bytes \<^verbatim>\<open>i\<close> and \<^verbatim>\<open>len - i - 1\<close>.\<close>

function reverse_loop :: "u8 list \<Rightarrow> nat \<Rightarrow> u8 list" where
  "reverse_loop buffer i =
     (let len = length buffer
      in if i < len div 2 then reverse_loop (buffer[i := buffer ! (len - i - 1), len - i - 1 := buffer ! i]) (Suc i)
         else buffer)"
  by pat_completeness auto
termination by (relation "measure (\<lambda>(b, i). length b div 2 - i)") auto

declare reverse_loop.simps [simp del]

text \<open>\<open>size\<close> is the size of the array \<^verbatim>\<open>buffer\<close> of the caller: a longer result is written out of bounds.\<close>

definition mini_itoa :: "nat \<Rightarrow> u32 \<Rightarrow> u32 \<Rightarrow> bool \<Rightarrow> bool \<Rightarrow> nat \<Rightarrow> u8 list option" where
  "mini_itoa buffer_size value radix uppercase unsig zero_pad =
     (if 16 < radix then Some []
      else if radix < 2 then None
      else let negative = (sint value < 0 \<and> \<not> unsig);
               ds = itoa_loop radix (if negative then - value else value) uppercase;
               padded = ds @ replicate (zero_pad - length ds) 48;
               buffer = padded @ (if negative then [45] else [])
           in if length buffer < buffer_size then Some (reverse_loop buffer 0) else None)"

section \<open>The bounded buffer\<close>

definition putc :: "u8 \<Rightarrow> nat \<Rightarrow> u8 list \<Rightarrow> u8 list" where
  "putc ch buffer_len b = (if length b + 1 \<ge> buffer_len then b else b @ [ch])"

definition puts :: "u8 list \<Rightarrow> nat \<Rightarrow> nat \<Rightarrow> u8 list \<Rightarrow> u8 list" where
  "puts s len buffer_len b =
     (let len' = (if buffer_len - length b - 1 < len then buffer_len - length b - 1 else len)
      in b @ take len' s)"

section \<open>The format loop\<close>

text \<open>An argument: a word, or a pointer to a string. Taking the wrong kind is undefined.\<close>

datatype va = VInt u32 | VStr "u8 list"

fun va_int :: "va list \<Rightarrow> (u32 \<times> va list) option" where
  "va_int (VInt v # r) = Some (v, r)"
| "va_int _ = None"

fun va_str :: "va list \<Rightarrow> (u8 list \<times> va list) option" where
  "va_str (VStr s # r) = Some (s, r)"
| "va_str _ = None"

text \<open>
  What follows a \<^verbatim>\<open>%\<close>: the conversion character, the padding and the rest of the format, or \<open>None\<close> for
  \<^verbatim>\<open>goto end\<close>. After \<^verbatim>\<open>%0\<close> one character is always skipped.
\<close>

fun format_spec :: "u8 list \<Rightarrow> (u8 \<times> nat \<times> u8 list) option" where
  "format_spec [] = None"
| "format_spec (c # r) =
     (if c = 48
      then (case r of d # e # r' \<Rightarrow> Some (e, if 48 \<le> d \<and> d \<le> 57 then unat (d - 48) else 0, r') | _ \<Rightarrow> None)
      else Some (c, 0, r))"

lemma format_spec_shorter: "format_spec fmt = Some (c, p, r) \<Longrightarrow> length r < length fmt"
  by (cases fmt rule: format_spec.cases) (auto split: if_splits list.splits)

text \<open>The \<^verbatim>\<open>switch\<close>: the buffer and the arguments that are left.\<close>

definition convert :: "nat \<Rightarrow> u8 \<Rightarrow> nat \<Rightarrow> va list \<Rightarrow> u8 list \<Rightarrow> (va list \<times> u8 list) option" where
  "convert n ch zero_pad va b =
     (if ch = 117 \<or> ch = 100 then
        do { (v, r) \<leftarrow> va_int va; bf \<leftarrow> mini_itoa 24 v 10 False (ch = 117) zero_pad;
             Some (r, puts bf (length bf) n b) }
      else if ch = 120 \<or> ch = 88 then
        do { (v, r) \<leftarrow> va_int va; bf \<leftarrow> mini_itoa 24 v 16 (ch = 88) True zero_pad;
             Some (r, puts bf (length bf) n b) }
      else if ch = 99 then do { (v, r) \<leftarrow> va_int va; Some (r, putc (ucast v) n b) }
      else if ch = 115 then
        do { (s, r) \<leftarrow> va_str va; len \<leftarrow> mini_strlen s; Some (r, puts s len n b) }
      else Some (va, putc ch n b))"

function vsnprintf_loop :: "nat \<Rightarrow> u8 list \<Rightarrow> va list \<Rightarrow> u8 list \<Rightarrow> u8 list option" where
  "vsnprintf_loop n [] va b = Some b"
| "vsnprintf_loop n (ch # fmt) va b =
     (if length b + 1 \<ge> n then Some b
      else if ch \<noteq> 37 then vsnprintf_loop n fmt va (putc ch n b)
      else case format_spec fmt of
             None \<Rightarrow> Some b
           | Some (c, zero_pad, rest) \<Rightarrow>
               if c = 0 then Some b
               else (case convert n c zero_pad va b of
                       None \<Rightarrow> None
                     | Some (va', b') \<Rightarrow> vsnprintf_loop n rest va' b'))"
  by pat_completeness auto
termination
  by (relation "measure (\<lambda>(_, fmt, _, _). length fmt)") (auto dest: format_spec_shorter)

definition mini_vsnprintf :: "nat \<Rightarrow> u8 list \<Rightarrow> va list \<Rightarrow> u8 list option" where
  "mini_vsnprintf buffer_len fmt va = vsnprintf_loop buffer_len fmt va []"

text \<open>
  \<^verbatim>\<open>printk\<close>, \<^verbatim>\<open>printks\<close> and \<^verbatim>\<open>printf\<close> format into 256 bytes, terminate the buffer and hand it to
  \<^verbatim>\<open>port_write\<close>, \<^verbatim>\<open>screen_write\<close> or \<^verbatim>\<open>sys_write\<close>, which read it up to the first terminator: the text.
\<close>

definition printf_text :: "u8 list \<Rightarrow> va list \<Rightarrow> u8 list option" where
  "printf_text fmt va = do { buff \<leftarrow> mini_vsnprintf 256 fmt va; Some (cstr (buff @ [0])) }"

text \<open>A literal of the source as bytes, and bytes as text.\<close>

definition chars :: "string \<Rightarrow> u8 list" where
  "chars s = map of_char s"

definition bytes_string :: "u8 list \<Rightarrow> string" where
  "bytes_string bs = map (\<lambda>b. char_of (unat b)) bs"

section \<open>The specification\<close>

text \<open>The digits of a number, most significant first, and how they are written.\<close>

function radix_digits :: "nat \<Rightarrow> nat \<Rightarrow> nat list" where
  "radix_digits b n = (if n < b \<or> b < 2 then [n] else radix_digits b (n div b) @ [n mod b])"
  by pat_completeness auto
termination by (relation "measure snd") auto

declare radix_digits.simps [simp del]

definition digit_char :: "bool \<Rightarrow> nat \<Rightarrow> u8" where
  "digit_char uppercase d = (if d < 10 then word_of_nat (48 + d) else word_of_nat ((if uppercase then 65 else 97) + d - 10))"

definition number :: "nat \<Rightarrow> bool \<Rightarrow> nat \<Rightarrow> nat \<Rightarrow> u8 list" where
  "number b uppercase pad n =
     (let ds = map (digit_char uppercase) (radix_digits b n) in replicate (pad - length ds) 48 @ ds)"

definition signed_number :: "nat \<Rightarrow> int \<Rightarrow> u8 list" where
  "signed_number pad k = (if k < 0 then [45] else []) @ number 10 False pad (nat \<bar>k\<bar>)"

definition field :: "u8 \<Rightarrow> nat \<Rightarrow> va list \<Rightarrow> (va list \<times> u8 list) option" where
  "field ch pad va =
     (if ch = 117 then map_option (\<lambda>(v, r). (r, number 10 False pad (unat v))) (va_int va)
      else if ch = 100 then map_option (\<lambda>(v, r). (r, signed_number pad (sint v))) (va_int va)
      else if ch = 120 \<or> ch = 88 then map_option (\<lambda>(v, r). (r, number 16 (ch = 88) pad (unat v))) (va_int va)
      else if ch = 99 then map_option (\<lambda>(v, r). (r, [ucast v])) (va_int va)
      else if ch = 115 then do { (s, r) \<leftarrow> va_str va; if terminated s then Some (r, cstr s) else None }
      else Some (va, [ch]))"

function rendering :: "u8 list \<Rightarrow> va list \<Rightarrow> u8 list option" where
  "rendering [] va = Some []"
| "rendering (ch # fmt) va =
     (if ch \<noteq> 37 then map_option ((#) ch) (rendering fmt va)
      else case format_spec fmt of
             None \<Rightarrow> Some []
           | Some (c, pad, rest) \<Rightarrow>
               if c = 0 then Some []
               else (case field c pad va of
                       None \<Rightarrow> None
                     | Some (va', txt) \<Rightarrow> map_option ((@) txt) (rendering rest va')))"
  by pat_completeness auto
termination
  by (relation "measure (\<lambda>(fmt, _). length fmt)") (auto dest: format_spec_shorter)

section \<open>Correctness\<close>

lemma mini_strlen_eq: "mini_strlen s = strlen s"
  by (induction s) auto

lemma nth_reverse_loop:
  "length (reverse_loop b i) = length b \<and>
   (k < length b \<longrightarrow> reverse_loop b i ! k = (if i \<le> k \<and> k < length b - i then b ! (length b - 1 - k) else b ! k))"
proof (induction b i rule: reverse_loop.induct)
  case (1 b i)
  let ?n = "length b"
  show ?case
  proof (cases "i < ?n div 2")
    case True
    let ?b = "b[i := b ! (?n - i - 1), ?n - i - 1 := b ! i]"
    have eq: "reverse_loop b i = reverse_loop ?b (Suc i)" using True by (subst reverse_loop.simps) (simp add: Let_def)
    note ih = 1[OF refl True]
    have "reverse_loop ?b (Suc i) ! k = (if i \<le> k \<and> k < ?n - i then b ! (?n - 1 - k) else b ! k)" if "k < ?n"
    proof -
      have r: "reverse_loop ?b (Suc i) ! k = (if Suc i \<le> k \<and> k < ?n - Suc i then ?b ! (?n - 1 - k) else ?b ! k)"
        using ih that by simp
      consider "k = i" | "k = ?n - 1 - i" "k \<noteq> i" | "Suc i \<le> k" "k < ?n - Suc i" | "\<not> (i \<le> k \<and> k < ?n - i)" by linarith
      moreover have "2 * i + 2 \<le> ?n" using True by linarith
      ultimately show ?thesis using that unfolding r by cases (force simp: nth_list_update)+
    qed
    then show ?thesis using ih unfolding eq by simp
  next
    case False
    then have eq: "reverse_loop b i = b" by (subst reverse_loop.simps) (simp add: Let_def)
    have "?n - 1 - k = k" if "i \<le> k" "k < ?n - i" using False that by linarith
    then show ?thesis unfolding eq by auto
  qed
qed

lemma reverse_loop_rev: "reverse_loop b 0 = rev b"
  using nth_reverse_loop[of b 0] by (intro nth_equalityI) (auto simp: rev_nth)

lemma itoa_char_eq:
  assumes "d < 16"
  shows "itoa_char up d = digit_char up (unat d)"
proof -
  have u: "unat d < 16" using assms by (simp add: word_less_nat_alt)
  have c: "(ucast d :: u8) = word_of_nat (unat d)" by simp
  show ?thesis
    unfolding itoa_char_def digit_char_def c using u by (auto simp: word_less_nat_alt of_nat_diff)
qed

lemma itoa_loop_eq:
  "2 \<le> radix \<Longrightarrow> radix \<le> 16 \<Longrightarrow>
    itoa_loop radix v up = rev (map (digit_char up) (radix_digits (unat radix) (unat v)))"
proof (induction radix v up rule: itoa_loop.induct)
  case (1 radix v up)
  let ?b = "unat radix" and ?n = "unat v"
  have b: "2 \<le> ?b" "?b \<le> 16" using "1.prems" by (simp_all add: word_le_nat_alt)
  have q: "unat (v div radix) = ?n div ?b" and r: "unat (v mod radix) = ?n mod ?b" by (simp_all add: unat_div unat_mod)
  have c: "itoa_char up (v mod radix) = digit_char up (?n mod ?b)"
  proof -
    have "?n mod ?b < 16" using b by (meson less_le_trans mod_less_divisor zero_less_numeral)
    then show ?thesis using itoa_char_eq[of "v mod radix" up] r by (simp add: word_less_nat_alt)
  qed
  have "?n div ?b \<le> ?n div 2" using b(1) by (intro div_le_mono2) simp_all
  moreover have "?n < 2 ^ 32" using unsigned_less[of v, where 'a = nat] by simp
  ultimately have "unat (v div radix) < 2 ^ 31" unfolding q by simp
  then have s: "0 < sint (v div radix) \<longleftrightarrow> ?b \<le> ?n" using b(1) by (simp add: sint_small q div_greater_zero_iff)
  show ?case
  proof (cases "?n < ?b")
    case True
    then show ?thesis using s c by (subst itoa_loop.simps, subst radix_digits.simps) simp
  next
    case False
    then have g: "0 < sint (v div radix) \<and> 2 \<le> radix" using s "1.prems" by simp
    have "itoa_loop radix v up = itoa_char up (v mod radix) # itoa_loop radix (v div radix) up"
      using g by (subst itoa_loop.simps) (simp add: Let_def)
    moreover have "radix_digits ?b ?n = radix_digits ?b (?n div ?b) @ [?n mod ?b]"
      using False b(1) by (subst radix_digits.simps) simp
    ultimately show ?thesis using "1.IH"[OF refl refl g "1.prems"] c q by simp
  qed
qed

lemma length_radix_digits: "2 \<le> b \<Longrightarrow> n < b ^ k \<Longrightarrow> 0 < k \<Longrightarrow> length (radix_digits b n) \<le> k"
proof (induction b n arbitrary: k rule: radix_digits.induct)
  case (1 b n)
  show ?case
  proof (cases "n < b")
    case True
    then show ?thesis using "1.prems" by (subst radix_digits.simps) simp
  next
    case False
    then obtain j where k: "k = Suc j" "0 < j" using "1.prems" by (cases k; cases "k - 1") auto
    have "n div b < b ^ j" using "1.prems" k by (simp add: div_less_iff_less_mult mult.commute)
    then have "length (radix_digits b (n div b)) \<le> j" using "1.IH" "1.prems"(1) False k(2) by simp
    then show ?thesis using False "1.prems"(1) k(1) by (subst radix_digits.simps) simp
  qed
qed

lemma unat_uminus_neg: "sint (v :: u32) < 0 \<Longrightarrow> unat (- v) = nat \<bar>sint v\<bar>"
proof -
  assume "sint v < 0"
  then have "2 ^ 31 \<le> unat v" by (simp add: sint_neg_iff)
  moreover have "unat v < 2 ^ 32" using unsigned_less[of v, where 'a = nat] by simp
  moreover have "unat (0 - v) = (if unat v = 0 then 0 else 2 ^ 32 - unat v)" by (subst unat_sub_if') simp
  ultimately show ?thesis by (simp add: sint_large del: of_nat_unat)
qed

text \<open>\<^verbatim>\<open>mini_itoa\<close> as \<^verbatim>\<open>mini_vsnprintf\<close> calls it: it fits the 24 bytes of \<^verbatim>\<open>bf\<close> and writes the number.\<close>

lemma mini_itoa_unsigned:
  assumes "radix = 10 \<or> radix = 16" "pad \<le> 9"
  shows "mini_itoa 24 v radix up True pad = Some (number (unat radix) up pad (unat v))"
proof -
  have "unat v < 2 ^ 32" using unsigned_less[of v, where 'a = nat] by simp
  then have "length (radix_digits (unat radix) (unat v)) \<le> 10"
    using assms(1) length_radix_digits[of "unat radix" "unat v" 10] by auto
  then show ?thesis using assms by (auto simp: mini_itoa_def itoa_loop_eq reverse_loop_rev number_def Let_def)
qed

lemma mini_itoa_signed:
  assumes "pad \<le> 9"
  shows "mini_itoa 24 v 10 False False pad = Some (signed_number pad (sint v))"
proof -
  let ?u = "if sint v < 0 then - v else v"
  have "unat ?u < 2 ^ 32" using unsigned_less[of ?u, where 'a = nat] by simp
  then have l: "length (radix_digits 10 (unat ?u)) \<le> 10" using length_radix_digits[of 10 "unat ?u" 10] by simp
  have "unat ?u = nat \<bar>sint v\<bar>"
  proof (cases "sint v < 0")
    case False
    then show ?thesis using sint_small[of v] by (simp add: sint_neg_iff)
  qed (simp add: unat_uminus_neg)
  then show ?thesis
    using l assms by (auto simp: mini_itoa_def itoa_loop_eq reverse_loop_rev number_def signed_number_def Let_def)
qed

lemma format_spec_pad: "format_spec fmt = Some (c, p, r) \<Longrightarrow> p \<le> 9"
proof (cases fmt rule: format_spec.cases)
  case (2 d s)
  have "unat (x - 48) \<le> 9" if "48 \<le> x" "x \<le> 57" for x :: u8
    using that by (simp add: word_le_nat_alt unat_sub_if')
  then show "format_spec fmt = Some (c, p, r) \<Longrightarrow> p \<le> 9" using 2 by (auto split: if_splits list.splits)
qed simp

lemma puts_eq: "length s \<le> len \<Longrightarrow> puts s len n b = b @ take (n - length b - 1) s"
  by (auto simp: puts_def Let_def)

lemma putc_eq: "putc c n b = b @ take (n - length b - 1) [c]"
  by (cases "n - length b - 1") (auto simp: putc_def)

lemma convert_eq:
  assumes "pad \<le> 9"
  shows "convert n ch pad va b = (case field ch pad va of None \<Rightarrow> None
     | Some (r, txt) \<Rightarrow> Some (r, b @ take (n - length b - 1) txt))"
proof (cases "ch = 115")
  case True
  have "puts s (length (cstr s)) n b = b @ take (n - length b - 1) (cstr s)" if "terminated s" for s
  proof -
    obtain r where "s = cstr s @ 0 # r" using terminated_split[OF \<open>terminated s\<close>] by blast
    then have "take k s = take k (cstr s)" if "k \<le> length (cstr s)" for k by (metis that take_append diff_is_0_eq take0 append_Nil2)
    then show ?thesis by (simp add: puts_def Let_def)
  qed
  then show ?thesis
    using True by (cases va rule: va_str.cases)
      (auto simp: convert_def field_def mini_strlen_eq strlen_eq strlen_None[symmetric] split: option.splits)
next
  case False
  then show ?thesis
    using assms by (cases va rule: va_int.cases)
      (auto simp: convert_def field_def mini_itoa_unsigned mini_itoa_signed puts_eq putc_eq)
qed

lemma vsnprintf_loop_eq:
  "rendering fmt va = Some out \<Longrightarrow> length b < n \<Longrightarrow> vsnprintf_loop n fmt va b = Some (take (n - 1) (b @ out))"
proof (induction n fmt va b arbitrary: out rule: vsnprintf_loop.induct)
  case (1 n va b)
  then show ?case by simp
next
  case (2 n ch fmt va b)
  consider (full) "n \<le> length b + 1" | (plain) "length b + 1 < n" "ch \<noteq> 37"
    | (stop) "length b + 1 < n" "ch = 37" "case format_spec fmt of None \<Rightarrow> True | Some (c, _, _) \<Rightarrow> c = 0"
    | (spec) c pad rest where "length b + 1 < n" "ch = 37" "format_spec fmt = Some (c, pad, rest)" "c \<noteq> 0"
    by (cases "format_spec fmt") force+
  then show ?case
  proof cases
    case full
    then show ?thesis using "2.prems"(2) by simp
  next
    case plain
    then obtain o' where o': "rendering fmt va = Some o'" "out = ch # o'" using "2.prems"(1) by auto
    have "vsnprintf_loop n fmt va (putc ch n b) = Some (take (n - 1) (putc ch n b @ o'))"
      using "2.IH"(1) plain o'(1) by (simp add: putc_def)
    then show ?thesis using plain o'(2) by (simp add: putc_def)
  next
    case stop
    then show ?thesis using "2.prems"(1) by (auto split: option.splits)
  next
    case spec
    then obtain va' t o' where f: "field c pad va = Some (va', t)" "rendering rest va' = Some o'" "out = t @ o'"
      using "2.prems"(1) by (auto split: option.splits)
    let ?b = "b @ take (n - length b - 1) t"
    have cv: "convert n c pad va b = Some (va', ?b)" using convert_eq[OF format_spec_pad[OF spec(3)]] f(1) by simp
    have "vsnprintf_loop n rest va' ?b = Some (take (n - 1) (?b @ o'))"
      using "2.IH"(2)[of "(c, pad, rest)" c "(pad, rest)" pad rest "(va', ?b)" va' ?b o'] spec cv f(2) by simp
    moreover have "take (n - 1) (?b @ o') = take (n - 1) (b @ t @ o')"
      using spec(1) by (cases "length t \<le> n - length b - 1") auto
    ultimately show ?thesis using spec cv f(3) by simp
  qed
qed

text \<open>\<^verbatim>\<open>mini_vsnprintf\<close> writes the rendering, cut to what the buffer holds besides the terminator.\<close>

lemma mini_vsnprintf_eq: "rendering fmt va = Some out \<Longrightarrow> 0 < n \<Longrightarrow> mini_vsnprintf n fmt va = Some (take (n - 1) out)"
  by (simp add: mini_vsnprintf_def vsnprintf_loop_eq)

text \<open>What is written in decimal is read back by \<^verbatim>\<open>atoi\<close>.\<close>

lemma radix_digits_small: "2 \<le> b \<Longrightarrow> d \<in> set (radix_digits b n) \<Longrightarrow> d < b"
proof (induction b n rule: radix_digits.induct)
  case (1 b n)
  show ?case
  proof (cases "n < b")
    case True
    then show ?thesis using "1.prems" by (subst (asm) radix_digits.simps) simp
  next
    case False
    then have "radix_digits b n = radix_digits b (n div b) @ [n mod b]" using "1.prems"(1) by (subst radix_digits.simps) simp
    then show ?thesis using "1.IH" "1.prems" False by auto
  qed
qed

lemma uint_digit_char:
  assumes "d < 10"
  shows "uint (digit_char up d) = 48 + int d"
proof -
  have "unat (word_of_nat (48 + d) :: u8) = 48 + d" by (rule unat_word_of_nat_small) (use assms in simp)
  then have "int (unat (digit_char up d)) = 48 + int d" using assms by (simp add: digit_char_def del: of_nat_unat)
  then show ?thesis by simp
qed

lemma dec_val_snoc: "dec_val (ds @ [c]) r = dec_val ds r * 10 + (uint c - 48)"
  by (simp add: dec_val_def)

lemma dec_val_digits: "dec_val (map (digit_char up) (radix_digits 10 n)) 0 = int n"
proof (induction "10 :: nat" n rule: radix_digits.induct)
  case (1 n)
  show ?case
  proof (cases "n < 10")
    case True
    then show ?thesis by (subst radix_digits.simps) (simp add: dec_val_def uint_digit_char)
  next
    case False
    moreover have "int (n div 10) * 10 + int (n mod 10) = int n" by presburger
    ultimately show ?thesis
      using 1 by (subst radix_digits.simps) (simp add: dec_val_snoc uint_digit_char)
  qed
qed

lemma dec_val_zeros: "dec_val (replicate k 48 @ ds) 0 = dec_val ds 0"
  by (induction k) (simp_all add: dec_val_def)

lemma digits_are_digits: "list_all digit (number 10 up pad n)"
proof -
  have "digit (digit_char up d)" if "d \<in> set (radix_digits 10 n)" for d
  proof -
    have "d < 10" using radix_digits_small[of 10 d n] that by simp
    then have "uint (digit_char up d) = 48 + int d" by (rule uint_digit_char)
    then show ?thesis using \<open>d < 10\<close> by (simp add: digit_def word_le_def)
  qed
  then show ?thesis by (auto simp: number_def Let_def list_all_iff digit_def)
qed

lemma atoi_number: "atoi (number 10 up pad n @ 0 # r) = Some (int n)"
proof -
  have nz: "0 \<notin> set (number 10 up pad n)" using digits_are_digits[of up pad n] by (force simp: list_all_iff digit_def)
  have c: "cstr (number 10 up pad n @ 0 # r) = number 10 up pad n" by (rule cstr_append[OF nz])
  have "atoi (number 10 up pad n @ 0 # r) = Some (dec_val (number 10 up pad n) 0)"
    unfolding atoi_def using digits_are_digits[of up pad n] c by (subst atoi_loop_digits) (simp_all add: terminated_def)
  then show ?thesis by (simp add: number_def Let_def dec_val_zeros dec_val_digits)
qed

end
