(* ===== verification/Fs_Codec.thy ===== *)
theory Fs_Codec
  imports Disk
begin

text \<open>
  The on-disk structures of \<^verbatim>\<open>include/fs/fs.h\<close> and their layout in memory. The code casts a pointer to
  a structure to a byte pointer and transfers a sector, so a structure and its bytes are the same
  thing; here \<open>enc_\<dots>\<close> gives the bytes of a structure (little-endian words, fields in order, no padding)
  and \<open>dec_\<dots>\<close> the structure that the bytes are.
\<close>

section \<open>Words\<close>

definition enc_u32 :: "u32 \<Rightarrow> u8 list" where
  "enc_u32 w = [ucast w, ucast (drop_bit 8 w), ucast (drop_bit 16 w), ucast (drop_bit 24 w)]"

fun dec_u32 :: "u8 list \<Rightarrow> u32" where
  "dec_u32 (a # b # c # d # _) =
     ucast a OR push_bit 8 (ucast b) OR push_bit 16 (ucast c) OR push_bit 24 (ucast d)"
| "dec_u32 _ = 0"

definition enc_u32s :: "u32 list \<Rightarrow> u8 list" where
  "enc_u32s ws = concat (map enc_u32 ws)"

primrec dec_u32s :: "nat \<Rightarrow> u8 list \<Rightarrow> u32 list" where
  "dec_u32s 0 bs = []"
| "dec_u32s (Suc n) bs = dec_u32 bs # dec_u32s n (drop 4 bs)"

section \<open>Structures\<close>

record super_block_t =
  imap_offset :: u32
  smap_offset :: u32
  iarray_offset :: u32
  darray_offset :: u32
  inode_size :: u32
  directory_size :: u32
  inode_number :: u32
  data_number :: u32
  data_used :: u32
  inode_used :: u32
  sb_reserved :: "u32 list"

record inode_t =
  i_type :: u8
  links :: u8
  i_reserved :: "u8 list"
  i_size :: u32
  size_allocated :: u32
  pointers :: "u32 list"

record dmap_t =
  d_valid :: u8
  d_name :: "u8 list"
  d_ino :: u32

record dir_t =
  fpointer :: u32
  dir_name :: "u8 list"
  dir_reserved :: u8
  dir_map :: "dmap_t list"

abbreviation MAX_NAME_LENTH :: nat where "MAX_NAME_LENTH \<equiv> 26"
abbreviation MAX_DIR_ITEM_NUM :: nat where "MAX_DIR_ITEM_NUM \<equiv> 15"

text \<open>The lengths the declarations give to the arrays.\<close>

definition wf_super :: "super_block_t \<Rightarrow> bool" where
  "wf_super s \<longleftrightarrow> length (sb_reserved s) = 118"

definition wf_inode :: "inode_t \<Rightarrow> bool" where
  "wf_inode i \<longleftrightarrow> length (i_reserved i) = 2 \<and> length (pointers i) = 13"

definition wf_dmap :: "dmap_t \<Rightarrow> bool" where
  "wf_dmap m \<longleftrightarrow> length (d_name m) = MAX_NAME_LENTH + 1"

definition wf_dir :: "dir_t \<Rightarrow> bool" where
  "wf_dir d \<longleftrightarrow> length (dir_name d) = MAX_NAME_LENTH + 1 \<and> length (dir_map d) = MAX_DIR_ITEM_NUM \<and>
     list_all wf_dmap (dir_map d)"

definition enc_super :: "super_block_t \<Rightarrow> u8 list" where
  "enc_super s = enc_u32s ([imap_offset s, smap_offset s, iarray_offset s, darray_offset s, inode_size s,
     directory_size s, inode_number s, data_number s, data_used s, inode_used s] @ sb_reserved s)"

definition dec_super :: "u8 list \<Rightarrow> super_block_t" where
  "dec_super bs = (let w = dec_u32s 128 bs in
     \<lparr>imap_offset = w ! 0, smap_offset = w ! 1, iarray_offset = w ! 2, darray_offset = w ! 3,
      inode_size = w ! 4, directory_size = w ! 5, inode_number = w ! 6, data_number = w ! 7,
      data_used = w ! 8, inode_used = w ! 9, sb_reserved = drop 10 w\<rparr>)"

definition enc_inode :: "inode_t \<Rightarrow> u8 list" where
  "enc_inode i = [i_type i, links i] @ i_reserved i @ enc_u32 (i_size i) @ enc_u32 (size_allocated i) @
     enc_u32s (pointers i)"

definition dec_inode :: "u8 list \<Rightarrow> inode_t" where
  "dec_inode bs = \<lparr>i_type = bs ! 0, links = bs ! 1, i_reserved = take 2 (drop 2 bs),
     i_size = dec_u32 (drop 4 bs), size_allocated = dec_u32 (drop 8 bs), pointers = dec_u32s 13 (drop 12 bs)\<rparr>"

definition enc_dmap :: "dmap_t \<Rightarrow> u8 list" where
  "enc_dmap m = [d_valid m] @ d_name m @ enc_u32 (d_ino m)"

definition dec_dmap :: "u8 list \<Rightarrow> dmap_t" where
  "dec_dmap bs = \<lparr>d_valid = bs ! 0, d_name = take 27 (drop 1 bs), d_ino = dec_u32 (drop 28 bs)\<rparr>"

text \<open>An array of \<open>n\<close> structures of \<open>k\<close> bytes.\<close>

primrec dec_array :: "(u8 list \<Rightarrow> 'a) \<Rightarrow> nat \<Rightarrow> nat \<Rightarrow> u8 list \<Rightarrow> 'a list" where
  "dec_array f k 0 bs = []"
| "dec_array f k (Suc n) bs = f (take k bs) # dec_array f k n (drop k bs)"

definition enc_dir :: "dir_t \<Rightarrow> u8 list" where
  "enc_dir d = enc_u32 (fpointer d) @ dir_name d @ [dir_reserved d] @ concat (map enc_dmap (dir_map d))"

definition dec_dir :: "u8 list \<Rightarrow> dir_t" where
  "dec_dir bs = \<lparr>fpointer = dec_u32 bs, dir_name = take 27 (drop 4 bs), dir_reserved = bs ! 31,
     dir_map = dec_array dec_dmap 32 MAX_DIR_ITEM_NUM (drop 32 bs)\<rparr>"

definition enc_inodes :: "inode_t list \<Rightarrow> u8 list" where
  "enc_inodes is = concat (map enc_inode is)"

definition dec_inodes :: "u8 list \<Rightarrow> inode_t list" where
  "dec_inodes bs = dec_array dec_inode 64 8 bs"

section \<open>Sizes and round trips\<close>

lemma length_enc_u32 [simp]: "length (enc_u32 w) = 4"
  by (simp add: enc_u32_def)

lemma length_enc_u32s [simp]: "length (enc_u32s ws) = 4 * length ws"
  by (induction ws) (simp_all add: enc_u32s_def)

lemma length_dec_u32s [simp]: "length (dec_u32s n bs) = n"
  by (induction n arbitrary: bs) simp_all

lemma dec_enc_u32 [simp]: "dec_u32 (enc_u32 w @ r) = w"
proof -
  have "ucast (ucast w :: u8) OR push_bit 8 (ucast (ucast (drop_bit 8 w) :: u8)) OR
      push_bit 16 (ucast (ucast (drop_bit 16 w) :: u8)) OR push_bit 24 (ucast (ucast (drop_bit 24 w) :: u8)) = w"
  proof (rule bit_word_eqI)
    fix n assume "n < LENGTH(32)"
    then have n: "n < 32" by simp
    consider "n < 8" | "8 \<le> n" "n < 16" | "16 \<le> n" "n < 24" | "24 \<le> n" by linarith
    then show "bit (ucast (ucast w :: u8) OR push_bit 8 (ucast (ucast (drop_bit 8 w) :: u8)) OR
      push_bit 16 (ucast (ucast (drop_bit 16 w) :: u8)) OR push_bit 24 (ucast (ucast (drop_bit 24 w) :: u8)) :: u32) n = bit w n"
      by cases (use n in \<open>auto simp: bit_or_iff bit_push_bit_iff bit_unsigned_iff bit_drop_bit_eq\<close>)
  qed
  then show ?thesis by (simp add: enc_u32_def)
qed

lemma dec_enc_u32_nil [simp]: "dec_u32 (enc_u32 w) = w"
  using dec_enc_u32[of w "[]"] by simp

lemma dec_enc_u32s [simp]: "dec_u32s (length ws) (enc_u32s ws @ r) = ws"
  by (induction ws) (simp_all add: enc_u32s_def)

lemma dec_enc_u32s_n: "length ws = n \<Longrightarrow> dec_u32s n (enc_u32s ws) = ws"
  using dec_enc_u32s[of ws "[]"] by simp

lemma enc_dec_u32: "enc_u32 (dec_u32 [a, b, c, d]) = [a, b, c, d]"
proof -
  let ?w = "dec_u32 [a, b, c, d]"
  have w: "bit ?w n \<longleftrightarrow> (n < 8 \<and> bit a n) \<or> (8 \<le> n \<and> n < 16 \<and> bit b (n - 8)) \<or>
      (16 \<le> n \<and> n < 24 \<and> bit c (n - 16)) \<or> (24 \<le> n \<and> n < 32 \<and> bit d (n - 24))" for n
    by (auto simp: bit_or_iff bit_push_bit_iff bit_unsigned_iff dest: bit_imp_le_length)
  have "ucast ?w = a" by (rule bit_word_eqI) (auto simp: bit_unsigned_iff w simp del: dec_u32.simps)
  moreover have "ucast (drop_bit 8 ?w) = b"
    by (rule bit_word_eqI) (auto simp: bit_unsigned_iff bit_drop_bit_eq w simp del: dec_u32.simps)
  moreover have "ucast (drop_bit 16 ?w) = c"
    by (rule bit_word_eqI) (auto simp: bit_unsigned_iff bit_drop_bit_eq w simp del: dec_u32.simps)
  moreover have "ucast (drop_bit 24 ?w) = d"
    by (rule bit_word_eqI) (auto simp: bit_unsigned_iff bit_drop_bit_eq w simp del: dec_u32.simps)
  ultimately show ?thesis by (simp only: enc_u32_def)
qed

lemma enc_dec_u32s: "length bs = 4 * n \<Longrightarrow> enc_u32s (dec_u32s n bs) = bs"
proof (induction n arbitrary: bs)
  case 0
  then show ?case by (simp add: enc_u32s_def)
next
  case (Suc n)
  then obtain a b c d r where bs: "bs = a # b # c # d # r"
    by (auto simp: numeral_eq_Suc length_Suc_conv Suc_length_conv)
  then have "enc_u32s (dec_u32s (Suc n) bs) = enc_u32 (dec_u32 [a, b, c, d]) @ enc_u32s (dec_u32s n r)"
    by (simp add: enc_u32s_def)
  then show ?case using Suc bs enc_dec_u32[of a b c d] by simp
qed

lemma dec_enc_array:
  assumes "\<And>x. x \<in> set xs \<Longrightarrow> length (e x) = k \<and> f (e x) = x"
  shows "dec_array f k (length xs) (concat (map e xs)) = xs"
  using assms by (induction xs) auto

lemma length_concat_map: "(\<And>x. x \<in> set xs \<Longrightarrow> length (e x) = k) \<Longrightarrow> length (concat (map e xs)) = length xs * k"
  by (induction xs) auto

lemma length_enc_super: "wf_super s \<Longrightarrow> length (enc_super s) = SECTOR_SIZE"
  by (simp add: enc_super_def wf_super_def)

lemma dec_enc_super: "wf_super s \<Longrightarrow> dec_super (enc_super s) = s"
proof -
  assume s: "wf_super s"
  then have "dec_u32s 128 (enc_super s) = [imap_offset s, smap_offset s, iarray_offset s, darray_offset s, inode_size s,
     directory_size s, inode_number s, data_number s, data_used s, inode_used s] @ sb_reserved s"
    unfolding enc_super_def by (intro dec_enc_u32s_n) (simp add: wf_super_def)
  then show ?thesis by (simp add: dec_super_def)
qed

lemma length_enc_inode: "wf_inode i \<Longrightarrow> length (enc_inode i) = 64"
  by (simp add: enc_inode_def wf_inode_def)

lemma dec_enc_inode: "wf_inode i \<Longrightarrow> dec_inode (enc_inode i) = i"
proof -
  assume "wf_inode i"
  then obtain a b where r: "i_reserved i = [a, b]" and p: "length (pointers i) = 13"
    by (auto simp: wf_inode_def numeral_2_eq_2 length_Suc_conv)
  then show ?thesis by (simp add: enc_inode_def dec_inode_def dec_enc_u32s_n)
qed

lemma length_enc_dmap: "wf_dmap m \<Longrightarrow> length (enc_dmap m) = 32"
  by (simp add: enc_dmap_def wf_dmap_def)

lemma dec_enc_dmap: "wf_dmap m \<Longrightarrow> dec_dmap (enc_dmap m) = m"
  by (simp add: enc_dmap_def dec_dmap_def wf_dmap_def)

lemma length_enc_dir: "wf_dir d \<Longrightarrow> length (enc_dir d) = SECTOR_SIZE"
  using length_concat_map[of "dir_map d" enc_dmap 32]
  by (simp add: enc_dir_def wf_dir_def list_all_iff length_enc_dmap)

lemma dec_enc_dir: "wf_dir d \<Longrightarrow> dec_dir (enc_dir d) = d"
proof -
  assume d: "wf_dir d"
  have "dec_array dec_dmap 32 (length (dir_map d)) (concat (map enc_dmap (dir_map d))) = dir_map d"
    using d by (intro dec_enc_array) (simp add: wf_dir_def list_all_iff length_enc_dmap dec_enc_dmap)
  then show ?thesis using d by (simp add: enc_dir_def dec_dir_def wf_dir_def nth_append)
qed

lemma length_enc_inodes: "list_all wf_inode is \<Longrightarrow> length is = 8 \<Longrightarrow> length (enc_inodes is) = SECTOR_SIZE"
  using length_concat_map[of "is" enc_inode 64] by (simp add: enc_inodes_def list_all_iff length_enc_inode)

lemma dec_enc_inodes: "list_all wf_inode is \<Longrightarrow> length is = 8 \<Longrightarrow> dec_inodes (enc_inodes is) = is"
  using dec_enc_array[of "is" enc_inode 64 dec_inode]
  by (simp add: enc_inodes_def dec_inodes_def list_all_iff length_enc_inode dec_enc_inode)

text \<open>What is read from the card always has the declared shape.\<close>

lemma length_dec_array [simp]: "length (dec_array f k n bs) = n"
  by (induction n arbitrary: bs) simp_all

lemma dec_array_all: "(\<And>b. length b = k \<Longrightarrow> P (f b)) \<Longrightarrow> n * k \<le> length bs \<Longrightarrow> list_all P (dec_array f k n bs)"
  by (induction n arbitrary: bs) auto

lemma wf_dec_super: "wf_super (dec_super bs)"
  by (simp add: wf_super_def dec_super_def Let_def)

lemma wf_dec_dir: "length bs = SECTOR_SIZE \<Longrightarrow> wf_dir (dec_dir bs)"
  by (auto simp: wf_dir_def dec_dir_def wf_dmap_def dec_dmap_def intro!: dec_array_all)

lemma wf_dec_inodes: "length bs = SECTOR_SIZE \<Longrightarrow> length (dec_inodes bs) = 8 \<and> list_all wf_inode (dec_inodes bs)"
  by (auto simp: dec_inodes_def wf_inode_def dec_inode_def intro!: dec_array_all)

end
