(* ===== verification/Library_Spec.thy ===== *)
theory Library_Spec
  imports Queue Printk Disk Fs_Codec
begin

text \<open>
  The properties of the routines the rest of the system is built on: the static pools, the task queues, the
  string and formatting routines, the driver of the card and the layout of the structures on it.
\<close>

section \<open>Pools and queues\<close>

text \<open>C29. A pool of \<^verbatim>\<open>len\<close> nodes set up by \<^verbatim>\<open>slist_init\<close> hands out each of the indices 1 to \<^verbatim>\<open>len\<close>-1 exactly once and
  then returns 0 without changing; an index that is freed is the next one handed out, and freeing it a second time is refused.\<close>

theorem slist_pool:
  assumes "0 < len" "length l = len"
  shows "\<exists>l0 hs l1. slist_init l len = Some l0 \<and> alloc_many slist_alloc (len - 1) l0 = Some (hs, l1) \<and>
    distinct hs \<and> set hs = int ` {1..<len} \<and> slist_alloc l1 = Some (0, l1) \<and>
    (\<forall>h\<in>set hs. \<exists>l2 l3. slist_free l1 h (int len) = Some (1, l2) \<and> slist_free l2 h (int len) = Some (0, l2) \<and>
       slist_alloc l2 = Some (h, l3))"
proof -
  obtain l0 where l0: "slist_init l len = Some l0" "pool_rep len l0 [1..<len]" using pool_rep_init[OF assms] by blast
  obtain l1 where l1: "alloc_many slist_alloc (len - 1) l0 = Some (map int [1..<len], l1)" "pool_rep len l1 []"
    using sl.alloc_many_take[OF l0(2), of "len - 1"] by auto
  have "\<exists>l2 l3. slist_free l1 (int i) (int len) = Some (1, l2) \<and> slist_free l2 (int i) (int len) = Some (0, l2) \<and>
      slist_alloc l2 = Some (int i, l3)" if "0 < i" "i < len" for i
    using sl.free_then_alloc[OF l1(2) that] sl.double_free[OF l1(2) that] by force
  then show ?thesis
    using l0(1) l1(1) sl.alloc_none[OF l1(2)] by (intro exI[of _ l0] exI[of _ "map int [1..<len]"] exI[of _ l1]) (auto simp: distinct_map)
qed

theorem slist_pool_witness:
  "\<exists>l0 hs l1. slist_init (replicate 16 \<lparr>valid = 0, cursor = 0\<rparr>) 16 = Some l0 \<and> alloc_many slist_alloc 15 l0 = Some (hs, l1) \<and>
     set hs = int ` {1..<16} \<and> slist_alloc l1 = Some (0, l1)"
proof -
  have "length (replicate 16 \<lparr>valid = 0, cursor = 0\<rparr> :: slist_t) = 16" by simp
  from slist_pool[OF _ this] show ?thesis by auto
qed

text \<open>Task queues are first in, first out: pushing onto a well-linked queue and then dequeuing until it is empty
  gives the tasks that were there, in order, and the new one last.\<close>

theorem queue_fifo:
  assumes "is_queue h q xs" "x \<notin> set xs" "length xs < n"
  shows "\<exists>h' q'. queue_push h q x = Some (h', q') \<and> drain queue_is_empty queue_dequeue n h' q' = Some (xs @ [x])"
  using tq.push_rep[OF assms(1,2)] tq.fifo[of _ _ "xs @ [x]" n] assms(3) by fastforce

theorem queue_fifo_witness:
  "\<exists>h' q'. queue_push (\<lambda>_. undefined) queue_init 3 = Some (h', q') \<and> drain queue_is_empty queue_dequeue 1 h' q' = Some [3]"
  using queue_fifo[OF tq.rep_init, of 3 1 "\<lambda>_. undefined"] by simp

text \<open>\<^verbatim>\<open>queue_push_increasingly\<close> keeps a queue ordered by priority, highest at the head, and adds exactly the new task; no
  priority and no task outside the queue changes.\<close>

theorem queue_push_increasingly_sorted:
  assumes q: "is_queue h q xs" "x \<notin> set xs" and s: "sorted_wrt (\<lambda>a b. priority (h b) \<le> priority (h a)) xs"
  shows "\<exists>h' q' ys. queue_push_increasingly h q x = Some (h', q') \<and> is_queue h' q' ys \<and> set ys = insert x (set xs) \<and>
    length ys = Suc (length xs) \<and> sorted_wrt (\<lambda>a b. priority (h' b) \<le> priority (h' a)) ys \<and>
    (\<forall>p. p \<notin> insert x (set xs) \<longrightarrow> h' p = h p)"
proof -
  define P where "P y \<longleftrightarrow> priority (h y) > priority (h x)" for y
  let ?a = "takeWhile P xs" and ?b = "dropWhile P xs"
  obtain h' q' where r: "queue_push_increasingly h q x = Some (h', q')" "is_queue h' q' (?a @ x # ?b)" "relinks (insert x (set xs)) h h'"
    using queue_push_increasingly_rep[OF q] unfolding P_def by blast
  have p: "priority (h' y) = priority (h y)" for y
  proof -
    have "priority (unlinked (h' y)) = priority (unlinked (h y))" using r(3) by (simp add: relinks_def)
    then show ?thesis by (simp add: unlinked_def)
  qed
  have "sorted_wrt (\<lambda>a b. priority (h b) \<le> priority (h a)) (?a @ ?b)" using s by (simp only: takeWhile_dropWhile_id)
  then have ab: "sorted_wrt (\<lambda>a b. priority (h b) \<le> priority (h a)) ?a" "sorted_wrt (\<lambda>a b. priority (h b) \<le> priority (h a)) ?b"
    "\<forall>u\<in>set ?a. \<forall>v\<in>set ?b. priority (h v) \<le> priority (h u)"
    unfolding sorted_wrt_append by blast+
  have hi: "\<forall>u\<in>set ?a. priority (h x) \<le> priority (h u)" by (auto simp: P_def dest: set_takeWhileD)
  have lo: "\<forall>v\<in>set ?b. priority (h v) \<le> priority (h x)"
  proof (cases "?b")
    case (Cons b bs)
    then have "\<not> P b" using hd_dropWhile[of P xs] by auto
    then show ?thesis using ab(2) Cons by (auto simp: P_def)
  next
    case Nil
    then show ?thesis by (simp only: list.set) simp
  qed
  have "set ?a \<union> set ?b = set xs" "length ?a + length ?b = length xs" by (metis set_append takeWhile_dropWhile_id, metis length_append takeWhile_dropWhile_id)
  then show ?thesis
    using r ab hi lo p by (intro exI[of _ h'] exI[of _ q'] exI[of _ "?a @ x # ?b"]) (auto simp: sorted_wrt_append relinks_def)
qed

theorem queue_push_increasingly_sorted_witness:
  "\<exists>h' q'. queue_push_increasingly (\<lambda>_. undefined) queue_init 3 = Some (h', q') \<and> is_queue h' q' [3]"
proof -
  obtain h' q' ys where "queue_push_increasingly (\<lambda>_. undefined) queue_init 3 = Some (h', q')" "is_queue h' q' ys" "set ys = {3}" "length ys = 1"
    using queue_push_increasingly_sorted[OF tq.rep_init, of 3 "\<lambda>_. undefined"] by auto
  moreover from this have "ys = [3]" by (cases ys) auto
  ultimately show ?thesis by blast
qed

section \<open>Strings and formatting\<close>

text \<open>\<^verbatim>\<open>strcpy\<close> of a string that fits makes a copy: it has the same length (\<^verbatim>\<open>strlen\<close>), compares equal
  (\<^verbatim>\<open>strcmp\<close> gives 0), and the bytes of the destination behind the terminator are kept; a string that does not fit
  is written past the array.\<close>

theorem strcpy_copies:
  assumes "terminated s"
  shows "(length (cstr s) < length d \<longrightarrow> (\<exists>d'. strcpy d s = Some d' \<and> length d' = length d \<and> strlen d' = strlen s \<and>
      strcmp d' s = Some 0 \<and> drop (Suc (length (cstr s))) d' = drop (Suc (length (cstr s))) d)) \<and>
    (length d \<le> length (cstr s) \<longrightarrow> strcpy d s = None)"
proof (intro conjI impI)
  assume f: "length (cstr s) < length d"
  let ?d = "cstr s @ 0 # drop (Suc (length (cstr s))) d"
  have t: "terminated ?d" "cstr ?d = cstr s" using cstr_append[OF cstr_nonzero] by (simp_all add: terminated_def)
  have "strcmp ?d s = Some 0" using strcmp_total[OF t(1) assms] t(2) by auto
  moreover have "strlen ?d = strlen s" using strlen_eq[OF t(1)] strlen_eq[OF assms] t(2) by simp
  ultimately show "\<exists>d'. strcpy d s = Some d' \<and> length d' = length d \<and> strlen d' = strlen s \<and>
      strcmp d' s = Some 0 \<and> drop (Suc (length (cstr s))) d' = drop (Suc (length (cstr s))) d"
    using strcpy_fits[OF assms f] f by (intro exI[of _ ?d]) simp
qed (rule strcpy_overflow)

theorem strcpy_copies_witness:
  "\<exists>d'. strcpy [9, 9, 9, 9] [104, 105, 0] = Some d' \<and> strlen d' = strlen [104, 105, 0] \<and> strcmp d' [104, 105, 0] = Some 0"
proof -
  have "terminated [104, 105, 0]" "length (cstr [104, 105, 0]) < length [9, 9, 9, 9 :: u8]" by (simp_all add: terminated_def cstr_def)
  from strcpy_copies[OF this(1), of "[9, 9, 9, 9]"] this(2) show ?thesis by blast
qed

text \<open>C31. \<^verbatim>\<open>memcopy\<close> moves a block correctly whichever way its source and destination overlap: afterwards the destination holds
  the bytes the source held before, and nothing else has changed.\<close>

theorem memcopy_moves:
  assumes "0 \<le> n" and "region s1 (nat n)" and "region s2 (nat n)"
  shows "memcopy mem s1 s2 n = (\<lambda>a. if s1 \<le> a \<and> unat a - unat s1 < nat n then mem (s2 + (a - s1)) else mem a)"
  unfolding memcopy_eq[OF assms] moved_def by (auto simp: fun_eq_iff)

theorem memcopy_moves_witness:
  "memcopy (\<lambda>a. ucast a) 2 1 3 4 = 3 \<and> memcopy (\<lambda>a. ucast a) 1 2 3 3 = 4"
proof -
  have "0 \<le> (3 :: int)" "region 2 (nat 3)" "region 1 (nat 3)" by (simp_all add: region_def)
  note * = memcopy_moves[OF this, of "\<lambda>a. ucast a"] memcopy_moves[OF this(1,3,2), of "\<lambda>a. ucast a"]
  show ?thesis unfolding * by (simp add: word_le_nat_alt)
qed



text \<open>Numbers survive printing and reading: the digits \<^verbatim>\<open>mini_itoa\<close> produces for an unsigned number, padded or not,
  followed by a terminator, are read by \<^verbatim>\<open>atoi\<close> as that number.\<close>

theorem itoa_atoi:
  assumes "pad \<le> 9"
  shows "\<exists>ds. mini_itoa 24 v 10 up True pad = Some ds \<and> list_all digit ds \<and> atoi (ds @ 0 # r) = Some (int (unat v))"
  using mini_itoa_unsigned[of 10 pad v up] assms digits_are_digits[of up pad "unat v"] atoi_number[of up pad "unat v" r] by simp

theorem itoa_atoi_witness: "\<exists>ds. mini_itoa 24 2050 10 False True 6 = Some ds \<and> atoi (ds @ [0]) = Some 2050"
  using itoa_atoi[of 6 2050 False "[]"] by auto

section \<open>The card\<close>

text \<open>The structures of the file system survive being written to the card: each takes up exactly a sector (64 and 32 bytes
  for an inode and a directory entry) and decoding what was encoded gives the structure back.\<close>

theorem codec_round_trip:
  assumes "wf_super sb" "list_all wf_inode is" "length is = 8" "wf_dir d" "length ws = 128"
  shows "length (enc_super sb) = SECTOR_SIZE \<and> dec_super (enc_super sb) = sb \<and>
    length (enc_inodes is) = SECTOR_SIZE \<and> dec_inodes (enc_inodes is) = is \<and>
    length (enc_dir d) = SECTOR_SIZE \<and> dec_dir (enc_dir d) = d \<and>
    length (enc_u32s ws) = SECTOR_SIZE \<and> dec_u32s 128 (enc_u32s ws) = ws"
  using assms by (simp_all add: length_enc_super dec_enc_super length_enc_inodes dec_enc_inodes length_enc_dir dec_enc_dir dec_enc_u32s_n)

theorem codec_round_trip_witness:
  "dec_inodes (enc_inodes (replicate 8 \<lparr>i_type = 1, links = 1, i_reserved = [0, 0], i_size = 7, size_allocated = 512,
     pointers = replicate 13 5\<rparr>)) = replicate 8 \<lparr>i_type = 1, links = 1, i_reserved = [0, 0], i_size = 7, size_allocated = 512,
     pointers = replicate 13 5\<rparr>"
  using codec_round_trip[of "\<lparr>imap_offset = 0, smap_offset = 0, iarray_offset = 0, darray_offset = 0, inode_size = 0, directory_size = 0,
     inode_number = 0, data_number = 0, data_used = 0, inode_used = 0, sb_reserved = replicate 118 0\<rparr>"
     "replicate 8 \<lparr>i_type = 1, links = 1, i_reserved = [0, 0], i_size = 7, size_allocated = 512, pointers = replicate 13 5\<rparr>"
     "\<lparr>fpointer = 0, dir_name = replicate 27 0, dir_reserved = 0,
       dir_map = replicate 15 \<lparr>d_valid = 0, d_name = replicate 27 0, d_ino = 0\<rparr>\<rparr>" "replicate 128 0"]
  by (simp add: wf_super_def wf_inode_def wf_dir_def wf_dmap_def list_all_iff)





end
