(* ===== verification/Fs.thy ===== *)
theory Fs
  imports Fs_Codec Slist Printk
begin

text \<open>
  The file system of \<^verbatim>\<open>kernel/fs/fs.c\<close>: bitmap allocators for inodes and sectors, directories of one
  sector, path lookup, and files with direct and indirect blocks. The globals of \<^verbatim>\<open>fs.c\<close> and the card
  are the record \<open>fs_state\<close>; what the code prints goes to \<open>console\<close>; what it leaves in the return
  register of the caller is a result of the function. Structures on the stack that are written to the
  card before all their fields are set have their old contents from a parameter (\<open>stack_junk\<close>).
\<close>

record fd_t =
  f_ino :: u32
  access :: u32
  f_size :: u32
  f_offset :: u32

record fs_state =
  disk :: disk
  fd_array :: "fd_t list"
  fd_array_slist :: slist_t
  super_block :: super_block_t
  current_dir :: dir_t
  current_dir_pointer :: u32
  imap :: "u32 list"
  smap :: "u32 list"
  smap_index :: u32
  console :: "string list"

record stack_junk =
  j_super :: super_block_t
  j_inodes :: "inode_t list"
  j_dir :: dir_t

abbreviation MAGIC_NUMBER :: u32 where "MAGIC_NUMBER \<equiv> 0x99569A78"
abbreviation FS_BASE :: u32 where "FS_BASE \<equiv> 0x01000000"
abbreviation IMAP_ADDR :: u32 where "IMAP_ADDR \<equiv> 0x01000200"
abbreviation SMAP_ADDR :: u32 where "SMAP_ADDR \<equiv> 0x01000400"
abbreviation IARRAY_ADDR :: u32 where "IARRAY_ADDR \<equiv> 0x01020400"
abbreviation DARRAY_ADDR :: u32 where "DARRAY_ADDR \<equiv> 0x01080000"
abbreviation SECTOR :: u32 where "SECTOR \<equiv> 0x200"
abbreviation FILE_NORMAL :: u8 where "FILE_NORMAL \<equiv> 1"
abbreviation FILE_DIR :: u8 where "FILE_DIR \<equiv> 2"
abbreviation (input) O_RDWR :: u32 where "O_RDWR \<equiv> 0"
abbreviation (input) O_RD :: u32 where "O_RD \<equiv> 1"
abbreviation (input) O_WR :: u32 where "O_WR \<equiv> 2"
abbreviation FD_ARRAY_SIZE :: nat where "FD_ARRAY_SIZE \<equiv> 64"
abbreviation FD_ARRAY_SLIST_SIZE :: nat where "FD_ARRAY_SLIST_SIZE \<equiv> 65"

section \<open>Access to the card\<close>

definition get_sector :: "fs_state \<Rightarrow> u32 \<Rightarrow> u8 list" where
  "get_sector s a = sd_read (disk s) a SECTOR_SIZE"

definition put_sector :: "u32 \<Rightarrow> u8 list \<Rightarrow> fs_state \<Rightarrow> fs_state" where
  "put_sector a bs s = s\<lparr>disk := sd_write (disk s) a bs\<rparr>"

text \<open>\<^verbatim>\<open>printks\<close> of a literal, and of a format with arguments.\<close>

definition printks :: "string \<Rightarrow> fs_state \<Rightarrow> fs_state" where
  "printks m s = s\<lparr>console := console s @ [m]\<rparr>"

definition printks_fmt :: "string \<Rightarrow> va list \<Rightarrow> fs_state \<Rightarrow> fs_state option" where
  "printks_fmt fmt va s = do { t \<leftarrow> printf_text (chars fmt) va; Some (printks (bytes_string t) s) }"

text \<open>\<^verbatim>\<open>IARRAY_ADDR + ino_group*SECTOR_SIZE\<close>\<close>

definition iarray_sector :: "nat \<Rightarrow> u32" where
  "iarray_sector g = IARRAY_ADDR + word_of_nat g * SECTOR"

section \<open>Making and mounting\<close>

fun clear_smap :: "nat \<Rightarrow> u32 \<Rightarrow> fs_state \<Rightarrow> fs_state" where
  "clear_smap 0 addr s = s"
| "clear_smap (Suc n) addr s = clear_smap n (addr + SECTOR) (put_sector addr (enc_u32s (replicate 128 0)) s)"

definition mkfs_super :: "super_block_t \<Rightarrow> super_block_t" where
  "mkfs_super s = s\<lparr>imap_offset := 1, smap_offset := 2, iarray_offset := 258, darray_offset := 1024,
     inode_size := 64, directory_size := 512, inode_number := 4096, data_number := 1048576,
     data_used := 1, inode_used := 1, sb_reserved := (sb_reserved s)[78 := MAGIC_NUMBER]\<rparr>"

definition empty_map :: "dir_t \<Rightarrow> dir_t" where
  "empty_map d = d\<lparr>dir_map := map (\<lambda>m. m\<lparr>d_valid := 0\<rparr>) (dir_map d)\<rparr>"

definition mkfs :: "stack_junk \<Rightarrow> fs_state \<Rightarrow> fs_state option" where
  "mkfs jk s =
     do { let s0 = printks ''[FS] Setting super block...\<newline>'' (printks ''[FS] Initializing file system...\<newline>'' s);
          let s1 = put_sector FS_BASE (enc_super (mkfs_super (j_super jk))) s0;
          let buf = enc_u32s (1 # replicate 127 0);
          let s2 = put_sector SMAP_ADDR buf (put_sector IMAP_ADDR buf
                     (printks ''[FS] Setting inode map & sector map...\<newline>'' s1));
          let s3 = clear_smap 255 (SMAP_ADDR + SECTOR) s2;
          let s3 = printks ''[FS] Setting root directory...\<newline>'' s3;
          i0 \<leftarrow> arr_get (j_inodes jk) 0;
          ps \<leftarrow> arr_set (pointers i0) 0 DARRAY_ADDR;
          is \<leftarrow> arr_set (j_inodes jk) 0 (i0\<lparr>i_type := FILE_DIR, links := 1, i_size := 512,
                   size_allocated := 512, pointers := ps\<rparr>);
          let s4 = put_sector IARRAY_ADDR (enc_inodes is) s3;
          nm \<leftarrow> strcpy (dir_name (j_dir jk)) [47, 0];
          let dir_root = (empty_map (j_dir jk))\<lparr>fpointer := DARRAY_ADDR, dir_name := nm\<rparr>;
          Some (printks ''[FS] Initialization finished.\<newline>'' (put_sector DARRAY_ADDR (enc_dir dir_root) s4)) }"

definition mount :: "fs_state \<Rightarrow> fs_state" where
  "mount s =
     (let s1 = printks ''[FS] File system mounting...\<newline>'' s
      in printks ''[FS] File system mounted.\<newline>''
           (s1\<lparr>super_block := dec_super (get_sector s1 FS_BASE),
             current_dir := dec_dir (get_sector s1 DARRAY_ADDR), current_dir_pointer := DARRAY_ADDR,
             imap := dec_u32s 128 (get_sector s1 IMAP_ADDR), smap_index := 0,
             smap := dec_u32s 128 (get_sector s1 SMAP_ADDR)\<rparr>))"

definition statfs :: "fs_state \<Rightarrow> fs_state option" where
  "statfs s =
     (let b = dec_super (get_sector s FS_BASE) in
      do { s1 \<leftarrow> printks_fmt ''[FS] used inode items: %d/%d,  used data blocks: %d/%d.\<newline>''
                  [VInt (inode_used b), VInt (inode_number b), VInt (data_used b), VInt (data_number b)] s;
           s2 \<leftarrow> printks_fmt ''[FS] magic number: 0x%08X,  start address: 0x%08x.\<newline>''
                  [VInt (sb_reserved b ! 78), VInt FS_BASE] s1;
           s3 \<leftarrow> printks_fmt ''[FS] inode  map offset: %d sector(s),  occupied: %d sector(s)\<newline>''
                  [VInt (imap_offset b), VInt 1] s2;
           s4 \<leftarrow> printks_fmt ''[FS] sector map offset: %d sector(s),  occupied: %d sector(s)\<newline>''
                  [VInt (smap_offset b), VInt 256] s3;
           s5 \<leftarrow> printks_fmt ''[FS] inode offset: %d sector(s),  data offset: %d sector(s).\<newline>''
                  [VInt (iarray_offset b), VInt (darray_offset b)] s4;
           printks_fmt ''[FS] inode size: %d byte(s),  directory size: %d byte(s).\<newline>''
             [VInt (inode_size b), VInt (directory_size b)] s5 })"

definition init_file_system :: "stack_junk \<Rightarrow> fs_state \<Rightarrow> fs_state option" where
  "init_file_system jk s =
     do { l \<leftarrow> slist_init (fd_array_slist s) FD_ARRAY_SLIST_SIZE;
          let s1 = s\<lparr>fd_array_slist := l\<rparr>;
          if sb_reserved (dec_super (get_sector s1 FS_BASE)) ! 78 \<noteq> MAGIC_NUMBER
          then mkfs jk s1 else Some (mount s1) }"

section \<open>Allocators\<close>

text \<open>\<^verbatim>\<open>for(j = 0; (t & 0x1) && j < 32; t >>= 1, ++j)\<close>, from \<open>j\<close> on.\<close>

function scan_word :: "u32 \<Rightarrow> nat \<Rightarrow> nat" where
  "scan_word t j = (if t AND 1 \<noteq> 0 \<and> j < 32 then scan_word (drop_bit 1 t) (Suc j) else j)"
  by pat_completeness auto
termination by (relation "measure (\<lambda>(_, j). 32 - j)") auto

declare scan_word.simps [simp del]

text \<open>The loop over the words of a map; it ends with the word and bit, or with \<open>j = 32\<close>.\<close>

fun scan_map :: "u32 list \<Rightarrow> nat \<Rightarrow> nat \<times> nat" where
  "scan_map [] i = (i, 32)"
| "scan_map (t # ts) i = (let j = scan_word t 0 in if j \<noteq> 32 then (i, j) else scan_map ts (Suc i))"

definition iarray_alloc :: "fs_state \<Rightarrow> (int \<times> fs_state) option" where
  "iarray_alloc s =
     (let (i, j) = scan_map (imap s) 0 in
      if i = 128 \<and> j = 32 then Some (-1, s)
      else do { w \<leftarrow> arr_get (imap s) (int i);
                m \<leftarrow> arr_set (imap s) (int i) (w OR push_bit j 1);
                let s1 = put_sector IMAP_ADDR (enc_u32s m) (s\<lparr>imap := m\<rparr>);
                let s2 = s1\<lparr>super_block := (super_block s1)\<lparr>inode_used := inode_used (super_block s1) + 1\<rparr>\<rparr>;
                Some (int (i * 32 + j), put_sector FS_BASE (enc_super (super_block s2)) s2) })"

definition iarray_free :: "nat \<Rightarrow> fs_state \<Rightarrow> fs_state option" where
  "iarray_free ino s =
     (let i = ino div 32; j = ino - i * 32 in
      do { w \<leftarrow> arr_get (imap s) (int i);
           m \<leftarrow> arr_set (imap s) (int i) (w AND NOT (push_bit j 1));
           let s1 = put_sector IMAP_ADDR (enc_u32s m) (s\<lparr>imap := m\<rparr>);
           let s2 = s1\<lparr>super_block := (super_block s1)\<lparr>inode_used := inode_used (super_block s1) - 1\<rparr>\<rparr>;
           Some (put_sector FS_BASE (enc_super (super_block s2)) s2) })"

definition smap_sector :: "u32 \<Rightarrow> u32" where
  "smap_sector si = SMAP_ADDR + si * SECTOR"

function darray_alloc :: "fs_state \<Rightarrow> (int \<times> fs_state) option" where
  "darray_alloc s =
     (if smap_index s < 256 then
        let (i, j) = scan_map (smap s) 0 in
        if i = 128 \<and> j = 32 then
          darray_alloc (s\<lparr>smap_index := smap_index s + 1,
            smap := dec_u32s 128 (get_sector s (smap_sector (smap_index s + 1)))\<rparr>)
        else do { w \<leftarrow> arr_get (smap s) (int i);
                  m \<leftarrow> arr_set (smap s) (int i) (w OR push_bit j 1);
                  let s1 = put_sector (smap_sector (smap_index s)) (enc_u32s m) (s\<lparr>smap := m\<rparr>);
                  let s2 = s1\<lparr>super_block := (super_block s1)\<lparr>data_used := data_used (super_block s1) + 1\<rparr>\<rparr>;
                  Some (int (unat (smap_index s) * 512 * 8 + i * 32 + j),
                        put_sector FS_BASE (enc_super (super_block s2)) s2) }
      else Some (-1, s))"
  by pat_completeness auto
termination
proof (relation "measure (\<lambda>s. 256 - unat (smap_index s))")
  fix s :: fs_state
  assume "smap_index s < 256"
  then have "unat (smap_index s + 1) = Suc (unat (smap_index s))" "unat (smap_index s) < 256"
    by (simp_all add: word_less_nat_alt unat_plus_if')
  then show "(s\<lparr>smap_index := smap_index s + 1, smap := dec_u32s 128 (get_sector s (smap_sector (smap_index s + 1)))\<rparr>, s)
      \<in> measure (\<lambda>s. 256 - unat (smap_index s))" by simp
qed simp

declare darray_alloc.simps [simp del]

definition darray_free :: "nat \<Rightarrow> fs_state \<Rightarrow> fs_state option" where
  "darray_free dno s =
     (let si = dno div (512 * 8); d = dno - si * 512 * 8; i = d div 32; j = d - i * 32;
          s1 = s\<lparr>smap_index := word_of_nat si, smap := dec_u32s 128 (get_sector s (smap_sector (word_of_nat si)))\<rparr> in
      do { w \<leftarrow> arr_get (smap s1) (int i);
           m \<leftarrow> arr_set (smap s1) (int i) (w AND NOT (push_bit j 1));
           let s2 = put_sector (smap_sector (smap_index s1)) (enc_u32s m) (s1\<lparr>smap := m\<rparr>);
           let s3 = s2\<lparr>super_block := (super_block s2)\<lparr>data_used := data_used (super_block s2) - 1\<rparr>\<rparr>;
           Some (put_sector FS_BASE (enc_super (super_block s3)) s3) })"

section \<open>Directories\<close>

text \<open>The loops over the entries of a directory: the first valid entry with the name, from \<open>i\<close> on.\<close>

fun find_entry :: "dmap_t list \<Rightarrow> u8 list \<Rightarrow> nat \<Rightarrow> (nat \<times> dmap_t) option option" where
  "find_entry [] nm i = Some None"
| "find_entry (m # ms) nm i =
     (if d_valid m \<noteq> 0
      then do { r \<leftarrow> strcmp (d_name m) nm; if r = 0 then Some (Some (i, m)) else find_entry ms nm (Suc i) }
      else find_entry ms nm (Suc i))"

definition is_file_exist :: "fs_state \<Rightarrow> u8 list \<Rightarrow> u32 option" where
  "is_file_exist s nm =
     do { r \<leftarrow> find_entry (dir_map (current_dir s)) nm 0;
          Some (case r of None \<Rightarrow> 0 | Some (_, m) \<Rightarrow> d_ino m) }"

text \<open>\<^verbatim>\<open>for(i = 0; current_dir.map[i].valid && i < MAX_DIR_ITEM_NUM; ++i)\<close>. The entry is read before the
  index is tested, so in a full directory the byte behind the array is read; whatever it holds, the
  loop ends there with \<open>i = MAX_DIR_ITEM_NUM\<close>.\<close>

fun free_slot :: "dmap_t list \<Rightarrow> nat \<Rightarrow> nat" where
  "free_slot [] i = i"
| "free_slot (m # ms) i = (if d_valid m \<noteq> 0 then free_slot ms (Suc i) else i)"

text \<open>The inode \<open>ino\<close>: its sector, the eight inodes in it, and its place among them.\<close>

definition get_inodes :: "fs_state \<Rightarrow> nat \<Rightarrow> inode_t list" where
  "get_inodes s g = dec_inodes (get_sector s (iarray_sector g))"

text \<open>\<^verbatim>\<open>parse_path\<close>: the path is overwritten with terminators; the second result is what is left of it.\<close>

lemma separate_loop_ge: "separate_loop s c i = Some p \<Longrightarrow> p = -1 \<or> i \<le> p \<and> nat (p - i) < length s"
proof (induction s arbitrary: i)
  case (Cons a s)
  then show ?case by (fastforce split: if_splits)
qed simp

function parse_path_loop :: "fs_state \<Rightarrow> dir_t \<Rightarrow> u8 list \<Rightarrow> (u32 \<times> u8 list) option" where
  "parse_path_loop s dir path =
     (case separate path 92 of
        None \<Rightarrow> None
      | Some pos \<Rightarrow>
          if pos = -1 then
            (case find_entry (dir_map dir) path 0 of
               None \<Rightarrow> None
             | Some None \<Rightarrow> Some (-1, path)
             | Some (Some (_, m)) \<Rightarrow> Some (d_ino m, path))
          else
            let s0 = path[nat pos := 0]; rest = drop (nat pos + 1) path in
            case find_entry (dir_map dir) s0 0 of
              None \<Rightarrow> None
            | Some None \<Rightarrow> Some (-1, s0)
            | Some (Some (_, m)) \<Rightarrow>
                let ino = unat (d_ino m); inode = get_inodes s (ino div 8) ! (ino mod 8) in
                if i_type inode \<noteq> FILE_DIR then Some (-1, s0)
                else map_option (\<lambda>(r, p). (r, take (nat pos + 1) s0 @ p))
                       (parse_path_loop s (dec_dir (get_sector s (pointers inode ! 0))) rest))"
  by pat_completeness auto
termination
proof (relation "measure (\<lambda>(_, _, path). length path)")
  fix path :: "u8 list" and pos :: int and rest s0
  assume "separate path 92 = Some pos" "pos \<noteq> -1" "rest = drop (nat pos + 1) path"
  then show "((s, dec_dir b, rest), s, dir, path) \<in> measure (\<lambda>(_, _, path). length path)" for s b dir
    using separate_loop_ge[of path 92 0 pos] by (auto simp: separate_def)
qed simp

declare parse_path_loop.simps [simp del]

definition parse_path :: "fs_state \<Rightarrow> u8 list \<Rightarrow> (u32 \<times> u8 list) option" where
  "parse_path s path =
     do { r \<leftarrow> strcmp path [92, 0];
          if r = 0 then Some (0, path)
          else do { c \<leftarrow> arr_get path 0;
                    (v, p) \<leftarrow> parse_path_loop s (dec_dir (get_sector s DARRAY_ADDR)) (drop 1 path);
                    Some (v, c # p) } }"

end
