(* ===== verification/Fs_Ops.thy ===== *)
theory Fs_Ops
  imports Fs
begin

text \<open>
  The operations of \<^verbatim>\<open>kernel/fs/fs.c\<close> behind the system calls: directories (\<^verbatim>\<open>mkdir\<close>, \<^verbatim>\<open>rmdir\<close>, \<^verbatim>\<open>ls\<close>,
  \<^verbatim>\<open>cd\<close>), files (\<^verbatim>\<open>touch\<close>, \<^verbatim>\<open>fopen\<close>, \<^verbatim>\<open>fclose\<close>, \<^verbatim>\<open>fread\<close>, \<^verbatim>\<open>fwrite\<close>, \<^verbatim>\<open>fseek\<close>). An operation that stores a
  value in the caller's return register has it as its first result.
\<close>

section \<open>Directories\<close>

text \<open>
  The common beginning of \<^verbatim>\<open>mkdir\<close> and \<^verbatim>\<open>touch\<close>: \<open>Inl\<close> when it has printed an error and returns,
  \<open>Inr\<close> with the number of the new inode, which is entered in the current directory.
\<close>

definition new_entry :: "u8 list \<Rightarrow> fs_state \<Rightarrow> (fs_state + nat \<times> fs_state) option" where
  "new_entry nm s =
     do { n \<leftarrow> strlen nm;
          if n > MAX_NAME_LENTH then Some (Inl (printks ''Error: too long name.\<newline>'' s))
          else do {
            e \<leftarrow> is_file_exist s nm;
            if e \<noteq> 0 then Some (Inl (printks ''Error: file exists.\<newline>'' s))
            else do {
              let i = free_slot (dir_map (current_dir s)) 0;
              if i = MAX_DIR_ITEM_NUM then Some (Inl (printks ''Too many directory entrys.\<newline>'' s))
              else do {
              let m = dir_map (current_dir s) ! i;
              let s1 = s\<lparr>current_dir := (current_dir s)\<lparr>dir_map := (dir_map (current_dir s))[i := m\<lparr>d_valid := 1\<rparr>]\<rparr>\<rparr>;
              (ino, s2) \<leftarrow> iarray_alloc s1;
              if ino = -1 then Some (Inl (printks ''Error: insufficient inode.\<newline>'' s2))
              else do {
                nm' \<leftarrow> strcpy (d_name m) nm;
                let s3 = s2\<lparr>current_dir := (current_dir s2)\<lparr>dir_map := (dir_map (current_dir s2))
                           [i := m\<lparr>d_valid := 1, d_ino := word_of_int ino, d_name := nm'\<rparr>]\<rparr>\<rparr>;
                Some (Inr (nat ino, put_sector (current_dir_pointer s3) (enc_dir (current_dir s3)) s3)) } } } } }"

definition mkdir :: "stack_junk \<Rightarrow> u8 list \<Rightarrow> fs_state \<Rightarrow> fs_state option" where
  "mkdir jk nm s =
     do { r \<leftarrow> new_entry nm s;
          case r of
            Inl s1 \<Rightarrow> Some s1
          | Inr (ino, s1) \<Rightarrow>
              do { let g = ino div 8;
                   let k = ino - g * 8;
                   let inodes = get_inodes s1 g;
                   (dno, s2) \<leftarrow> darray_alloc s1;
                   if dno = -1 then Some (printks ''Error: insufficient data block.\<newline>'' s2)
                   else do {
                     let p = DARRAY_ADDR + word_of_int dno * SECTOR;
                     let inode = inodes ! k;
                     let inode' = inode\<lparr>i_type := FILE_DIR, links := 1, i_size := 512, size_allocated := 512,
                                        pointers := (pointers inode)[0 := p]\<rparr>;
                     let s3 = put_sector (iarray_sector g) (enc_inodes (inodes[k := inode'])) s2;
                     nm' \<leftarrow> strcpy (dir_name (j_dir jk)) nm;
                     let d = (empty_map (j_dir jk))\<lparr>fpointer := current_dir_pointer s3, dir_name := nm'\<rparr>;
                     Some (put_sector p (enc_dir d) s3) } } }"

definition rmdir :: "u8 list \<Rightarrow> fs_state \<Rightarrow> fs_state option" where
  "rmdir nm s =
     do { r \<leftarrow> find_entry (dir_map (current_dir s)) nm 0;
          case r of
            None \<Rightarrow> Some (printks ''Error: no such directory.\<newline>'' s)
          | Some (i, m) \<Rightarrow>
              do { let ino = unat (d_ino m);
                   let inode = get_inodes s (ino div 8) ! (ino mod 8);
                   if i_type inode \<noteq> FILE_DIR then Some (printks ''Error: not a directory.\<newline>'' s)
                   else do {
                     let p = pointers inode ! 0;
                     let d = dec_dir (get_sector s p);
                     if list_ex (\<lambda>m. d_valid m \<noteq> 0) (dir_map d)
                     then Some (printks ''Error: directory not empty.\<newline>'' s)
                     else do {
                       s1 \<leftarrow> iarray_free ino s;
                       s2 \<leftarrow> darray_free (unat ((p - DARRAY_ADDR) div SECTOR)) s1;
                       let s3 = s2\<lparr>current_dir := (current_dir s2)\<lparr>dir_map := (dir_map (current_dir s2))
                                  [i := (dir_map (current_dir s2) ! i)\<lparr>d_valid := 0\<rparr>]\<rparr>\<rparr>;
                       Some (put_sector (current_dir_pointer s3) (enc_dir (current_dir s3)) s3) } } } }"

text \<open>The names \<^verbatim>\<open>ls\<close> prints, five to a line.\<close>

fun ls_loop :: "dmap_t list \<Rightarrow> nat \<Rightarrow> fs_state \<Rightarrow> fs_state option" where
  "ls_loop [] j s = Some (if j \<noteq> 0 then printks ''\<newline>'' s else s)"
| "ls_loop (m # ms) j s =
     (if d_valid m \<noteq> 0 then
        do { s1 \<leftarrow> printks_fmt ''%s  '' [VStr (d_name m)] s;
             if j = 4 then ls_loop ms 0 (printks ''\<newline>'' s1) else ls_loop ms (Suc j) s1 }
      else ls_loop ms j s)"

definition ls :: "fs_state \<Rightarrow> fs_state option" where
  "ls s = ls_loop (dir_map (current_dir s)) 0 (printks ''.  ..\<newline>'' s)"

definition cd_ino :: "u8 list \<Rightarrow> fs_state \<Rightarrow> u32 option" where
  "cd_ino nm s =
     do { c \<leftarrow> arr_get nm 0;
          if c = 92 then map_option fst (parse_path s nm)
          else do { r \<leftarrow> find_entry (dir_map (current_dir s)) nm 0;
                    Some (case r of None \<Rightarrow> -1 | Some (_, m) \<Rightarrow> d_ino m) } }"

definition cd :: "u8 list \<Rightarrow> fs_state \<Rightarrow> fs_state option" where
  "cd nm s =
     do { up \<leftarrow> strcmp [46, 46, 0] nm;
          if up = 0 then
            Some (if current_dir_pointer s = DARRAY_ADDR then s
                  else let p = fpointer (current_dir s)
                       in s\<lparr>current_dir_pointer := p, current_dir := dec_dir (get_sector s p)\<rparr>)
          else do {
            here \<leftarrow> strcmp [46, 0] nm;
            if here = 0 then Some s
            else do {
              ino \<leftarrow> cd_ino nm s;
              if ino = -1 then Some (printks ''Error: not such directory.\<newline>'' s)
              else do {
                let inode = get_inodes s (unat ino div 8) ! (unat ino mod 8);
                if i_type inode \<noteq> FILE_DIR then Some (printks ''Error: not a directory.\<newline>'' s)
                else do {
                  let p = pointers inode ! 0;
                  Some (s\<lparr>current_dir := dec_dir (get_sector s p), current_dir_pointer := p\<rparr>) } } } } }"

section \<open>Files\<close>

definition touch :: "u8 list \<Rightarrow> fs_state \<Rightarrow> fs_state option" where
  "touch nm s =
     do { r \<leftarrow> new_entry nm s;
          case r of
            Inl s1 \<Rightarrow> Some s1
          | Inr (ino, s1) \<Rightarrow>
              (let g = ino div 8; k = ino - g * 8; inodes = get_inodes s1 g;
                   inode' = (inodes ! k)\<lparr>i_type := FILE_NORMAL, links := 1, i_size := 0, size_allocated := 0\<rparr>
               in Some (put_sector (iarray_sector g) (enc_inodes (inodes[k := inode'])) s1)) }"

definition fd_array_alloc :: "fs_state \<Rightarrow> (int \<times> fs_state) option" where
  "fd_array_alloc s = do { (i, l) \<leftarrow> slist_alloc (fd_array_slist s); Some (i - 1, s\<lparr>fd_array_slist := l\<rparr>) }"

definition fd_array_free :: "fs_state \<Rightarrow> int \<Rightarrow> (int \<times> fs_state) option" where
  "fd_array_free s index =
     do { (r, l) \<leftarrow> slist_free (fd_array_slist s) (index + 1) (int FD_ARRAY_SLIST_SIZE);
          Some (r, s\<lparr>fd_array_slist := l\<rparr>) }"

text \<open>The sector and the place in it of inode \<open>ino\<close>, an \<^verbatim>\<open>int\<close>: \<^verbatim>\<open>ino_group = ino/8; ino = ino - ino_group*8\<close>.\<close>

definition inode_group :: "int \<Rightarrow> u32 \<times> int" where
  "inode_group ino = (let g = c_div ino 8 in (IARRAY_ADDR + word_of_int g * SECTOR, ino - g * 8))"

text \<open>The descriptor is given the number of the inode within its sector, not the number of the inode.\<close>

definition fopen :: "u8 list \<Rightarrow> u32 \<Rightarrow> fs_state \<Rightarrow> (u32 \<times> fs_state) option" where
  "fopen nm acc s =
     do { ino \<leftarrow> is_file_exist s nm;
          if ino = 0 then Some (-1, s)
          else do {
            let (a, k) = inode_group (sint ino);
            inode \<leftarrow> arr_get (dec_inodes (get_sector s a)) k;
            if i_type inode \<noteq> FILE_NORMAL then Some (-1, s)
            else do {
              (fd, s1) \<leftarrow> fd_array_alloc s;
              if fd = -1 then Some (-1, s1)
              else do {
                fds \<leftarrow> arr_set (fd_array s1) fd \<lparr>f_ino = word_of_int k, access = acc, f_size = i_size inode, f_offset = 0\<rparr>;
                Some (word_of_int fd, s1\<lparr>fd_array := fds\<rparr>) } } } }"

definition fclose :: "int \<Rightarrow> fs_state \<Rightarrow> (u32 \<times> fs_state) option" where
  "fclose fd s =
     (if fd = -1 then Some (0, s)
      else do { (r, s1) \<leftarrow> fd_array_free s fd; Some (word_of_int r, s1) })"

text \<open>\<^verbatim>\<open>sdread((uint8_t *)d, p, SECTOR_SIZE); \<dots> d[i]\<close>\<close>

definition indirect :: "fs_state \<Rightarrow> u32 \<Rightarrow> nat \<Rightarrow> u32" where
  "indirect s p i = dec_u32s 128 (get_sector s p) ! i"

text \<open>\<open>None\<close> is the panic of the default case. The second result of the code, \<^verbatim>\<open>*offset_remain\<close>, is
  \<open>offset_remain\<close>.\<close>

definition offset_remain :: "u32 \<Rightarrow> u32" where
  "offset_remain offset = offset - offset div 512 * 512"

definition offset_to_pointer :: "fs_state \<Rightarrow> inode_t \<Rightarrow> u32 \<Rightarrow> u32 option" where
  "offset_to_pointer s inode offset =
     (let b = unat (offset div 512);
          seg = (if b \<ge> 10 then 1 else 0) + (if b \<ge> 138 then 1 else 0) + (if b \<ge> 16522 then 1 else 0)
                + (if b \<ge> 2113674 then (1 :: nat) else 0) in
      if seg = 0 then Some (pointers inode ! b)
      else if seg = 1 then Some (indirect s (pointers inode ! 10) (b - 10))
      else if seg = 2 then
        let c = b - 138; i = c div 128
        in Some (indirect s (indirect s (pointers inode ! 11) i) (c - i * 128))
      else if seg = 3 then
        let c = b - 16522; i = c div (128 * 128); d = c - i * 128 * 128; k = d div 128
        in Some (indirect s (indirect s (indirect s (pointers inode ! 12) i) k) (d - k * 128))
      else None)"

text \<open>The loop of \<^verbatim>\<open>fread\<close>: the bytes read, and the descriptor's new offset.\<close>

partial_function (option) fread_loop :: "fs_state \<Rightarrow> inode_t \<Rightarrow> u32 \<Rightarrow> u32 \<Rightarrow> (u8 list \<times> u32) option" where
  "fread_loop s inode offset size_remain =
     (if size_remain = 0 then Some ([], offset)
      else do {
        p \<leftarrow> offset_to_pointer s inode offset;
        let o_r = offset_remain offset;
        let read_size = (if size_remain < SECTOR - o_r then size_remain else SECTOR - o_r);
        let bytes = take (unat read_size) (drop (unat o_r) (get_sector s p));
        (bs, off) \<leftarrow> fread_loop s inode (offset + read_size) (size_remain - read_size);
        Some (bytes @ bs, off) })"

definition fread :: "int \<Rightarrow> u32 \<Rightarrow> fs_state \<Rightarrow> (u32 \<times> u8 list \<times> fs_state) option" where
  "fread fd sz s =
     (if fd = -1 then Some (0, [], s)
      else do {
        f \<leftarrow> arr_get (fd_array s) fd;
        if access f \<noteq> O_RDWR \<and> access f \<noteq> O_RD then Some (0, [], s)
        else do {
          let (a, k) = inode_group (sint (f_ino f));
          inode \<leftarrow> arr_get (dec_inodes (get_sector s a)) k;
          let remain = f_size f - f_offset f;
          let total_size = (if remain < sz then remain else sz);
          (bs, off) \<leftarrow> fread_loop s inode (f_offset f) total_size;
          fds \<leftarrow> arr_set (fd_array s) fd (f\<lparr>f_offset := off\<rparr>);
          Some (total_size, bs, s\<lparr>fd_array := fds\<rparr>) } })"

text \<open>\<^verbatim>\<open>get_curr_dir_name\<close> returns the address of \<^verbatim>\<open>current_dir.name\<close>; here, the bytes from there on.\<close>

definition get_curr_dir_name :: "fs_state \<Rightarrow> u8 list" where
  "get_curr_dir_name s = dir_name (current_dir s)"

text \<open>
  The loop of \<^verbatim>\<open>fwrite\<close>, on the inode (a local of the code) and the descriptor; the flag says whether
  all bytes were written. Sectors are allocated until the rest of the data fits, then it is written
  sector by sector.
\<close>

partial_function (option) fwrite_loop ::
  "fs_state \<Rightarrow> inode_t \<Rightarrow> fd_t \<Rightarrow> u8 list \<Rightarrow> u32 \<Rightarrow> u32 \<Rightarrow> (u32 \<times> inode_t \<times> fd_t \<times> fs_state) option"
where
  "fwrite_loop s inode f buf sz size_written =
     (if sz = 0 then Some (size_written, inode, f, s)
      else if size_allocated inode - f_offset f \<ge> sz then
        do { p \<leftarrow> offset_to_pointer s inode (f_offset f);
             let read_size = offset_remain (f_offset f);
             let write_buf = get_sector s p;
             let t = (if sz < 512 - read_size then sz else 512 - read_size);
             _ \<leftarrow> (if unat t \<le> length buf then Some () else None);
             let wb = take (unat read_size) write_buf @ take (unat t) buf @ drop (unat (read_size + t)) write_buf;
             fwrite_loop (put_sector p wb s) (inode\<lparr>i_size := i_size inode + t\<rparr>)
               (f\<lparr>f_offset := f_offset f + t, f_size := f_size f + t\<rparr>) (drop (unat t) buf) (sz - t) (size_written + t) }
      else
        do { let pi = unat (size_allocated inode div 512);
             (dno, s1) \<leftarrow> darray_alloc s;
             if dno = -1 then Some (size_written, inode, f, s1)
             else do {
               ps \<leftarrow> arr_set (pointers inode) (int pi) (DARRAY_ADDR + word_of_int dno * SECTOR);
               fwrite_loop s1 (inode\<lparr>pointers := ps, size_allocated := size_allocated inode + 512\<rparr>) f buf sz size_written } })"

definition fwrite :: "int \<Rightarrow> u8 list \<Rightarrow> u32 \<Rightarrow> fs_state \<Rightarrow> (u32 \<times> fs_state) option" where
  "fwrite fd buf sz s =
     (if fd = -1 then Some (0, s)
      else do {
        f \<leftarrow> arr_get (fd_array s) fd;
        if access f \<noteq> O_RDWR \<and> access f \<noteq> O_WR then Some (0, s)
        else do {
          let (a, k) = inode_group (sint (f_ino f));
          let inodes = dec_inodes (get_sector s a);
          inode \<leftarrow> arr_get inodes k;
          (n, inode', f', s1) \<leftarrow> fwrite_loop s inode f buf sz 0;
          fds \<leftarrow> arr_set (fd_array s1) fd f';
          inodes' \<leftarrow> arr_set inodes k inode';
          Some (n, put_sector a (enc_inodes inodes') (s1\<lparr>fd_array := fds\<rparr>)) } })"

definition fseek :: "int \<Rightarrow> u32 \<Rightarrow> fs_state \<Rightarrow> fs_state option" where
  "fseek fd offset s =
     (if fd = -1 then Some s
      else do { f \<leftarrow> arr_get (fd_array s) fd;
                fds \<leftarrow> arr_set (fd_array s) fd (f\<lparr>f_offset := offset\<rparr>);
                Some (s\<lparr>fd_array := fds\<rparr>) })"

end
