(* ===== verification/Fs_Alloc.thy ===== *)
theory Fs_Alloc
  imports Fs_Ops
begin

text \<open>
  Sectors and allocators of the file system. Sector-aligned transfers do not interfere; the bitmaps of
  inodes and data blocks are first-fit allocators whose copies on the card and whose usage counters
  agree with the memory. The contract is the locale \<open>id_allocator\<close>, interpreted for inodes
  (\<open>ino\<close>) and for data blocks (\<open>dat\<close>).
\<close>

section \<open>Sectors\<close>

definition aligned :: "u32 \<Rightarrow> bool" where
  "aligned a \<longleftrightarrow> unat a mod SECTOR_SIZE = 0"

lemma aligned_apart:
  assumes "aligned a" "aligned b" "a \<noteq> b"
  shows "apart a SECTOR_SIZE b SECTOR_SIZE"
proof -
  obtain x y where x: "unat a = 512 * x" "unat b = 512 * y"
    using assms(1,2) unfolding aligned_def by (meson mod_0_imp_dvd dvdE)
  have ne: "x \<noteq> y" using assms(3) x by (auto simp: word_unat_eq_iff)
  have lt: "unat a < 2 ^ 32" "unat b < 2 ^ 32"
    using unsigned_less[of a, where 'a = nat] unsigned_less[of b, where 'a = nat] by simp_all
  then have b: "x < 2 ^ 23" "y < 2 ^ 23" unfolding x by simp_all
  show ?thesis unfolding apart_def x using ne b by (cases "x < y") simp_all
qed

lemma length_get_sector [simp]: "length (get_sector s a) = SECTOR_SIZE"
  by (simp add: get_sector_def)

lemma get_put_sector:
  assumes "length bs = SECTOR_SIZE" "aligned a" "aligned b"
  shows "get_sector (put_sector a bs s) b = (if a = b then bs else get_sector s b)"
  using assms sd_read_write_same[of bs "disk s" a] sd_read_write_apart[of a bs b SECTOR_SIZE "disk s"] aligned_apart[of a b]
  by (auto simp: get_sector_def put_sector_def)

lemma put_sector_simps [simp]:
  "fd_array (put_sector a bs s) = fd_array s" "fd_array_slist (put_sector a bs s) = fd_array_slist s"
  "super_block (put_sector a bs s) = super_block s" "current_dir (put_sector a bs s) = current_dir s"
  "current_dir_pointer (put_sector a bs s) = current_dir_pointer s" "imap (put_sector a bs s) = imap s"
  "smap (put_sector a bs s) = smap s" "smap_index (put_sector a bs s) = smap_index s"
  "console (put_sector a bs s) = console s"
  by (simp_all add: put_sector_def)

lemma get_sector_cong: "disk s' = disk s \<Longrightarrow> get_sector s' a = get_sector s a"
  by (simp add: get_sector_def)

lemma get_sector_upd [simp]:
  "get_sector (s\<lparr>fd_array := x1\<rparr>) a = get_sector s a" "get_sector (s\<lparr>fd_array_slist := x2\<rparr>) a = get_sector s a"
  "get_sector (s\<lparr>super_block := x3\<rparr>) a = get_sector s a" "get_sector (s\<lparr>current_dir := x4\<rparr>) a = get_sector s a"
  "get_sector (s\<lparr>current_dir_pointer := x5\<rparr>) a = get_sector s a" "get_sector (s\<lparr>imap := x6\<rparr>) a = get_sector s a"
  "get_sector (s\<lparr>smap := x7\<rparr>) a = get_sector s a" "get_sector (s\<lparr>smap_index := x8\<rparr>) a = get_sector s a"
  "get_sector (s\<lparr>console := x9\<rparr>) a = get_sector s a"
  by (simp_all add: get_sector_def)

text \<open>The regions of the card.\<close>

lemma aligned_consts [simp]: "aligned FS_BASE" "aligned IMAP_ADDR" "aligned SMAP_ADDR" "aligned IARRAY_ADDR" "aligned DARRAY_ADDR"
  by (simp_all add: aligned_def)

lemma unat_smap_sector: "unat si < 256 \<Longrightarrow> unat (smap_sector si) = 0x1000400 + unat si * 512"
  by (simp add: smap_sector_def unat_plus_if' unat_mult_lem[THEN iffD1])

lemma unat_iarray_sector: "g < 512 \<Longrightarrow> unat (iarray_sector g) = 0x1020400 + g * 512"
proof -
  assume g: "g < 512"
  have "iarray_sector g = word_of_nat (0x1020400 + g * 512)" by (simp add: iarray_sector_def)
  then show ?thesis using g unat_word_of_nat_small[of "0x1020400 + g * 512", where 'a = 32] by simp
qed

definition data_sector :: "nat \<Rightarrow> u32" where
  "data_sector n = DARRAY_ADDR + word_of_int (int n) * SECTOR"

lemma unat_data_sector: "n < 1048576 \<Longrightarrow> unat (data_sector n) = 0x1080000 + n * 512"
proof -
  assume n: "n < 1048576"
  have "data_sector n = word_of_nat (0x1080000 + n * 512)" by (simp add: data_sector_def)
  then show ?thesis using n unat_word_of_nat_small[of "0x1080000 + n * 512", where 'a = 32] by simp
qed

section \<open>Bitmaps\<close>

lemma scan_word_spec:
  "j \<le> 32 \<Longrightarrow> (let r = scan_word t j in j \<le> r \<and> r \<le> 32 \<and> (\<forall>k. j + k < r \<longrightarrow> bit t k) \<and> (r < 32 \<longrightarrow> \<not> bit t (r - j)))"
proof (induction t j rule: scan_word.induct)
  case (1 t j)
  show ?case
  proof (cases "t AND 1 \<noteq> 0 \<and> j < 32")
    case True
    let ?r = "scan_word (drop_bit 1 t) (Suc j)"
    have ih: "Suc j \<le> ?r" "?r \<le> 32" "\<And>k. Suc j + k < ?r \<Longrightarrow> bit t (Suc k)" "?r < 32 \<Longrightarrow> \<not> bit t (Suc (?r - Suc j))"
      using 1 True by (auto simp: Let_def bit_drop_bit_eq)
    have r: "scan_word t j = ?r" using True by (subst scan_word.simps) simp
    have "bit t 0" using True by (simp add: bit_0 and_one_eq odd_iff_mod_2_eq_one split: if_splits)
    then have "bit t k" if "j + k < ?r" for k using ih(3)[of "k - 1"] that by (cases k) auto
    moreover have "Suc (?r - Suc j) = ?r - j" using ih(1) by simp
    ultimately show ?thesis using ih r by (auto simp: Let_def)
  next
    case False
    then have r: "scan_word t j = j" by (subst scan_word.simps) auto
    have "\<not> bit t 0" if "j < 32" using False that by (simp add: bit_0 and_one_eq even_iff_mod_2_eq_zero)
    then show ?thesis using r 1(2) by (auto simp: Let_def)
  qed
qed

definition bit_at :: "u32 list \<Rightarrow> nat \<Rightarrow> bool" where
  "bit_at ws n \<longleftrightarrow> bit (ws ! (n div 32)) (n mod 32)"

lemma scan_map_spec:
  "(case scan_map ws i of (a, j) \<Rightarrow>
     (j = 32 \<and> a = i + length ws \<and> (\<forall>w\<in>set ws. \<forall>k<32. bit w k)) \<or>
     (j < 32 \<and> i \<le> a \<and> a < i + length ws \<and> \<not> bit (ws ! (a - i)) j \<and> (\<forall>k<j. bit (ws ! (a - i)) k) \<and>
      (\<forall>x<a - i. \<forall>k<32. bit (ws ! x) k)))"
proof (induction ws arbitrary: i)
  case (Cons w ws)
  have w: "scan_word w 0 \<le> 32" "\<And>k. k < scan_word w 0 \<Longrightarrow> bit w k" "scan_word w 0 < 32 \<Longrightarrow> \<not> bit w (scan_word w 0)"
    using scan_word_spec[of 0 w] by (auto simp: Let_def)
  show ?case
  proof (cases "scan_word w 0 = 32")
    case True
    then show ?thesis
      using Cons.IH[of "Suc i"] w(2) by (auto simp: Let_def nth_Cons' split: prod.splits)
  next
    case False
    then show ?thesis using w by (auto simp: Let_def)
  qed
qed simp

lemma scan_map_cases:
  assumes "length ws = n"
  obtains (full) "scan_map ws 0 = (n, 32)" "\<And>k. k < n * 32 \<Longrightarrow> bit_at ws k"
  | (found) i j where "scan_map ws 0 = (i, j)" "i < n" "j < 32" "\<not> bit_at ws (i * 32 + j)"
      "\<And>k. k < i * 32 + j \<Longrightarrow> bit_at ws k"
proof -
  obtain i j where s: "scan_map ws 0 = (i, j)" by fastforce
  from scan_map_spec[where ws = ws and i = 0] s assms consider
    "j = 32" "i = n" "\<forall>w\<in>set ws. \<forall>k<32. bit w k" 
      | "j < 32" "i < n" "\<not> bit (ws ! i) j" "\<forall>k<j. bit (ws ! i) k" "\<forall>x<i. \<forall>k<32. bit (ws ! x) k" by auto
  then show ?thesis
  proof cases
    case 1
    then have "bit_at ws k" if "k < n * 32" for k
      using that assms nth_mem[of "k div 32" ws] by (auto simp: bit_at_def div_less_iff_less_mult)
    then show ?thesis using full s 1 by simp
  next
    case 2
    have "bit_at ws k" if k: "k < i * 32 + j" for k
    proof (cases "k div 32 = i")
      case True
      then have "k mod 32 < j" using k by (metis div_mult_mod_eq nat_add_left_cancel_less)
      then show ?thesis using 2(4) True by (simp add: bit_at_def)
    next
      case False
      moreover have "k div 32 < Suc i" using k 2(1) by (simp add: div_less_iff_less_mult)
      ultimately show ?thesis using 2(5) by (simp add: bit_at_def)
    qed
    then show ?thesis using found[of i j] s 2 by (simp add: bit_at_def)
  qed
qed

lemma bit_at_set:
  assumes "length ws = n" "k < n * 32"
  shows "bit_at (ws[k div 32 := ws ! (k div 32) OR push_bit (k mod 32) 1]) x \<longleftrightarrow> x = k \<or> bit_at ws x"
proof -
  have d: "k div 32 < length ws" using assms by (simp add: div_less_iff_less_mult)
  have "bit (push_bit (k mod 32) 1 :: u32) (x mod 32) \<longleftrightarrow> x mod 32 = k mod 32"
    by (auto simp: bit_exp_iff)
  moreover have "x = k \<longleftrightarrow> x div 32 = k div 32 \<and> x mod 32 = k mod 32" by (metis div_mult_mod_eq)
  ultimately show ?thesis using d by (auto simp: bit_at_def nth_list_update bit_or_iff simp del: push_bit_of_1)
qed

lemma bit_at_clear:
  assumes "length ws = n" "k < n * 32"
  shows "bit_at (ws[k div 32 := ws ! (k div 32) AND NOT (push_bit (k mod 32) 1)]) x \<longleftrightarrow> x \<noteq> k \<and> bit_at ws x"
proof -
  have d: "k div 32 < length ws" using assms by (simp add: div_less_iff_less_mult)
  have "bit (push_bit (k mod 32) 1 :: u32) (x mod 32) \<longleftrightarrow> x mod 32 = k mod 32"
    by (auto simp: bit_exp_iff)
  moreover have "x = k \<longleftrightarrow> x div 32 = k div 32 \<and> x mod 32 = k mod 32" by (metis div_mult_mod_eq)
  moreover have "x mod 32 < 32" by simp
  ultimately show ?thesis using d by (auto simp: bit_at_def nth_list_update bit_and_iff bit_not_iff simp del: push_bit_of_1)
qed

section \<open>The contract of an allocator of numbers\<close>

text \<open>
  \<open>used s n\<close>: the number \<open>n < cap\<close> is allocated. An allocation gives a number that was not, or fails,
  and then every number from \<open>low s\<close> on is in use.
\<close>

locale id_allocator =
  fixes inv :: "'s \<Rightarrow> bool" and used :: "'s \<Rightarrow> nat \<Rightarrow> bool" and cap :: nat and low :: "'s \<Rightarrow> nat"
    and alloc :: "'s \<Rightarrow> (int \<times> 's) option" and free :: "nat \<Rightarrow> 's \<Rightarrow> 's option"
  assumes alloc_ok: "inv s \<Longrightarrow> \<exists>r s'. alloc s = Some (r, s') \<and> inv s' \<and>
      (r = -1 \<and> (\<forall>n. low s \<le> n \<longrightarrow> n < cap \<longrightarrow> used s n) \<and> (\<forall>n. used s' n = used s n) \<or>
       (\<exists>n. r = int n \<and> n < cap \<and> \<not> used s n \<and> (\<forall>k. used s' k \<longleftrightarrow> k = n \<or> used s k)))"
    and free_ok: "inv s \<Longrightarrow> used s n \<Longrightarrow> \<exists>s'. free n s = Some s' \<and> inv s' \<and> (\<forall>k. used s' k \<longleftrightarrow> used s k \<and> k \<noteq> n)"
    and used_less: "used s n \<Longrightarrow> n < cap"
begin

lemma alloc_fresh:
  assumes "inv s" "alloc s = Some (r, s')" "r \<noteq> -1"
  shows "0 \<le> r \<and> nat r < cap \<and> \<not> used s (nat r) \<and> inv s' \<and> (\<forall>k. used s' k \<longleftrightarrow> k = nat r \<or> used s k)"
proof -
  from alloc_ok[OF assms(1)] assms(2,3) obtain n where
    "r = int n" "n < cap" "\<not> used s n" "inv s'" "\<forall>k. used s' k \<longleftrightarrow> k = n \<or> used s k" by force
  then show ?thesis by simp
qed

lemma alloc_exhausted:
  assumes "inv s" "alloc s = Some (-1, s')"
  shows "\<forall>n. low s \<le> n \<longrightarrow> n < cap \<longrightarrow> used s n"
  using alloc_ok[OF assms(1)] assms(2) by force

text \<open>Freeing what was just allocated restores the set of used numbers.\<close>

lemma alloc_free:
  assumes "inv s" "alloc s = Some (r, s')" "r \<noteq> -1"
  shows "\<exists>s''. free (nat r) s' = Some s'' \<and> inv s'' \<and> (\<forall>k. used s'' k = used s k)"
proof -
  from alloc_fresh[OF assms] have *: "inv s'" "used s' (nat r)" "\<not> used s (nat r)" by auto
  from free_ok[OF *(1,2)] alloc_fresh[OF assms] *(3) show ?thesis by auto
qed

text \<open>Two allocations in a row give different numbers.\<close>

lemma alloc_distinct:
  assumes "inv s" "alloc s = Some (r, s')" "r \<noteq> -1" "alloc s' = Some (r', s'')" "r' \<noteq> -1"
  shows "r \<noteq> r'"
proof -
  from alloc_fresh[OF assms(1-3)] have "inv s'" "used s' (nat r)" by simp_all
  with alloc_fresh[OF _ assms(4,5)] show ?thesis by blast
qed

end

section \<open>Inodes\<close>

definition super_ok :: "fs_state \<Rightarrow> bool" where
  "super_ok s \<longleftrightarrow> wf_super (super_block s) \<and> get_sector s FS_BASE = enc_super (super_block s)"

definition ino_used :: "fs_state \<Rightarrow> nat \<Rightarrow> bool" where
  "ino_used s n \<longleftrightarrow> n < 4096 \<and> bit_at (imap s) n"

definition imap_ok :: "fs_state \<Rightarrow> bool" where
  "imap_ok s \<longleftrightarrow> super_ok s \<and> length (imap s) = 128 \<and> get_sector s IMAP_ADDR = enc_u32s (imap s) \<and>
     inode_used (super_block s) = word_of_nat (card {n. ino_used s n})"

definition put_imap :: "u32 list \<Rightarrow> u32 \<Rightarrow> fs_state \<Rightarrow> fs_state" where
  "put_imap m u s = (let sb = (super_block s)\<lparr>inode_used := u\<rparr> in
     put_sector FS_BASE (enc_super sb) (put_sector IMAP_ADDR (enc_u32s m) (s\<lparr>imap := m, super_block := sb\<rparr>)))"

lemma put_imap_simps [simp]:
  "imap (put_imap m u s) = m" "super_block (put_imap m u s) = (super_block s)\<lparr>inode_used := u\<rparr>"
  "smap (put_imap m u s) = smap s" "smap_index (put_imap m u s) = smap_index s"
  "current_dir (put_imap m u s) = current_dir s" "current_dir_pointer (put_imap m u s) = current_dir_pointer s"
  "fd_array (put_imap m u s) = fd_array s" "fd_array_slist (put_imap m u s) = fd_array_slist s"
  "console (put_imap m u s) = console s"
  by (simp_all add: put_imap_def Let_def)

lemma get_put_imap:
  assumes "length m = 128" "wf_super (super_block s)" "aligned a"
  shows "get_sector (put_imap m u s) a =
    (if a = FS_BASE then enc_super ((super_block s)\<lparr>inode_used := u\<rparr>)
     else if a = IMAP_ADDR then enc_u32s m else get_sector s a)"
proof -
  have "wf_super ((super_block s)\<lparr>inode_used := u\<rparr>)" using assms(2) by (simp add: wf_super_def)
  then show ?thesis using assms by (simp add: put_imap_def Let_def get_put_sector length_enc_super)
qed

lemma finite_ino_used [simp]: "finite {n. ino_used s n}"
  by (rule finite_subset[of _ "{..<4096}"]) (auto simp: ino_used_def)

lemma iarray_alloc_cases:
  assumes "imap_ok s"
  obtains (full) "iarray_alloc s = Some (-1, s)" "\<And>n. n < 4096 \<Longrightarrow> ino_used s n"
  | (found) n m where "n < 4096" "\<not> ino_used s n" "length m = 128" "\<And>k. bit_at m k \<longleftrightarrow> k = n \<or> bit_at (imap s) k"
      "iarray_alloc s = Some (int n, put_imap m (inode_used (super_block s) + 1) s)" "\<And>k. k < n \<Longrightarrow> ino_used s k"
proof -
  have l: "length (imap s) = 128" using assms by (simp add: imap_ok_def)
  from l show ?thesis
  proof (cases rule: scan_map_cases)
    case full
    then show ?thesis using that(1) by (simp add: iarray_alloc_def ino_used_def)
  next
    case (found i j)
    let ?n = "i * 32 + j" and ?m = "(imap s)[i := imap s ! i OR push_bit j 1]"
    have d: "?n div 32 = i" "?n mod 32 = j" "?n < 128 * 32" using found by simp_all
    have "bit_at ?m k \<longleftrightarrow> k = ?n \<or> bit_at (imap s) k" for k using bit_at_set[OF l d(3), of k] d by simp
    moreover have "iarray_alloc s = Some (int ?n, put_imap ?m (inode_used (super_block s) + 1) s)"
      using found l by (simp add: iarray_alloc_def put_imap_def put_sector_def Let_def)
    ultimately show ?thesis using that(2)[of ?n ?m] found d l by (simp add: ino_used_def)
  qed
qed

lemma imap_ok_put:
  assumes "imap_ok s" "length m = 128" and u: "u = word_of_nat (card {n. n < 4096 \<and> bit_at m n})"
  shows "imap_ok (put_imap m u s)"
proof -
  have "wf_super ((super_block s)\<lparr>inode_used := u\<rparr>)" using assms(1) by (simp add: imap_ok_def super_ok_def wf_super_def)
  then show ?thesis using assms by (simp add: imap_ok_def super_ok_def get_put_imap ino_used_def)
qed

lemma iarray_free_eq:
  assumes "imap_ok s" "n < 4096"
  shows "\<exists>m. length m = 128 \<and> (\<forall>k. bit_at m k \<longleftrightarrow> k \<noteq> n \<and> bit_at (imap s) k) \<and>
     iarray_free n s = Some (put_imap m (inode_used (super_block s) - 1) s)"
proof -
  have l: "length (imap s) = 128" using assms by (simp add: imap_ok_def)
  let ?m = "(imap s)[n div 32 := imap s ! (n div 32) AND NOT (push_bit (n mod 32) 1)]"
  have "n div 32 < 128" "n - n div 32 * 32 = n mod 32" using assms(2) by (simp_all add: minus_div_mult_eq_mod)
  then have "iarray_free n s = Some (put_imap ?m (inode_used (super_block s) - 1) s)"
    using l by (simp add: iarray_free_def put_imap_def put_sector_def Let_def)
  moreover have "n < 128 * 32" using assms(2) by simp
  ultimately show ?thesis using bit_at_clear[OF l, of n] l by (intro exI[of _ ?m]) simp
qed

interpretation ino: id_allocator imap_ok ino_used 4096 "\<lambda>_. 0" iarray_alloc iarray_free
proof
  fix s assume ok: "imap_ok s"
  from ok show "\<exists>r s'. iarray_alloc s = Some (r, s') \<and> imap_ok s' \<and>
      (r = -1 \<and> (\<forall>n. 0 \<le> n \<longrightarrow> n < 4096 \<longrightarrow> ino_used s n) \<and> (\<forall>n. ino_used s' n = ino_used s n) \<or>
       (\<exists>n. r = int n \<and> n < 4096 \<and> \<not> ino_used s n \<and> (\<forall>k. ino_used s' k \<longleftrightarrow> k = n \<or> ino_used s k)))"
  proof (cases rule: iarray_alloc_cases)
    case full
    then show ?thesis using ok by auto
  next
    case (found n m)
    let ?s = "put_imap m (inode_used (super_block s) + 1) s"
    have u: "ino_used ?s k \<longleftrightarrow> k = n \<or> ino_used s k" for k using found by (auto simp: ino_used_def)
    have "{k. k < 4096 \<and> bit_at m k} = insert n {k. ino_used s k}" using found by (auto simp: ino_used_def)
    then have "card {k. k < 4096 \<and> bit_at m k} = Suc (card {k. ino_used s k})" using found(2) by simp
    then have "imap_ok ?s" using ok found(3) by (intro imap_ok_put) (simp_all add: imap_ok_def add.commute)
    then show ?thesis using found u by auto
  qed
next
  fix s n assume ok: "imap_ok s" and n: "ino_used s n"
  then obtain m where m: "length m = 128" "\<And>k. bit_at m k \<longleftrightarrow> k \<noteq> n \<and> bit_at (imap s) k"
    "iarray_free n s = Some (put_imap m (inode_used (super_block s) - 1) s)"
    using iarray_free_eq[of s n] by (auto simp: ino_used_def)
  let ?s = "put_imap m (inode_used (super_block s) - 1) s"
  have "{k. ino_used s k} = insert n {k. k < 4096 \<and> bit_at m k}" using m n by (auto simp: ino_used_def)
  then have "card {k. ino_used s k} = Suc (card {k. k < 4096 \<and> bit_at m k})" using m(2) by simp
  then have "imap_ok ?s" using ok m(1) by (intro imap_ok_put) (simp_all add: imap_ok_def)
  then show "\<exists>s'. iarray_free n s = Some s' \<and> imap_ok s' \<and> (\<forall>k. ino_used s' k \<longleftrightarrow> ino_used s k \<and> k \<noteq> n)"
    using m by (auto simp: ino_used_def)
qed (simp add: ino_used_def)

section \<open>Data blocks\<close>

definition smap_at :: "fs_state \<Rightarrow> nat \<Rightarrow> u32 list" where
  "smap_at s i = dec_u32s 128 (get_sector s (smap_sector (word_of_nat i)))"

definition dat_used :: "fs_state \<Rightarrow> nat \<Rightarrow> bool" where
  "dat_used s n \<longleftrightarrow> n < 1048576 \<and> bit_at (smap_at s (n div 4096)) (n mod 4096)"

definition smap_ok :: "fs_state \<Rightarrow> bool" where
  "smap_ok s \<longleftrightarrow> super_ok s \<and> length (smap s) = 128 \<and> unat (smap_index s) \<le> 256 \<and>
     (unat (smap_index s) < 256 \<longrightarrow> get_sector s (smap_sector (smap_index s)) = enc_u32s (smap s)) \<and>
     data_used (super_block s) = word_of_nat (card {n. dat_used s n})"

definition put_smap :: "u32 list \<Rightarrow> u32 \<Rightarrow> fs_state \<Rightarrow> fs_state" where
  "put_smap m u s = (let sb = (super_block s)\<lparr>data_used := u\<rparr> in
     put_sector FS_BASE (enc_super sb) (put_sector (smap_sector (smap_index s)) (enc_u32s m) (s\<lparr>smap := m, super_block := sb\<rparr>)))"

lemma put_smap_simps [simp]:
  "smap (put_smap m u s) = m" "super_block (put_smap m u s) = (super_block s)\<lparr>data_used := u\<rparr>"
  "imap (put_smap m u s) = imap s" "smap_index (put_smap m u s) = smap_index s"
  "current_dir (put_smap m u s) = current_dir s" "current_dir_pointer (put_smap m u s) = current_dir_pointer s"
  "fd_array (put_smap m u s) = fd_array s" "fd_array_slist (put_smap m u s) = fd_array_slist s"
  "console (put_smap m u s) = console s"
  by (simp_all add: put_smap_def Let_def)

lemma aligned_smap_sector: "unat si < 256 \<Longrightarrow> aligned (smap_sector si)"
  by (simp add: aligned_def unat_smap_sector)

lemma smap_sector_inj: "unat a < 256 \<Longrightarrow> unat b < 256 \<Longrightarrow> smap_sector a = smap_sector b \<longleftrightarrow> a = b"
  using unat_smap_sector[of a] unat_smap_sector[of b] by (auto simp: word_unat_eq_iff)

lemma smap_sector_other:
  assumes "unat si < 256"
  shows "smap_sector si \<noteq> FS_BASE" "smap_sector si \<noteq> IMAP_ADDR"
  using unat_smap_sector[OF assms] by (auto simp: word_unat_eq_iff)

lemma get_put_smap:
  assumes "length m = 128" "wf_super (super_block s)" "aligned a" "unat (smap_index s) < 256"
  shows "get_sector (put_smap m u s) a =
    (if a = FS_BASE then enc_super ((super_block s)\<lparr>data_used := u\<rparr>)
     else if a = smap_sector (smap_index s) then enc_u32s m else get_sector s a)"
proof -
  have "wf_super ((super_block s)\<lparr>data_used := u\<rparr>)" using assms(2) by (simp add: wf_super_def)
  then show ?thesis using assms aligned_smap_sector[of "smap_index s"]
    by (simp add: put_smap_def Let_def get_put_sector length_enc_super)
qed

lemma unat_small_index: "i < 256 \<Longrightarrow> unat (word_of_nat i :: u32) = i"
  by (simp add: unat_word_of_nat_small)

lemma smap_at_put:
  assumes "length m = 128" "wf_super (super_block s)" "unat (smap_index s) < 256" "i < 256"
  shows "smap_at (put_smap m u s) i = (if i = unat (smap_index s) then m else smap_at s i)"
proof -
  have i: "unat (word_of_nat i :: u32) = i" using assms(4) by (rule unat_small_index)
  have "word_of_nat i = smap_index s \<longleftrightarrow> i = unat (smap_index s)"
    unfolding word_unat_eq_iff i ..
  then show ?thesis
    using assms i by (simp add: smap_at_def get_put_smap aligned_smap_sector smap_sector_other smap_sector_inj dec_enc_u32s_n)
qed

lemma smap_at_index:
  assumes "smap_ok s" "unat (smap_index s) < 256"
  shows "smap_at s (unat (smap_index s)) = smap s"
  using assms by (simp add: smap_at_def smap_ok_def dec_enc_u32s_n)

lemma finite_dat_used [simp]: "finite {n. dat_used s n}"
  by (rule finite_subset[of _ "{..<1048576}"]) (auto simp: dat_used_def)

lemma dat_used_put:
  assumes ok: "smap_ok s" and m: "length m = 128" and i: "unat (smap_index s) < 256" and k: "k < 4096"
  shows "(\<And>x. bit_at m x \<longleftrightarrow> x = k \<or> bit_at (smap s) x) \<Longrightarrow>
           dat_used (put_smap m u s) n \<longleftrightarrow> n = unat (smap_index s) * 4096 + k \<or> dat_used s n"
    and "(\<And>x. bit_at m x \<longleftrightarrow> x \<noteq> k \<and> bit_at (smap s) x) \<Longrightarrow>
           dat_used (put_smap m u s) n \<longleftrightarrow> n \<noteq> unat (smap_index s) * 4096 + k \<and> dat_used s n"
proof -
  have wf: "wf_super (super_block s)" using ok by (simp add: smap_ok_def super_ok_def)
  have at: "smap_at (put_smap m u s) (n div 4096) = (if n div 4096 = unat (smap_index s) then m else smap_at s (n div 4096))"
    if "n < 1048576" using that smap_at_put[OF m wf i, of "n div 4096"] by (simp add: div_less_iff_less_mult)
  have eq: "n = unat (smap_index s) * 4096 + k \<longleftrightarrow> n div 4096 = unat (smap_index s) \<and> n mod 4096 = k"
    using k by (metis div_mult_mod_eq mod_mult_self3 mod_less div_mult_self3 div_less add.right_neutral add.commute zero_neq_numeral)
  have lt: "unat (smap_index s) * 4096 + k < 1048576" using i k by simp
  have used: "dat_used (put_smap m u s) n \<longleftrightarrow>
      (if n div 4096 = unat (smap_index s) then n < 1048576 \<and> bit_at m (n mod 4096) else dat_used s n)"
    using at by (auto simp: dat_used_def)
  have old: "n div 4096 = unat (smap_index s) \<Longrightarrow> dat_used s n \<longleftrightarrow> n < 1048576 \<and> bit_at (smap s) (n mod 4096)"
    using smap_at_index[OF ok i] by (simp add: dat_used_def)
  show "dat_used (put_smap m u s) n \<longleftrightarrow> n = unat (smap_index s) * 4096 + k \<or> dat_used s n"
    if b: "\<And>x. bit_at m x \<longleftrightarrow> x = k \<or> bit_at (smap s) x"
  proof (cases "n div 4096 = unat (smap_index s)")
    case True
    then show ?thesis using used old b[of "n mod 4096"] eq lt by metis
  next
    case False
    then show ?thesis using used eq by metis
  qed
  show "dat_used (put_smap m u s) n \<longleftrightarrow> n \<noteq> unat (smap_index s) * 4096 + k \<and> dat_used s n"
    if b: "\<And>x. bit_at m x \<longleftrightarrow> x \<noteq> k \<and> bit_at (smap s) x"
  proof (cases "n div 4096 = unat (smap_index s)")
    case True
    then show ?thesis using used old b[of "n mod 4096"] eq by metis
  next
    case False
    then show ?thesis using used eq by metis
  qed
qed

lemma smap_ok_put:
  assumes "smap_ok s" "length m = 128" "unat (smap_index s) < 256"
    and "u = word_of_nat (card {n. dat_used (put_smap m u s) n})"
  shows "smap_ok (put_smap m u s)"
proof -
  have "wf_super ((super_block s)\<lparr>data_used := u\<rparr>)" using assms(1) by (simp add: smap_ok_def super_ok_def wf_super_def)
  then show ?thesis
    using assms smap_sector_other[OF assms(3)]
    by (simp add: smap_ok_def super_ok_def get_put_smap aligned_smap_sector)
qed

definition next_smap :: "fs_state \<Rightarrow> fs_state" where
  "next_smap s = s\<lparr>smap_index := smap_index s + 1, smap := dec_u32s 128 (get_sector s (smap_sector (smap_index s + 1)))\<rparr>"

lemma dat_used_cong: "(\<And>a. get_sector s' a = get_sector s a) \<Longrightarrow> dat_used s' = dat_used s"
  by (simp add: fun_eq_iff dat_used_def smap_at_def)

lemma next_smap_ok:
  assumes "smap_ok s" "unat (smap_index s) < 256"
  shows "smap_ok (next_smap s)" and "dat_used (next_smap s) = dat_used s"
    and "unat (smap_index (next_smap s)) = Suc (unat (smap_index s))"
proof -
  show u: "dat_used (next_smap s) = dat_used s" by (rule dat_used_cong) (simp add: next_smap_def)
  show i: "unat (smap_index (next_smap s)) = Suc (unat (smap_index s))"
    using assms(2) by (simp add: next_smap_def unat_plus_if')
  show "smap_ok (next_smap s)"
    using assms u i by (simp add: smap_ok_def super_ok_def next_smap_def enc_dec_u32s)
qed

lemma darray_alloc_ok:
  "smap_ok s \<Longrightarrow> \<exists>r s'. darray_alloc s = Some (r, s') \<and> smap_ok s' \<and>
      (r = -1 \<and> (\<forall>n. unat (smap_index s) * 4096 \<le> n \<longrightarrow> n < 1048576 \<longrightarrow> dat_used s n) \<and> (\<forall>n. dat_used s' n = dat_used s n) \<or>
       (\<exists>n. r = int n \<and> n < 1048576 \<and> \<not> dat_used s n \<and> (\<forall>k. dat_used s' k \<longleftrightarrow> k = n \<or> dat_used s k)))"
proof (induction s rule: darray_alloc.induct)
  case (1 s)
  show ?case
  proof (cases "smap_index s < 256")
    case False
    then have "darray_alloc s = Some (-1, s)" by (subst darray_alloc.simps) simp
    then show ?thesis using 1(2) False by (auto simp: word_less_nat_alt)
  next
    case True
    then have i: "unat (smap_index s) < 256" by (simp add: word_less_nat_alt)
    have l: "length (smap s) = 128" using 1(2) by (simp add: smap_ok_def)
    from l show ?thesis
    proof (cases rule: scan_map_cases)
      case full
      have e: "darray_alloc s = darray_alloc (next_smap s)"
        using full(1) True by (subst darray_alloc.simps) (simp add: next_smap_def)
      have u: "dat_used s n" if "n div 4096 = unat (smap_index s)" "n < 1048576" for n
        using that full(2)[of "n mod 4096"] smap_at_index[OF 1(2) i] by (simp add: dat_used_def)
      note nx = next_smap_ok[OF 1(2) i]
      have all: "dat_used s n" if "\<forall>n. unat (smap_index (next_smap s)) * 4096 \<le> n \<longrightarrow> n < 1048576 \<longrightarrow> dat_used (next_smap s) n"
        "unat (smap_index s) * 4096 \<le> n" "n < 1048576" for n
      proof (cases "n < Suc (unat (smap_index s)) * 4096")
        case True
        then have "n div 4096 = unat (smap_index s)" using that(2) by (simp add: div_nat_eqI)
        then show ?thesis using u that(3) by simp
      next
        case False
        then show ?thesis using that(1,3) nx by simp
      qed
      have "\<exists>r s'. darray_alloc (next_smap s) = Some (r, s') \<and> smap_ok s' \<and>
        (r = -1 \<and> (\<forall>n. unat (smap_index (next_smap s)) * 4096 \<le> n \<longrightarrow> n < 1048576 \<longrightarrow> dat_used (next_smap s) n) \<and>
           (\<forall>n. dat_used s' n = dat_used (next_smap s) n) \<or>
         (\<exists>n. r = int n \<and> n < 1048576 \<and> \<not> dat_used (next_smap s) n \<and> (\<forall>k. dat_used s' k \<longleftrightarrow> k = n \<or> dat_used (next_smap s) k)))"
        unfolding next_smap_def
        by (rule 1(1)[OF True refl full(1)[symmetric]]) (use nx(1) in \<open>simp_all add: next_smap_def\<close>)
      with e all nx(2) show ?thesis by fastforce
    next
      case (found a j)
      let ?k = "a * 32 + j" and ?m = "(smap s)[a := smap s ! a OR push_bit j 1]"
      let ?s = "put_smap ?m (data_used (super_block s) + 1) s" and ?n = "unat (smap_index s) * 4096 + (a * 32 + j)"
      have d: "?k div 32 = a" "?k mod 32 = j" "?k < 128 * 32" using found by simp_all
      have b: "bit_at ?m x \<longleftrightarrow> x = ?k \<or> bit_at (smap s) x" for x using bit_at_set[OF l d(3), of x] d by simp
      have u: "dat_used ?s n \<longleftrightarrow> n = ?n \<or> dat_used s n" for n
        using dat_used_put(1)[OF 1(2) _ i, of ?m ?k] b l d(3) by simp
      have n: "?n div 4096 = unat (smap_index s)" "?n mod 4096 = ?k" "?n < 1048576" using d(3) i by simp_all
      then have nu: "\<not> dat_used s ?n" using found(4) smap_at_index[OF 1(2) i] by (simp add: dat_used_def)
      have "{n. dat_used ?s n} = insert ?n {n. dat_used s n}" using u by auto
      then have "card {n. dat_used ?s n} = Suc (card {n. dat_used s n})" using nu by simp
      then have "smap_ok ?s" using 1(2) l i by (intro smap_ok_put) (simp_all add: smap_ok_def add.commute)
      moreover have "darray_alloc s = Some (int ?n, ?s)"
        using found True l by (subst darray_alloc.simps) (simp add: put_smap_def put_sector_def Let_def)
      ultimately show ?thesis using u nu n(3) by blast
    qed
  qed
qed

definition freed_smap :: "nat \<Rightarrow> fs_state \<Rightarrow> fs_state" where
  "freed_smap n s = (let s1 = s\<lparr>smap_index := word_of_nat (n div 4096), smap := smap_at s (n div 4096)\<rparr>; d = n mod 4096 in
     put_smap ((smap s1)[d div 32 := smap s1 ! (d div 32) AND NOT (push_bit (d mod 32) 1)]) (data_used (super_block s) - 1) s1)"

lemma darray_free_eq:
  assumes "n < 1048576"
  shows "darray_free n s = Some (freed_smap n s)"
proof -
  have "n mod 4096 div 32 < length (smap_at s (n div 4096))" by (simp add: smap_at_def div_less_iff_less_mult)
  then show ?thesis
    by (simp add: darray_free_def freed_smap_def minus_div_mult_eq_mod minus_mult_div_eq_mod put_smap_def put_sector_def Let_def smap_at_def)
qed

lemma darray_free_ok:
  assumes ok: "smap_ok s" and n: "dat_used s n"
  shows "\<exists>s'. darray_free n s = Some s' \<and> smap_ok s' \<and> (\<forall>k. dat_used s' k \<longleftrightarrow> dat_used s k \<and> k \<noteq> n)"
proof -
  let ?si = "n div 4096" and ?d = "n mod 4096"
  let ?s1 = "s\<lparr>smap_index := word_of_nat ?si, smap := smap_at s ?si\<rparr>"
  have lt: "n < 1048576" using n by (simp add: dat_used_def)
  then have si: "?si < 256" by (simp add: div_less_iff_less_mult)
  have us: "unat (smap_index ?s1) = ?si" using unat_small_index[OF si] by simp
  have u1: "dat_used ?s1 = dat_used s" by (rule dat_used_cong) simp
  have l: "length (smap ?s1) = 128" by (simp add: smap_at_def)
  have ok1: "smap_ok ?s1"
    using ok us u1 si by (simp add: smap_ok_def super_ok_def smap_at_def enc_dec_u32s)
  let ?m = "(smap ?s1)[?d div 32 := smap ?s1 ! (?d div 32) AND NOT (push_bit (?d mod 32) 1)]"
  define u where "u = data_used (super_block s) - 1"
  let ?s2 = "put_smap ?m u ?s1"
  have d: "?d < 128 * 32" "?d < 4096" by simp_all
  have b: "bit_at ?m x \<longleftrightarrow> x \<noteq> ?d \<and> bit_at (smap ?s1) x" for x by (rule bit_at_clear[OF l d(1)])
  have e: "unat (smap_index ?s1) * 4096 + ?d = n" unfolding us by (rule div_mult_mod_eq)
  have i1: "unat (smap_index ?s1) < 256" unfolding us by (rule si)
  have u2: "dat_used ?s2 k \<longleftrightarrow> k \<noteq> n \<and> dat_used s k" for k
    using dat_used_put(2)[OF ok1 _ i1 d(2), of ?m _ k] b l u1 e by simp
  have fr: "darray_free n s = Some ?s2" using darray_free_eq[OF lt] by (simp add: freed_smap_def u_def Let_def)
  have "{k. dat_used s k} = insert n {k. dat_used ?s2 k}" using u2 n by auto
  then have "card {k. dat_used s k} = Suc (card {k. dat_used ?s2 k})"
    using card_insert_disjoint[of "{k. dat_used ?s2 k}" n] u2 by (metis finite_dat_used mem_Collect_eq)
  moreover have "data_used (super_block s) = word_of_nat (card {k. dat_used s k})" using ok by (simp add: smap_ok_def)
  ultimately have "data_used (super_block s) = word_of_nat (Suc (card {k. dat_used ?s2 k}))" by argo
  then have "data_used (super_block s) - 1 = word_of_nat (card {k. dat_used ?s2 k})"
    by (metis add_diff_cancel_left' of_nat_Suc)
  then have "u = word_of_nat (card {k. dat_used ?s2 k})" by (metis u_def)
  then have "smap_ok ?s2" using l i1 by (intro smap_ok_put[OF ok1]) simp_all
  with fr u2 show ?thesis by auto
qed

interpretation dat: id_allocator smap_ok dat_used 1048576 "\<lambda>s. unat (smap_index s) * 4096" darray_alloc darray_free
  by unfold_locales (rule darray_alloc_ok darray_free_ok, assumption+ | simp add: dat_used_def)+

text \<open>What the data allocator leaves alone.\<close>

definition is_smap :: "u32 \<Rightarrow> bool" where
  "is_smap a \<longleftrightarrow> 0x1000400 \<le> unat a \<and> unat a < 0x1020400"

definition dat_frame :: "fs_state \<Rightarrow> fs_state \<Rightarrow> bool" where
  "dat_frame s s' \<longleftrightarrow> imap s' = imap s \<and> current_dir s' = current_dir s \<and>
     current_dir_pointer s' = current_dir_pointer s \<and> fd_array s' = fd_array s \<and>
     fd_array_slist s' = fd_array_slist s \<and> inode_used (super_block s') = inode_used (super_block s) \<and>
     sb_reserved (super_block s') = sb_reserved (super_block s) \<and>
     (\<forall>a. aligned a \<longrightarrow> a \<noteq> FS_BASE \<longrightarrow> \<not> is_smap a \<longrightarrow> get_sector s' a = get_sector s a)"

lemma dat_frame_put_smap:
  assumes "smap_ok s" "length m = 128" "unat (smap_index s) < 256"
  shows "dat_frame s (put_smap m u s)"
  using assms unat_smap_sector[of "smap_index s"]
  by (auto simp: dat_frame_def get_put_smap smap_ok_def super_ok_def is_smap_def)

lemma darray_alloc_frame: "smap_ok s \<Longrightarrow> darray_alloc s = Some (r, s') \<Longrightarrow> dat_frame s s'"
proof (induction s rule: darray_alloc.induct)
  case (1 s)
  show ?case
  proof (cases "smap_index s < 256")
    case False
    then show ?thesis using 1(3) by (subst (asm) darray_alloc.simps) (simp add: dat_frame_def)
  next
    case True
    then have i: "unat (smap_index s) < 256" by (simp add: word_less_nat_alt)
    have l: "length (smap s) = 128" using 1(2) by (simp add: smap_ok_def)
    from l show ?thesis
    proof (cases rule: scan_map_cases)
      case full
      have "darray_alloc (next_smap s) = Some (r, s')"
        using full(1) True 1(3) by (subst (asm) darray_alloc.simps) (simp add: next_smap_def)
      then have "dat_frame (next_smap s) s'"
        using 1(1)[OF True refl full(1)[symmetric]] next_smap_ok(1)[OF 1(2) i] by (simp add: next_smap_def)
      then show ?thesis by (simp add: dat_frame_def next_smap_def)
    next
      case (found a j)
      have "s' = put_smap ((smap s)[a := smap s ! a OR push_bit j 1]) (data_used (super_block s) + 1) s"
        using found True l 1(3) by (subst (asm) darray_alloc.simps) (simp add: put_smap_def put_sector_def Let_def)
      then show ?thesis using dat_frame_put_smap[OF 1(2) _ i] l by simp
    qed
  qed
qed

lemma darray_free_frame:
  assumes "smap_ok s" "n < 1048576"
  shows "dat_frame s (freed_smap n s)"
proof -
  let ?s1 = "s\<lparr>smap_index := word_of_nat (n div 4096), smap := smap_at s (n div 4096)\<rparr>"
  have si: "n div 4096 < 256" using assms(2) by (simp add: div_less_iff_less_mult)
  have us: "unat (smap_index ?s1) = n div 4096" using unat_small_index[OF si] by simp
  have "dat_used ?s1 = dat_used s" by (rule dat_used_cong) simp
  then have ok1: "smap_ok ?s1"
    using assms(1) us si by (simp add: smap_ok_def super_ok_def smap_at_def enc_dec_u32s)
  have "unat (smap_index ?s1) < 256" using us si by simp
  from dat_frame_put_smap[OF ok1 _ this] have "dat_frame ?s1 (freed_smap n s)"
    by (simp add: freed_smap_def Let_def smap_at_def)
  then show ?thesis by (simp add: dat_frame_def)
qed

text \<open>The allocator passes over a sector of the map only when all its blocks are in use.\<close>

lemma darray_alloc_low:
  "smap_ok s \<Longrightarrow> darray_alloc s = Some (int n, s') \<Longrightarrow> unat (smap_index s) * 4096 \<le> k \<Longrightarrow> k < 1048576 \<Longrightarrow> \<not> dat_used s k \<Longrightarrow>
   unat (smap_index s') * 4096 \<le> k"
proof (induction s rule: darray_alloc.induct)
  case (1 s)
  show ?case
  proof (cases "smap_index s < 256")
    case False
    then show ?thesis using 1(3) by (subst (asm) darray_alloc.simps) simp
  next
    case True
    then have i: "unat (smap_index s) < 256" by (simp add: word_less_nat_alt)
    have l: "length (smap s) = 128" using 1(2) by (simp add: smap_ok_def)
    from l show ?thesis
    proof (cases rule: scan_map_cases)
      case full
      have "darray_alloc (next_smap s) = Some (int n, s')"
        using full(1) True 1(3) by (subst (asm) darray_alloc.simps) (simp add: next_smap_def)
      moreover have "k div 4096 \<noteq> unat (smap_index s)"
        using full(2)[of "k mod 4096"] smap_at_index[OF 1(2) i] 1(5,6) by (auto simp: dat_used_def)
      then have "unat (smap_index (next_smap s)) * 4096 \<le> k"
        using next_smap_ok(3)[OF 1(2) i] 1(4) div_nat_eqI[of "unat (smap_index s)" 4096 k] by (cases "k < Suc (unat (smap_index s)) * 4096") auto
      ultimately show ?thesis
        using 1(1)[OF True refl full(1)[symmetric]] next_smap_ok[OF 1(2) i] 1(5,6) by (simp add: next_smap_def)
    next
      case (found a j)
      have "s' = put_smap ((smap s)[a := smap s ! a OR push_bit j 1]) (data_used (super_block s) + 1) s"
        using found True l 1(3) by (subst (asm) darray_alloc.simps) (simp add: put_smap_def put_sector_def Let_def)
      then show ?thesis using 1(4) by simp
    qed
  qed
qed

end
