(* ===== verification/Fs_Dir.thy ===== *)
theory Fs_Dir
  imports Fs_Alloc
begin

text \<open>
  Directories as finite maps from names to inode numbers. The invariant \<open>fs_ok\<close> ties the globals of the
  file system to the card; under it the directory operations implement lookup, insertion and removal.
\<close>

section \<open>The abstract directory\<close>

definition entry_match :: "u8 list \<Rightarrow> dmap_t \<Rightarrow> bool" where
  "entry_match nm m \<longleftrightarrow> d_valid m \<noteq> 0 \<and> cstr (d_name m) = nm"

fun dir_lookup :: "dmap_t list \<Rightarrow> u8 list \<Rightarrow> u32 option" where
  "dir_lookup [] nm = None"
| "dir_lookup (m # ms) nm = (if entry_match nm m then Some (d_ino m) else dir_lookup ms nm)"

text \<open>Valid entries have a terminated name and an inode number that is not the root's, and no name twice.\<close>

definition entry_ok :: "dmap_t \<Rightarrow> bool" where
  "entry_ok m \<longleftrightarrow> wf_dmap m \<and> (d_valid m \<noteq> 0 \<longrightarrow> terminated (d_name m) \<and> d_ino m \<noteq> 0 \<and> unat (d_ino m) < 4096)"

definition names :: "dmap_t list \<Rightarrow> u8 list list" where
  "names ms = map (\<lambda>m. cstr (d_name m)) (filter (\<lambda>m. d_valid m \<noteq> 0) ms)"

definition entries_ok :: "dmap_t list \<Rightarrow> bool" where
  "entries_ok ms \<longleftrightarrow> list_all entry_ok ms \<and> distinct (names ms)"

lemma entries_ok_Cons:
  "entries_ok (m # ms) \<longleftrightarrow> entry_ok m \<and> entries_ok ms \<and> (d_valid m \<noteq> 0 \<longrightarrow> cstr (d_name m) \<notin> set (names ms))"
  by (auto simp: entries_ok_def names_def)

lemma dir_lookup_None: "dir_lookup ms nm = None \<longleftrightarrow> nm \<notin> set (names ms)"
  by (induction ms) (auto simp: names_def entry_match_def)

lemma dir_lookup_valid: "dir_lookup ms nm = Some x \<Longrightarrow> list_all entry_ok ms \<Longrightarrow> x \<noteq> 0 \<and> unat x < 4096"
  by (induction ms) (auto simp: entry_match_def entry_ok_def split: if_splits)

lemma find_entry_spec:
  assumes "list_all entry_ok ms" "terminated nm"
  shows "(case find_entry ms nm i of
      None \<Rightarrow> False
    | Some None \<Rightarrow> dir_lookup ms (cstr nm) = None
    | Some (Some (k, m)) \<Rightarrow> i \<le> k \<and> k < i + length ms \<and> m = ms ! (k - i) \<and> entry_match (cstr nm) m \<and>
        dir_lookup ms (cstr nm) = Some (d_ino m))"
  using assms(1)
proof (induction ms arbitrary: i)
  case (Cons m ms)
  show ?case
  proof (cases "d_valid m \<noteq> 0")
    case True
    then have "terminated (d_name m)" using Cons.prems by (simp add: entry_ok_def)
    then obtain r where r: "strcmp (d_name m) nm = Some r" "r = 0 \<longleftrightarrow> cstr (d_name m) = cstr nm"
      using strcmp_total assms(2) by blast
    show ?thesis
      using True r Cons.IH[of "Suc i"] Cons.prems
      by (cases "r = 0") (auto simp: entry_match_def Suc_diff_Suc split: option.splits)
  next
    case False
    then show ?thesis
      using Cons.IH[of "Suc i"] Cons.prems by (auto simp: entry_match_def Suc_diff_Suc split: option.splits)
  qed
qed simp

lemma find_entry_cases:
  assumes "list_all entry_ok ms" "terminated nm"
  obtains (missing) "find_entry ms nm 0 = Some None" "dir_lookup ms (cstr nm) = None"
  | (found) k where "find_entry ms nm 0 = Some (Some (k, ms ! k))" "k < length ms" "entry_match (cstr nm) (ms ! k)"
      "dir_lookup ms (cstr nm) = Some (d_ino (ms ! k))"
  using find_entry_spec[OF assms, of 0] by (auto split: option.splits)

lemma free_slot_spec:
  "i \<le> free_slot ms i \<and> free_slot ms i \<le> i + length ms \<and>
   (free_slot ms i = i + length ms \<longleftrightarrow> list_all (\<lambda>m. d_valid m \<noteq> 0) ms) \<and>
   (free_slot ms i < i + length ms \<longrightarrow> d_valid (ms ! (free_slot ms i - i)) = 0)"
proof (induction ms arbitrary: i)
  case (Cons m ms)
  show ?case using Cons.IH[of "Suc i"] by (auto simp: Suc_diff_Suc)
qed simp

text \<open>Filling a free entry and clearing a used one, seen on the map.\<close>

lemma names_append [simp]: "names (xs @ ys) = names xs @ names ys"
  by (simp add: names_def)

lemma entries_ok_insert:
  assumes "entries_ok ms" "k < length ms" "d_valid (ms ! k) = 0" "entry_ok m" "cstr (d_name m) \<notin> set (names ms)"
  shows "entries_ok (ms[k := m])"
proof -
  define as bs where ab: "as = take k ms" "bs = drop (Suc k) ms"
  have ms: "ms = as @ ms ! k # bs" unfolding ab by (rule id_take_nth_drop[OF assms(2)])
  have u: "ms[k := m] = as @ m # bs" unfolding ab by (rule upd_conv_take_nth_drop[OF assms(2)])
  have n: "names ms = names as @ names bs" using assms(3) by (subst ms) (simp add: names_def)
  have "list_all entry_ok (as @ ms ! k # bs)" using assms(1) ms by (simp add: entries_ok_def)
  moreover have "distinct (names as @ names bs)" using assms(1) n by (simp add: entries_ok_def)
  moreover have "cstr (d_name m) \<notin> set (names as @ names bs)" using assms(5) n by simp
  ultimately show ?thesis using assms(4) unfolding u by (auto simp: entries_ok_def names_def)
qed

lemma entries_ok_remove:
  assumes "entries_ok ms" "k < length ms"
  shows "entries_ok (ms[k := (ms ! k)\<lparr>d_valid := 0\<rparr>])"
proof -
  define as bs where ab: "as = take k ms" "bs = drop (Suc k) ms"
  have ms: "ms = as @ ms ! k # bs" unfolding ab by (rule id_take_nth_drop[OF assms(2)])
  have u: "ms[k := m] = as @ m # bs" for m unfolding ab by (rule upd_conv_take_nth_drop[OF assms(2)])
  have "list_all entry_ok (as @ ms ! k # bs)" "distinct (names (as @ ms ! k # bs))"
    using assms(1) ms by (simp_all add: entries_ok_def)
  then show ?thesis unfolding u
    by (auto simp: entries_ok_def names_def entry_ok_def wf_dmap_def split: if_splits)
qed

lemma dir_lookup_insert:
  "k < length ms \<Longrightarrow> d_valid (ms ! k) = 0 \<Longrightarrow> d_valid m \<noteq> 0 \<Longrightarrow> dir_lookup ms (cstr (d_name m)) = None \<Longrightarrow>
   dir_lookup (ms[k := m]) = (dir_lookup ms)(cstr (d_name m) \<mapsto> d_ino m)"
proof (induction ms arbitrary: k)
  case (Cons a ms)
  show ?case
  proof (cases k)
    case 0
    then show ?thesis using Cons.prems by (auto simp: fun_eq_iff entry_match_def)
  next
    case (Suc j)
    then show ?thesis using Cons.prems Cons.IH[of j] by (auto simp: fun_eq_iff entry_match_def split: if_splits)
  qed
qed simp

lemma dir_lookup_remove:
  "k < length ms \<Longrightarrow> entry_match nm (ms ! k) \<Longrightarrow> distinct (names ms) \<Longrightarrow>
   dir_lookup (ms[k := (ms ! k)\<lparr>d_valid := 0\<rparr>]) = (dir_lookup ms)(nm := None)"
proof (induction ms arbitrary: k)
  case (Cons a ms)
  show ?case
  proof (cases k)
    case 0
    then have "nm \<notin> set (names ms)" using Cons.prems by (auto simp: entry_match_def names_def)
    then show ?thesis using 0 Cons.prems by (auto simp: fun_eq_iff entry_match_def dir_lookup_None)
  next
    case (Suc j)
    then have ne: "d_valid a \<noteq> 0 \<Longrightarrow> cstr (d_name a) \<noteq> nm"
      using Cons.prems by (auto simp: entry_match_def names_def)
    show ?thesis
      using Suc ne Cons.prems Cons.IH[of j] by (auto simp: fun_eq_iff entry_match_def names_def split: if_splits)
  qed
qed simp

section \<open>The invariant of the mounted file system\<close>

definition is_data :: "u32 \<Rightarrow> bool" where
  "is_data a \<longleftrightarrow> aligned a \<and> 0x1080000 \<le> unat a"

definition is_iarray :: "u32 \<Rightarrow> bool" where
  "is_iarray a \<longleftrightarrow> aligned a \<and> 0x1020400 \<le> unat a \<and> unat a < 0x1060400"

definition fs_ok :: "fs_state \<Rightarrow> bool" where
  "fs_ok s \<longleftrightarrow> imap_ok s \<and> smap_ok s \<and> ino_used s 0 \<and> wf_dir (current_dir s) \<and>
     entries_ok (dir_map (current_dir s)) \<and> dat_used s 0 \<and>
     (\<exists>b. dat_used s b \<and> current_dir_pointer s = data_sector b) \<and>
     get_sector s (current_dir_pointer s) = enc_dir (current_dir s)"

lemma is_data_apart:
  assumes "is_data a"
  shows "aligned a" "a \<noteq> FS_BASE" "a \<noteq> IMAP_ADDR" "\<not> is_smap a" "\<not> is_iarray a"
  using assms by (auto simp: is_data_def is_smap_def is_iarray_def)

lemma is_iarray_apart:
  assumes "is_iarray a"
  shows "aligned a" "a \<noteq> FS_BASE" "a \<noteq> IMAP_ADDR" "\<not> is_smap a" "\<not> is_data a"
  using assms by (auto simp: is_data_def is_smap_def is_iarray_def)

lemma iarray_sector_ok: "g < 512 \<Longrightarrow> is_iarray (iarray_sector g)"
  by (simp add: is_iarray_def aligned_def unat_iarray_sector)

lemma iarray_sector_inj:
  assumes "g < 512" "h < 512"
  shows "iarray_sector g = iarray_sector h \<longleftrightarrow> g = h"
proof
  assume "iarray_sector g = iarray_sector h"
  then have "unat (iarray_sector g) = unat (iarray_sector h)" by (rule arg_cong)
  then show "g = h" unfolding unat_iarray_sector[OF assms(1)] unat_iarray_sector[OF assms(2)] by simp
qed simp

lemma data_sector_ok: "n < 1048576 \<Longrightarrow> is_data (data_sector n)"
  by (simp add: is_data_def aligned_def unat_data_sector)

lemma data_sector_inj:
  assumes "n < 1048576" "k < 1048576"
  shows "data_sector n = data_sector k \<longleftrightarrow> n = k"
proof
  assume "data_sector n = data_sector k"
  then have "unat (data_sector n) = unat (data_sector k)" by (rule arg_cong)
  then show "n = k" unfolding unat_data_sector[OF assms(1)] unat_data_sector[OF assms(2)] by simp
qed simp

text \<open>The bitmaps are not affected by a write to the inode array or the data area.\<close>

lemma smap_sector_is_smap: "unat si < 256 \<Longrightarrow> is_smap (smap_sector si) \<and> aligned (smap_sector si)"
  using aligned_smap_sector by (simp add: is_smap_def unat_smap_sector)

lemma maps_frame:
  assumes "imap_ok s" "smap_ok s"
    and sec: "\<And>a. aligned a \<Longrightarrow> a = FS_BASE \<or> a = IMAP_ADDR \<or> is_smap a \<Longrightarrow> get_sector s' a = get_sector s a"
    and eqs: "imap s' = imap s" "smap s' = smap s" "smap_index s' = smap_index s" "super_block s' = super_block s"
  shows "imap_ok s'" "smap_ok s'" "ino_used s' = ino_used s" "dat_used s' = dat_used s"
proof -
  show i: "ino_used s' = ino_used s" using eqs by (simp add: fun_eq_iff ino_used_def)
  have "smap_at s' k = smap_at s k" if "k < 256" for k
    using smap_sector_is_smap[of "word_of_nat k"] unat_small_index[OF that] that sec by (simp add: smap_at_def)
  then show d: "dat_used s' = dat_used s" by (auto simp: fun_eq_iff dat_used_def div_less_iff_less_mult)
  have sup: "super_ok s'" using assms(1) sec[of FS_BASE] eqs by (simp add: imap_ok_def super_ok_def)
  show "imap_ok s'" using assms(1) sup sec[of IMAP_ADDR] eqs i by (simp add: imap_ok_def)
  show "smap_ok s'" using assms(2) sup sec[of "smap_sector (smap_index s)"] smap_sector_is_smap[of "smap_index s"] eqs d
    by (auto simp: smap_ok_def)
qed

lemma maps_put_imap:
  assumes "smap_ok s" "length m = 128"
  shows "smap_ok (put_imap m u s)" "dat_used (put_imap m u s) = dat_used s"
proof -
  have wf: "wf_super (super_block s)" using assms(1) by (simp add: smap_ok_def super_ok_def)
  have sec: "get_sector (put_imap m u s) (smap_sector si) = get_sector s (smap_sector si)" if "unat si < 256" for si
    using that get_put_imap[OF assms(2) wf] aligned_smap_sector smap_sector_other by simp
  show d: "dat_used (put_imap m u s) = dat_used s"
    using sec unat_small_index by (auto simp: fun_eq_iff dat_used_def smap_at_def div_less_iff_less_mult)
  have "wf_super ((super_block s)\<lparr>inode_used := u\<rparr>)" using wf by (simp add: wf_super_def)
  then show "smap_ok (put_imap m u s)"
    using assms sec d get_put_imap[OF assms(2) wf, of FS_BASE] by (simp add: smap_ok_def super_ok_def)
qed

text \<open>The maps do not depend on the current directory, the descriptors or the console.\<close>

lemma maps_upd [simp]:
  "imap_ok (s\<lparr>current_dir := d\<rparr>) = imap_ok s" "smap_ok (s\<lparr>current_dir := d\<rparr>) = smap_ok s"
  "ino_used (s\<lparr>current_dir := d\<rparr>) = ino_used s" "dat_used (s\<lparr>current_dir := d\<rparr>) = dat_used s"
  "imap_ok (s\<lparr>current_dir_pointer := p\<rparr>) = imap_ok s" "smap_ok (s\<lparr>current_dir_pointer := p\<rparr>) = smap_ok s"
  "ino_used (s\<lparr>current_dir_pointer := p\<rparr>) = ino_used s" "dat_used (s\<lparr>current_dir_pointer := p\<rparr>) = dat_used s"
  "imap_ok (s\<lparr>console := c\<rparr>) = imap_ok s" "smap_ok (s\<lparr>console := c\<rparr>) = smap_ok s"
  "ino_used (s\<lparr>console := c\<rparr>) = ino_used s" "dat_used (s\<lparr>console := c\<rparr>) = dat_used s"
  "imap_ok (s\<lparr>fd_array := f\<rparr>) = imap_ok s" "smap_ok (s\<lparr>fd_array := f\<rparr>) = smap_ok s"
  "ino_used (s\<lparr>fd_array := f\<rparr>) = ino_used s" "dat_used (s\<lparr>fd_array := f\<rparr>) = dat_used s"
  "imap_ok (s\<lparr>fd_array_slist := l\<rparr>) = imap_ok s" "smap_ok (s\<lparr>fd_array_slist := l\<rparr>) = smap_ok s"
  "ino_used (s\<lparr>fd_array_slist := l\<rparr>) = ino_used s" "dat_used (s\<lparr>fd_array_slist := l\<rparr>) = dat_used s"
  by (simp_all add: imap_ok_def smap_ok_def super_ok_def ino_used_def dat_used_def smap_at_def fun_eq_iff)

text \<open>The inode \<open>n\<close>.\<close>

definition inode_at :: "fs_state \<Rightarrow> nat \<Rightarrow> inode_t" where
  "inode_at s n = get_inodes s (n div 8) ! (n mod 8)"

definition put_inode :: "nat \<Rightarrow> inode_t \<Rightarrow> fs_state \<Rightarrow> fs_state" where
  "put_inode n i s = put_sector (iarray_sector (n div 8)) (enc_inodes ((get_inodes s (n div 8))[n mod 8 := i])) s"

lemma wf_inodes: "length (get_inodes s g) = 8" "list_all wf_inode (get_inodes s g)"
  using wf_dec_inodes[of "get_sector s (iarray_sector g)"] by (simp_all add: get_inodes_def)

lemma wf_inode_at: "wf_inode (inode_at s n)"
  using wf_inodes[of s "n div 8"] by (simp add: inode_at_def list_all_length)

lemma put_inode_sector:
  assumes "n < 4096" "wf_inode i" "aligned a"
  shows "get_sector (put_inode n i s) a =
    (if a = iarray_sector (n div 8) then enc_inodes ((get_inodes s (n div 8))[n mod 8 := i]) else get_sector s a)"
proof -
  have "list_all wf_inode ((get_inodes s (n div 8))[n mod 8 := i])"
    using wf_inodes[of s "n div 8"] assms(2) by (auto simp: list_all_iff dest: set_update_subset_insert[THEN subsetD])
  moreover have "n div 8 < 512" using assms(1) by (simp add: div_less_iff_less_mult)
  ultimately show ?thesis
    using assms(3) is_iarray_apart(1)[OF iarray_sector_ok] wf_inodes(1)
    by (simp add: put_inode_def get_put_sector length_enc_inodes)
qed

lemma inode_at_put:
  assumes "n < 4096" "k < 4096" "wf_inode i"
  shows "inode_at (put_inode n i s) k = (if k = n then i else inode_at s k)"
proof -
  let ?is = "(get_inodes s (n div 8))[n mod 8 := i]"
  have g: "n div 8 < 512" "k div 8 < 512" using assms by (simp_all add: div_less_iff_less_mult)
  have a: "aligned (iarray_sector (k div 8))" using is_iarray_apart(1) iarray_sector_ok g(2) by blast
  have wf: "list_all wf_inode ?is" "length ?is = 8"
    using wf_inodes[of s "n div 8"] assms(3) by (auto simp: list_all_iff dest: set_update_subset_insert[THEN subsetD])
  have e: "get_inodes (put_inode n i s) (k div 8) = (if k div 8 = n div 8 then ?is else get_inodes s (k div 8))"
    using put_inode_sector[OF assms(1,3) a] iarray_sector_inj[OF g(2,1)] dec_enc_inodes[OF wf] by (simp add: get_inodes_def)
  have "k = n \<longleftrightarrow> k div 8 = n div 8 \<and> k mod 8 = n mod 8" by (metis div_mult_mod_eq)
  then show ?thesis using e wf_inodes(1)[of s "n div 8"] by (auto simp: inode_at_def nth_list_update)
qed

end
