(* ===== verification/Fs_Tree.thy ===== *)
theory Fs_Tree
  imports Fs_Dir
begin

text \<open>
  What \<^verbatim>\<open>touch\<close>, \<^verbatim>\<open>mkdir\<close>, \<^verbatim>\<open>rmdir\<close> and \<^verbatim>\<open>cd\<close> do to a well-formed file system: the current directory is
  extended or reduced by one name, the inode and the data block of the new file are fresh, and no
  other inode changes.
\<close>

section \<open>Entering a name\<close>

definition room :: "fs_state \<Rightarrow> bool" where
  "room s \<longleftrightarrow> \<not> list_all (\<lambda>m. d_valid m \<noteq> 0) (dir_map (current_dir s))"

definition name_ok :: "u8 list \<Rightarrow> bool" where
  "name_ok nm \<longleftrightarrow> terminated nm \<and> length (cstr nm) \<le> MAX_NAME_LENTH"

abbreviation lookup :: "fs_state \<Rightarrow> u8 list \<Rightarrow> u32 option" where
  "lookup s \<equiv> dir_lookup (dir_map (current_dir s))"

lemma fs_okD:
  assumes "fs_ok s"
  shows "imap_ok s" "smap_ok s" "ino_used s 0" "wf_dir (current_dir s)" "entries_ok (dir_map (current_dir s))"
    "is_data (current_dir_pointer s)" "get_sector s (current_dir_pointer s) = enc_dir (current_dir s)"
    "list_all entry_ok (dir_map (current_dir s))" "dat_used s 0"
    "\<exists>b. dat_used s b \<and> current_dir_pointer s = data_sector b"
  using assms data_sector_ok by (auto simp: fs_ok_def entries_ok_def dat_used_def)

lemma is_file_exist_eq:
  assumes "fs_ok s" "terminated nm"
  shows "is_file_exist s nm = Some (case lookup s (cstr nm) of None \<Rightarrow> 0 | Some i \<Rightarrow> i)"
  using fs_okD(8)[OF assms(1)] assms(2)
  by (cases rule: find_entry_cases) (simp_all add: is_file_exist_def)

lemma is_file_exist_zero:
  assumes "fs_ok s" "terminated nm"
  shows "is_file_exist s nm = Some 0 \<longleftrightarrow> lookup s (cstr nm) = None"
  using is_file_exist_eq[OF assms] dir_lookup_valid[OF _ fs_okD(8)[OF assms(1)]] by (auto split: option.splits)

text \<open>The errors.\<close>

lemma new_entry_errors:
  assumes "fs_ok s" "terminated nm"
  shows "MAX_NAME_LENTH < length (cstr nm) \<Longrightarrow> new_entry nm s = Some (Inl (printks ''Error: too long name.\<newline>'' s))"
    and "length (cstr nm) \<le> MAX_NAME_LENTH \<Longrightarrow> lookup s (cstr nm) \<noteq> None \<Longrightarrow>
           new_entry nm s = Some (Inl (printks ''Error: file exists.\<newline>'' s))"
    and "name_ok nm \<Longrightarrow> lookup s (cstr nm) = None \<Longrightarrow> \<not> room s \<Longrightarrow>
           new_entry nm s = Some (Inl (printks ''Too many directory entrys.\<newline>'' s))"
proof -
  show "MAX_NAME_LENTH < length (cstr nm) \<Longrightarrow> new_entry nm s = Some (Inl (printks ''Error: too long name.\<newline>'' s))"
    using assms(2) by (simp add: new_entry_def strlen_eq)
  show "length (cstr nm) \<le> MAX_NAME_LENTH \<Longrightarrow> lookup s (cstr nm) \<noteq> None \<Longrightarrow>
           new_entry nm s = Some (Inl (printks ''Error: file exists.\<newline>'' s))"
    using assms(2) is_file_exist_eq[OF assms] is_file_exist_zero[OF assms] by (auto simp: new_entry_def strlen_eq)
  assume "name_ok nm" "lookup s (cstr nm) = None" "\<not> room s"
  moreover from this have "free_slot (dir_map (current_dir s)) 0 = MAX_DIR_ITEM_NUM"
    using free_slot_spec[of 0 "dir_map (current_dir s)"] fs_okD(4)[OF assms(1)] by (simp add: room_def wf_dir_def)
  ultimately show "new_entry nm s = Some (Inl (printks ''Too many directory entrys.\<newline>'' s))"
    using is_file_exist_zero[OF assms] assms(2) by (simp add: new_entry_def strlen_eq name_ok_def)
qed

lemma new_entry_ok:
  assumes ok: "fs_ok s" and nm: "name_ok nm" "lookup s (cstr nm) = None" and rm: "room s"
    and free: "\<exists>n<4096. \<not> ino_used s n"
  shows "\<exists>n s'. new_entry nm s = Some (Inr (n, s')) \<and> 0 < n \<and> n < 4096 \<and> \<not> ino_used s n \<and> (\<forall>k<n. ino_used s k) \<and>
    (\<forall>k. ino_used s' k \<longleftrightarrow> k = n \<or> ino_used s k) \<and> dat_used s' = dat_used s \<and> fs_ok s' \<and>
    lookup s' = (lookup s)(cstr nm \<mapsto> word_of_nat n) \<and> current_dir_pointer s' = current_dir_pointer s \<and>
    fd_array s' = fd_array s \<and> fd_array_slist s' = fd_array_slist s \<and> smap_index s' = smap_index s \<and>
    (\<forall>a. aligned a \<longrightarrow> a \<noteq> FS_BASE \<longrightarrow> a \<noteq> IMAP_ADDR \<longrightarrow> a \<noteq> current_dir_pointer s \<longrightarrow> get_sector s' a = get_sector s a) \<and>
    sb_reserved (super_block s') = sb_reserved (super_block s)"
proof -
  let ?ms = "dir_map (current_dir s)"
  note D = fs_okD[OF ok]
  have t: "terminated nm" "strlen nm = Some (length (cstr nm))" "length (cstr nm) \<le> 26"
    using nm(1) by (simp_all add: name_ok_def strlen_eq)
  obtain i where i: "free_slot ?ms 0 = i" "i < length ?ms" "d_valid (?ms ! i) = 0"
    using free_slot_spec[of 0 ?ms] rm by (auto simp: room_def)
  have i15: "i \<noteq> MAX_DIR_ITEM_NUM" using i(2) D(4) by (simp add: wf_dir_def)
  let ?m = "?ms ! i"
  let ?s1 = "s\<lparr>current_dir := (current_dir s)\<lparr>dir_map := ?ms[i := ?m\<lparr>d_valid := 1\<rparr>]\<rparr>\<rparr>"
  have i1: "imap_ok ?s1" using D(1) by simp
  have u1: "ino_used ?s1 = ino_used s" by simp
  from i1 obtain n m where n: "n < 4096" "\<not> ino_used s n" "length m = 128"
    "\<And>k. bit_at m k \<longleftrightarrow> k = n \<or> bit_at (imap s) k"
    "iarray_alloc ?s1 = Some (int n, put_imap m (inode_used (super_block s) + 1) ?s1)" "\<forall>k<n. ino_used s k"
    using free u1 by (cases rule: iarray_alloc_cases) auto
  let ?s2 = "put_imap m (inode_used (super_block s) + 1) ?s1"
  have n0: "0 < n" using n(2) D(3) by (cases n) auto
  have ln: "length (d_name ?m) = 27" using D(8) i(2) by (auto simp: list_all_length entry_ok_def wf_dmap_def)
  obtain nm' where nm': "strcpy (d_name ?m) nm = Some nm'" "cstr nm' = cstr nm" "terminated nm'" "length nm' = 27"
  proof
    show "strcpy (d_name ?m) nm = Some (cstr nm @ 0 # drop (Suc (length (cstr nm))) (d_name ?m))"
      using t ln by (intro strcpy_fits) auto
    show "cstr (cstr nm @ 0 # drop (Suc (length (cstr nm))) (d_name ?m)) = cstr nm"
      by (rule cstr_append[OF cstr_nonzero])
    show "terminated (cstr nm @ 0 # drop (Suc (length (cstr nm))) (d_name ?m))" by (simp add: terminated_def)
    show "length (cstr nm @ 0 # drop (Suc (length (cstr nm))) (d_name ?m)) = 27" using ln t(3) by simp
  qed
  define e where "e = ?m\<lparr>d_valid := 1, d_ino := word_of_nat n, d_name := nm'\<rparr>"
  define d where "d = (current_dir s)\<lparr>dir_map := ?ms[i := e]\<rparr>"
  define s3 where "s3 = put_imap m (inode_used (super_block s) + 1) (s\<lparr>current_dir := d\<rparr>)"
  define s' where "s' = put_sector (current_dir_pointer s) (enc_dir d) s3"
  have un: "unat (word_of_nat n :: u32) = n" using n(1) by (intro unat_word_of_nat_small) simp
  have eok: "entry_ok e" using nm' n0 n(1) un by (auto simp: e_def entry_ok_def wf_dmap_def word_unat_eq_iff)
  have ce: "cstr (d_name e) = cstr nm" "d_valid e \<noteq> 0" "d_ino e = word_of_nat n" using nm'(2) by (simp_all add: e_def)
  have s3eq: "?s2\<lparr>current_dir := d\<rparr> = s3"
    by (simp add: s3_def put_imap_def put_sector_def d_def Let_def)
  have ne: "new_entry nm s = Some (Inr (n, s'))"
    using t i i15 n nm' is_file_exist_zero[OF ok t(1)] nm(2) s3eq
    by (simp add: new_entry_def s'_def d_def e_def)
  have wd: "wf_dir d" using D(4) eok by (auto simp: d_def wf_dir_def entry_ok_def list_all_iff dest: set_update_subset_insert[THEN subsetD])
  have es: "entries_ok (dir_map d)"
    using D(5) i(2,3) eok nm(2) ce by (simp add: d_def entries_ok_insert dir_lookup_None)
  have i2: "imap_ok ?s2" "\<And>k. ino_used ?s2 k \<longleftrightarrow> k = n \<or> ino_used s k"
    using ino.alloc_fresh[OF i1 n(5)] u1 by simp_all
  have i3: "imap_ok s3" "\<And>k. ino_used s3 k \<longleftrightarrow> k = n \<or> ino_used s k"
    using i2 unfolding s3eq[symmetric] by simp_all
  have "smap_ok (s\<lparr>current_dir := d\<rparr>)" "dat_used (s\<lparr>current_dir := d\<rparr>) = dat_used s"
    using D(2) by simp_all
  then have m3: "smap_ok s3" "dat_used s3 = dat_used s"
    using maps_put_imap[OF _ n(3), of "s\<lparr>current_dir := d\<rparr>" "inode_used (super_block s) + 1"] by (simp_all add: s3_def)
  note P = is_data_apart[OF D(6)]
  have g': "get_sector s' a = (if a = current_dir_pointer s then enc_dir d else get_sector s3 a)" if "aligned a" for a
    using that P(1) length_enc_dir[OF wd] by (simp add: s'_def get_put_sector eq_commute)
  have wfs: "wf_super (super_block s)" using D(1) by (simp add: imap_ok_def super_ok_def)
  have g3: "get_sector s3 a = get_sector s a" if "aligned a" "a \<noteq> FS_BASE" "a \<noteq> IMAP_ADDR" for a
    using that get_put_imap[OF n(3), of "s\<lparr>current_dir := d\<rparr>" a] wfs by (simp add: s3_def)
  have fr: "imap_ok s'" "smap_ok s'" "ino_used s' = ino_used s3" "dat_used s' = dat_used s3"
    by (rule maps_frame[OF i3(1) m3(1)]; use g' P in \<open>auto simp: s'_def\<close>)+
  have c': "current_dir s' = d" "current_dir_pointer s' = current_dir_pointer s" "fd_array s' = fd_array s"
    "fd_array_slist s' = fd_array_slist s" "smap_index s' = smap_index s"
    "sb_reserved (super_block s') = sb_reserved (super_block s)" by (simp_all add: s'_def s3_def)
  have "fs_ok s'" using fr i3(2) m3(2) D(3,9,10) wd es g'[OF P(1)] c' by (simp add: fs_ok_def)
  moreover have "lookup s' = (lookup s)(cstr nm \<mapsto> word_of_nat n)"
    using dir_lookup_insert[OF i(2,3) ce(2)] nm(2) ce c' by (simp add: d_def)
  ultimately show ?thesis using ne n0 n(1,2,6) fr i3(2) m3(2) c' g' g3 by auto
qed

section \<open>Files and directories\<close>

lemma put_inode_simps [simp]:
  "fd_array (put_inode n i s) = fd_array s" "fd_array_slist (put_inode n i s) = fd_array_slist s"
  "super_block (put_inode n i s) = super_block s" "current_dir (put_inode n i s) = current_dir s"
  "current_dir_pointer (put_inode n i s) = current_dir_pointer s" "imap (put_inode n i s) = imap s"
  "smap (put_inode n i s) = smap s" "smap_index (put_inode n i s) = smap_index s"
  by (simp_all add: put_inode_def)

lemma put_inode_other:
  assumes "n < 4096" "wf_inode i" "aligned a" "\<not> is_iarray a"
  shows "get_sector (put_inode n i s) a = get_sector s a"
  using put_inode_sector[OF assms(1-3), of s] iarray_sector_ok[of "n div 8"] assms(1,4)
  by (auto simp: div_less_iff_less_mult)

lemma fs_ok_put_inode:
  assumes ok: "fs_ok s" and n: "n < 4096" "wf_inode i"
  shows "fs_ok (put_inode n i s)" "ino_used (put_inode n i s) = ino_used s" "dat_used (put_inode n i s) = dat_used s"
proof -
  note D = fs_okD[OF ok]
  have sec: "get_sector (put_inode n i s) a = get_sector s a" if "aligned a" "\<not> is_iarray a" for a
    using that put_inode_other[OF n] by simp
  have m: "imap_ok (put_inode n i s)" "smap_ok (put_inode n i s)" "ino_used (put_inode n i s) = ino_used s"
    "dat_used (put_inode n i s) = dat_used s"
    by (rule maps_frame[OF D(1,2)]; use sec in \<open>auto simp: is_iarray_def is_smap_def\<close>)+
  then show "fs_ok (put_inode n i s)" "ino_used (put_inode n i s) = ino_used s" "dat_used (put_inode n i s) = dat_used s"
    using D sec is_data_apart[OF D(6)] by (simp_all add: fs_ok_def)
qed

lemma inode_at_cong:
  assumes "\<And>a. is_iarray a \<Longrightarrow> get_sector s' a = get_sector s a" "n < 4096"
  shows "inode_at s' n = inode_at s n"
  using assms iarray_sector_ok[of "n div 8"] by (simp add: inode_at_def get_inodes_def div_less_iff_less_mult)

lemma touch_ok:
  assumes ok: "fs_ok s" and nm: "name_ok nm" "lookup s (cstr nm) = None" and rm: "room s"
    and free: "\<exists>n<4096. \<not> ino_used s n"
  shows "\<exists>n s'. touch nm s = Some s' \<and> 0 < n \<and> n < 4096 \<and> \<not> ino_used s n \<and> (\<forall>k<n. ino_used s k) \<and> fs_ok s' \<and>
    (\<forall>k. ino_used s' k \<longleftrightarrow> k = n \<or> ino_used s k) \<and>
    lookup s' = (lookup s)(cstr nm \<mapsto> word_of_nat n) \<and>
    i_type (inode_at s' n) = FILE_NORMAL \<and> i_size (inode_at s' n) = 0 \<and> size_allocated (inode_at s' n) = 0 \<and>
    (\<forall>k<4096. k \<noteq> n \<longrightarrow> inode_at s' k = inode_at s k) \<and> fd_array s' = fd_array s \<and> fd_array_slist s' = fd_array_slist s \<and>
    dat_used s' = dat_used s \<and> smap_index s' = smap_index s \<and> current_dir_pointer s' = current_dir_pointer s \<and>
    sb_reserved (super_block s') = sb_reserved (super_block s)"
proof -
  obtain n s1 where n: "new_entry nm s = Some (Inr (n, s1))" "0 < n" "n < 4096" "\<not> ino_used s n"
    "\<And>k. ino_used s1 k \<longleftrightarrow> k = n \<or> ino_used s k" "fs_ok s1" "lookup s1 = (lookup s)(cstr nm \<mapsto> word_of_nat n)"
    "fd_array s1 = fd_array s" "fd_array_slist s1 = fd_array_slist s"
    "\<And>a. aligned a \<Longrightarrow> a \<noteq> FS_BASE \<Longrightarrow> a \<noteq> IMAP_ADDR \<Longrightarrow> a \<noteq> current_dir_pointer s \<Longrightarrow> get_sector s1 a = get_sector s a"
    "\<forall>k<n. ino_used s k" "dat_used s1 = dat_used s" "smap_index s1 = smap_index s" "current_dir_pointer s1 = current_dir_pointer s"
    "sb_reserved (super_block s1) = sb_reserved (super_block s)"
    using new_entry_ok[OF assms] by auto
  let ?i = "(inode_at s1 n)\<lparr>i_type := FILE_NORMAL, links := 1, i_size := 0, size_allocated := 0\<rparr>"
  have wf: "wf_inode ?i" using wf_inode_at[of s1 n] by (simp add: wf_inode_def)
  have "n - n div 8 * 8 = n mod 8" by (simp add: minus_div_mult_eq_mod)
  then have t: "touch nm s = Some (put_inode n ?i s1)"
    using n(1) by (simp add: touch_def put_inode_def inode_at_def Let_def)
  have "get_sector s1 a = get_sector s a" if "is_iarray a" for a
    using n(10) is_iarray_apart[OF that] fs_okD(6)[OF ok] by auto
  then have old: "inode_at s1 k = inode_at s k" if "k < 4096" for k using inode_at_cong that by blast
  show ?thesis
    using t n fs_ok_put_inode[OF n(6,3) wf] inode_at_put[OF n(3) _ wf, of _ s1] old
    by (intro exI[of _ n] exI[of _ "put_inode n ?i s1"]) auto
qed

text \<open>A write to a fresh data block, and the data allocator, keep the invariant.\<close>

lemma fs_ok_dat_frame:
  assumes ok: "fs_ok s" and f: "dat_frame s s'" and m: "smap_ok s'" and u: "dat_used s' 0"
    and b: "dat_used s' b" "current_dir_pointer s = data_sector b"
  shows "fs_ok s' \<and> ino_used s' = ino_used s"
proof -
  note D = fs_okD[OF ok]
  have i: "ino_used s' = ino_used s" using f by (simp add: fun_eq_iff ino_used_def dat_frame_def)
  have "get_sector s' IMAP_ADDR = get_sector s IMAP_ADDR" using f by (simp add: dat_frame_def is_smap_def)
  then have "imap_ok s'" using D(1) f i m by (simp add: imap_ok_def smap_ok_def dat_frame_def)
  moreover have "get_sector s' (current_dir_pointer s) = get_sector s (current_dir_pointer s)"
    using f is_data_apart[OF D(6)] by (simp add: dat_frame_def)
  ultimately show ?thesis using D f i m u b by (auto simp: fs_ok_def dat_frame_def)
qed

lemma fs_ok_darray_alloc:
  assumes ok: "fs_ok s" and al: "darray_alloc s = Some (int b, s')"
  shows "fs_ok s' \<and> b < 1048576 \<and> \<not> dat_used s b \<and> (\<forall>k. dat_used s' k \<longleftrightarrow> k = b \<or> dat_used s k) \<and>
    ino_used s' = ino_used s \<and> current_dir s' = current_dir s \<and> current_dir_pointer s' = current_dir_pointer s"
proof -
  note D = fs_okD[OF ok]
  have a: "b < 1048576" "\<not> dat_used s b" "smap_ok s'" "\<And>k. dat_used s' k \<longleftrightarrow> k = b \<or> dat_used s k"
    using dat.alloc_fresh[OF D(2) al] by simp_all
  have f: "dat_frame s s'" by (rule darray_alloc_frame[OF D(2) al])
  obtain c where c: "dat_used s c" "current_dir_pointer s = data_sector c" using D(10) by blast
  then show ?thesis using fs_ok_dat_frame[OF ok f a(3), of c] D(9) a f by (simp add: dat_frame_def)
qed

lemma fs_ok_darray_free:
  assumes ok: "fs_ok s" and n: "dat_used s n" "n \<noteq> 0" "data_sector n \<noteq> current_dir_pointer s"
  shows "\<exists>s'. darray_free n s = Some s' \<and> fs_ok s' \<and> (\<forall>k. dat_used s' k \<longleftrightarrow> dat_used s k \<and> k \<noteq> n) \<and> dat_frame s s' \<and>
    ino_used s' = ino_used s"
proof -
  note D = fs_okD[OF ok]
  have lt: "n < 1048576" using n(1) by (simp add: dat_used_def)
  let ?s = "freed_smap n s"
  have e: "darray_free n s = Some ?s" by (rule darray_free_eq[OF lt])
  have a: "smap_ok ?s" "\<And>k. dat_used ?s k \<longleftrightarrow> dat_used s k \<and> k \<noteq> n" using dat.free_ok[OF D(2) n(1)] e by auto
  have f: "dat_frame s ?s" by (rule darray_free_frame[OF D(2) lt])
  obtain c where c: "dat_used s c" "current_dir_pointer s = data_sector c" using D(10) by blast
  then show ?thesis using fs_ok_dat_frame[OF ok f a(1), of c] D(9) a f e n by auto
qed

lemma fs_ok_put_data:
  assumes ok: "fs_ok s" and b: "b < 1048576" "data_sector b \<noteq> current_dir_pointer s" and l: "length bs = SECTOR_SIZE"
  shows "fs_ok (put_sector (data_sector b) bs s)"
    "ino_used (put_sector (data_sector b) bs s) = ino_used s" "dat_used (put_sector (data_sector b) bs s) = dat_used s"
    "\<And>a. aligned a \<Longrightarrow> get_sector (put_sector (data_sector b) bs s) a = (if a = data_sector b then bs else get_sector s a)"
proof -
  note D = fs_okD[OF ok]
  note B = is_data_apart[OF data_sector_ok[OF b(1)]]
  show sec: "get_sector (put_sector (data_sector b) bs s) a = (if a = data_sector b then bs else get_sector s a)"
    if "aligned a" for a using that B(1) l by (auto simp: get_put_sector)
  let ?s = "put_sector (data_sector b) bs s"
  have m: "imap_ok ?s" "smap_ok ?s" "ino_used ?s = ino_used s" "dat_used ?s = dat_used s"
    by (rule maps_frame[OF D(1,2)]; use sec B in auto)+
  then show "fs_ok ?s" "ino_used ?s = ino_used s" "dat_used ?s = dat_used s"
    using D sec is_data_apart[OF D(6)] b(2) by (auto simp: fs_ok_def)
qed

definition dir_inode :: "inode_t \<Rightarrow> u32 \<Rightarrow> inode_t" where
  "dir_inode i p = i\<lparr>i_type := FILE_DIR, links := 1, i_size := 512, size_allocated := 512, pointers := (pointers i)[0 := p]\<rparr>"

lemma mkdir_ok:
  assumes ok: "fs_ok s" and nm: "name_ok nm" "lookup s (cstr nm) = None" and rm: "room s"
    and free: "\<exists>n<4096. \<not> ino_used s n" and blk: "\<exists>b<1048576. unat (smap_index s) * 4096 \<le> b \<and> \<not> dat_used s b"
    and jk: "wf_dir (j_dir jk)"
  shows "\<exists>n b s' d. mkdir jk nm s = Some s' \<and> 0 < n \<and> n < 4096 \<and> \<not> ino_used s n \<and> b < 1048576 \<and> \<not> dat_used s b \<and>
    fs_ok s' \<and> (\<forall>k. ino_used s' k \<longleftrightarrow> k = n \<or> ino_used s k) \<and> (\<forall>k. dat_used s' k \<longleftrightarrow> k = b \<or> dat_used s k) \<and>
    lookup s' = (lookup s)(cstr nm \<mapsto> word_of_nat n) \<and> current_dir_pointer s' = current_dir_pointer s \<and>
    i_type (inode_at s' n) = FILE_DIR \<and> pointers (inode_at s' n) ! 0 = data_sector b \<and>
    get_sector s' (data_sector b) = enc_dir d \<and> wf_dir d \<and> fpointer d = current_dir_pointer s \<and> cstr (dir_name d) = cstr nm \<and>
    list_all (\<lambda>m. d_valid m = 0) (dir_map d)"
proof -
  obtain n s1 where n: "new_entry nm s = Some (Inr (n, s1))" "0 < n" "n < 4096" "\<not> ino_used s n"
    "\<And>k. ino_used s1 k \<longleftrightarrow> k = n \<or> ino_used s k" "dat_used s1 = dat_used s" "fs_ok s1"
    "lookup s1 = (lookup s)(cstr nm \<mapsto> word_of_nat n)" "current_dir_pointer s1 = current_dir_pointer s" and si: "smap_index s1 = smap_index s"
    using new_entry_ok[OF ok nm rm free] by auto
  from si obtain b s2 where b: "darray_alloc s1 = Some (int b, s2)"
    using dat.alloc_ok[OF fs_okD(2)[OF n(7)]] blk n(6) by (metis (no_types))
  have B: "fs_ok s2" "b < 1048576" "\<not> dat_used s b" "\<And>k. dat_used s2 k \<longleftrightarrow> k = b \<or> dat_used s k"
    "ino_used s2 = ino_used s1" "current_dir s2 = current_dir s1" "current_dir_pointer s2 = current_dir_pointer s1"
    using fs_ok_darray_alloc[OF n(7) b] n(6) by simp_all
  have in12: "get_inodes s2 (n div 8) = get_inodes s1 (n div 8)"
    using darray_alloc_frame[OF fs_okD(2)[OF n(7)] b] is_iarray_apart[OF iarray_sector_ok[of "n div 8"]] n(3)
    by (simp add: get_inodes_def dat_frame_def div_less_iff_less_mult)
  let ?p = "data_sector b" let ?i = "dir_inode (inode_at s2 n) ?p"
  have wfi: "wf_inode ?i" using wf_inode_at[of s2 n] by (simp add: wf_inode_def dir_inode_def)
  let ?s3 = "put_inode n ?i s2"
  note I = fs_ok_put_inode[OF B(1) n(3) wfi]
  have ln: "length (dir_name (j_dir jk)) = 27" using jk by (simp add: wf_dir_def)
  let ?nm = "cstr nm @ 0 # drop (Suc (length (cstr nm))) (dir_name (j_dir jk))"
  have cp: "strcpy (dir_name (j_dir jk)) nm = Some ?nm" using nm(1) ln by (intro strcpy_fits) (auto simp: name_ok_def)
  define d where "d = (empty_map (j_dir jk))\<lparr>fpointer := current_dir_pointer s, dir_name := ?nm\<rparr>"
  have wd: "wf_dir d" using jk ln nm(1) by (auto simp: d_def empty_map_def wf_dir_def list_all_iff wf_dmap_def name_ok_def)
  have ne: "?p \<noteq> current_dir_pointer ?s3"
  proof -
    obtain c where "dat_used s c" "current_dir_pointer s = data_sector c" using fs_okD(10)[OF ok] by blast
    then show ?thesis using data_sector_inj[OF B(2), of c] B(3,7) n(9) by (auto simp: dat_used_def)
  qed
  let ?s4 = "put_sector ?p (enc_dir d) ?s3"
  note P = fs_ok_put_data[OF I(1) B(2) ne length_enc_dir[OF wd]]
  have k: "n - n div 8 * 8 = n mod 8" by (simp add: minus_div_mult_eq_mod)
  have "mkdir jk nm s = Some ?s4"
    using n(1) b cp k in12 n(9) B(7)
    by (simp add: mkdir_def put_inode_def inode_at_def dir_inode_def d_def data_sector_def Let_def)
  moreover have "inode_at ?s4 n = ?i"
  proof -
    have "inode_at ?s4 n = inode_at ?s3 n"
      using P(4) is_iarray_apart data_sector_ok[OF B(2)] n(3) by (intro inode_at_cong) auto
    then show ?thesis using inode_at_put[OF n(3) n(3) wfi, of s2] by simp
  qed
  moreover have "get_sector ?s4 ?p = enc_dir d"
    using P(4)[of ?p] is_data_apart(1)[OF data_sector_ok[OF B(2)]] by simp
  moreover have "cstr (dir_name d) = cstr nm" "fpointer d = current_dir_pointer s" "list_all (\<lambda>m. d_valid m = 0) (dir_map d)"
    using cstr_append[OF cstr_nonzero] by (simp_all add: d_def empty_map_def list_all_iff)
  moreover have "i_type ?i = FILE_DIR" "pointers ?i ! 0 = ?p"
    using wf_inode_at[of s2 n] by (simp_all add: dir_inode_def wf_inode_def)
  moreover have "lookup ?s4 = lookup s1" "current_dir_pointer ?s4 = current_dir_pointer s" using B n(9) by simp_all
  ultimately show ?thesis
    using n(2-5,8) B(2-5) P(1-3) I(2,3) wd by (intro exI[of _ n] exI[of _ b] exI[of _ ?s4] exI[of _ d]) simp
qed

section \<open>Moving about\<close>

text \<open>The names that \<^verbatim>\<open>cd\<close> treats specially: \<^verbatim>\<open>..\<close>, \<^verbatim>\<open>.\<close> and absolute paths.\<close>

definition plain_name :: "u8 list \<Rightarrow> bool" where
  "plain_name nm \<longleftrightarrow> terminated nm \<and> cstr nm \<noteq> [46, 46] \<and> cstr nm \<noteq> [46] \<and> hd nm \<noteq> 92"

lemma strcmp_iff:
  assumes "terminated a" "terminated b"
  shows "\<exists>r. strcmp a b = Some r \<and> (r = 0 \<longleftrightarrow> cstr b = cstr a)"
  using strcmp_total[OF assms] by auto

lemma cd_plain:
  assumes ok: "fs_ok s" and nm: "plain_name nm" and lk: "lookup s (cstr nm) = Some ino"
  shows "cd nm s = Some (if i_type (inode_at s (unat ino)) = FILE_DIR
      then s\<lparr>current_dir := dec_dir (get_sector s (pointers (inode_at s (unat ino)) ! 0)),
             current_dir_pointer := pointers (inode_at s (unat ino)) ! 0\<rparr>
      else printks ''Error: not a directory.\<newline>'' s)"
proof -
  have t: "terminated nm" using nm by (simp add: plain_name_def)
  obtain r where r: "strcmp [46, 46, 0] nm = Some r" "r \<noteq> 0"
    using strcmp_iff[of "[46, 46, 0]" nm] nm by (auto simp: plain_name_def terminated_def)
  obtain q where q: "strcmp [46, 0] nm = Some q" "q \<noteq> 0"
    using strcmp_iff[of "[46, 0]" nm] nm by (auto simp: plain_name_def terminated_def)
  have "nm \<noteq> []" using t by auto
  then have c: "arr_get nm 0 = Some (hd nm)" by (simp add: hd_conv_nth)
  have "cd_ino nm s = Some ino"
    using fs_okD(8)[OF ok] t
    by (cases rule: find_entry_cases) (use c lk nm in \<open>auto simp: cd_ino_def plain_name_def\<close>)
  moreover have "ino \<noteq> -1"
  proof
    assume "ino = -1"
    then have "unat (- 1 :: u32) < 4096" using dir_lookup_valid[OF lk fs_okD(8)[OF ok]] by simp
    then show False by (simp add: unsigned_minus_1_eq_mask mask_eq_exp_minus_1)
  qed
  ultimately show ?thesis using r q by (simp add: cd_def inode_at_def Let_def)
qed

lemma cd_missing:
  assumes ok: "fs_ok s" and nm: "plain_name nm" and lk: "lookup s (cstr nm) = None"
  shows "cd nm s = Some (printks ''Error: not such directory.\<newline>'' s)"
proof -
  have t: "terminated nm" using nm by (simp add: plain_name_def)
  obtain r where r: "strcmp [46, 46, 0] nm = Some r" "r \<noteq> 0"
    using strcmp_iff[of "[46, 46, 0]" nm] nm by (auto simp: plain_name_def terminated_def)
  obtain q where q: "strcmp [46, 0] nm = Some q" "q \<noteq> 0"
    using strcmp_iff[of "[46, 0]" nm] nm by (auto simp: plain_name_def terminated_def)
  have "nm \<noteq> []" using t by auto
  then have c: "arr_get nm 0 = Some (hd nm)" by (simp add: hd_conv_nth)
  have "cd_ino nm s = Some (-1)"
    using fs_okD(8)[OF ok] t
    by (cases rule: find_entry_cases) (use c lk nm in \<open>auto simp: cd_ino_def plain_name_def\<close>)
  then show ?thesis using r q by (simp add: cd_def)
qed

lemma cd_up: "cd [46, 46, 0] s = Some (if current_dir_pointer s = DARRAY_ADDR then s
    else s\<lparr>current_dir_pointer := fpointer (current_dir s), current_dir := dec_dir (get_sector s (fpointer (current_dir s)))\<rparr>)"
  by (simp add: cd_def Let_def)

section \<open>Removing a directory\<close>

lemma fs_ok_iarray_free:
  assumes ok: "fs_ok s" and n: "ino_used s n" "n \<noteq> 0"
  shows "\<exists>s'. iarray_free n s = Some s' \<and> fs_ok s' \<and> (\<forall>k. ino_used s' k \<longleftrightarrow> ino_used s k \<and> k \<noteq> n) \<and>
    dat_used s' = dat_used s \<and> current_dir s' = current_dir s \<and> current_dir_pointer s' = current_dir_pointer s"
proof -
  note D = fs_okD[OF ok]
  obtain m where m: "length m = 128" "iarray_free n s = Some (put_imap m (inode_used (super_block s) - 1) s)"
    using iarray_free_eq[OF D(1), of n] n(1) by (auto simp: ino_used_def)
  let ?s = "put_imap m (inode_used (super_block s) - 1) s"
  have i: "imap_ok ?s" "\<And>k. ino_used ?s k \<longleftrightarrow> ino_used s k \<and> k \<noteq> n" using ino.free_ok[OF D(1) n(1)] m(2) by auto
  note q = maps_put_imap[OF D(2) m(1), of "inode_used (super_block s) - 1"]
  have "wf_super (super_block s)" using D(1) by (simp add: imap_ok_def super_ok_def)
  then have "get_sector ?s (current_dir_pointer s) = get_sector s (current_dir_pointer s)"
    using get_put_imap[OF m(1)] is_data_apart[OF D(6)] by simp
  then have "fs_ok ?s" using D i q n(2) by (simp add: fs_ok_def)
  then show ?thesis using m(2) i q by auto
qed

lemma fs_ok_write_dir:
  assumes ok: "fs_ok s" and d: "wf_dir d" "entries_ok (dir_map d)"
  shows "fs_ok (put_sector (current_dir_pointer s) (enc_dir d) (s\<lparr>current_dir := d\<rparr>))"
    "ino_used (put_sector (current_dir_pointer s) (enc_dir d) (s\<lparr>current_dir := d\<rparr>)) = ino_used s"
    "dat_used (put_sector (current_dir_pointer s) (enc_dir d) (s\<lparr>current_dir := d\<rparr>)) = dat_used s"
proof -
  note D = fs_okD[OF ok] and P = is_data_apart[OF fs_okD(6)[OF ok]]
  let ?s = "put_sector (current_dir_pointer s) (enc_dir d) (s\<lparr>current_dir := d\<rparr>)"
  have g: "get_sector ?s a = (if a = current_dir_pointer s then enc_dir d else get_sector s a)" if "aligned a" for a
    using that P(1) length_enc_dir[OF d(1)] by (simp add: get_put_sector eq_commute)
  have m: "imap_ok ?s" "smap_ok ?s" "ino_used ?s = ino_used s" "dat_used ?s = dat_used s"
    by (rule maps_frame[OF D(1,2)]; use g P in auto)+
  then show "fs_ok ?s" "ino_used ?s = ino_used s" "dat_used ?s = dat_used s"
    using D d g[OF P(1)] by (simp_all add: fs_ok_def)
qed

text \<open>What \<^verbatim>\<open>rmdir\<close> expects of the directory it removes: inode and block are allocated, the block is neither the
  root's nor the current directory's.\<close>

definition subdir :: "fs_state \<Rightarrow> u32 \<Rightarrow> nat \<Rightarrow> bool" where
  "subdir s ino b \<longleftrightarrow> ino_used s (unat ino) \<and> i_type (inode_at s (unat ino)) = FILE_DIR \<and>
     pointers (inode_at s (unat ino)) ! 0 = data_sector b \<and> dat_used s b \<and> b \<noteq> 0 \<and> data_sector b \<noteq> current_dir_pointer s"

lemma data_sector_index:
  assumes "b < 1048576"
  shows "unat ((data_sector b - DARRAY_ADDR) div SECTOR) = b"
proof -
  have "unat (data_sector b - DARRAY_ADDR) = b * 512"
    using unat_data_sector[OF assms] by (simp add: unat_sub_if')
  then show ?thesis by (simp add: unat_div)
qed

lemma rmdir_ok:
  assumes ok: "fs_ok s" and nm: "terminated nm" "lookup s (cstr nm) = Some ino" and sd: "subdir s ino b"
    and em: "list_all (\<lambda>m. d_valid m = 0) (dir_map (dec_dir (get_sector s (data_sector b))))"
  shows "\<exists>s'. rmdir nm s = Some s' \<and> fs_ok s' \<and> lookup s' = (lookup s)(cstr nm := None) \<and>
    (\<forall>k. ino_used s' k \<longleftrightarrow> ino_used s k \<and> k \<noteq> unat ino) \<and> (\<forall>k. dat_used s' k \<longleftrightarrow> dat_used s k \<and> k \<noteq> b) \<and>
    current_dir_pointer s' = current_dir_pointer s"
proof -
  note D = fs_okD[OF ok]
  let ?ms = "dir_map (current_dir s)"
  obtain i where i: "find_entry ?ms nm 0 = Some (Some (i, ?ms ! i))" "i < length ?ms" "entry_match (cstr nm) (?ms ! i)" "d_ino (?ms ! i) = ino"
    using D(8) nm(1) by (cases rule: find_entry_cases) (use nm(2) in auto)
  have n0: "unat ino \<noteq> 0" using dir_lookup_valid[OF nm(2) D(8)] by (simp add: unat_eq_0)
  have S: "ino_used s (unat ino)" "i_type (inode_at s (unat ino)) = FILE_DIR" "pointers (inode_at s (unat ino)) ! 0 = data_sector b"
    "dat_used s b" "b \<noteq> 0" "data_sector b \<noteq> current_dir_pointer s" using sd by (simp_all add: subdir_def)
  have b: "b < 1048576" using S(4) by (simp add: dat_used_def)
  obtain s1 where s1: "iarray_free (unat ino) s = Some s1" "fs_ok s1" "\<And>k. ino_used s1 k \<longleftrightarrow> ino_used s k \<and> k \<noteq> unat ino"
    "dat_used s1 = dat_used s" "current_dir s1 = current_dir s" "current_dir_pointer s1 = current_dir_pointer s"
    using fs_ok_iarray_free[OF ok S(1) n0] by metis
  obtain s2 where s2: "darray_free b s1 = Some s2" "fs_ok s2" "\<And>k. dat_used s2 k \<longleftrightarrow> dat_used s1 k \<and> k \<noteq> b" "dat_frame s1 s2"
    "ino_used s2 = ino_used s1" using fs_ok_darray_free[OF s1(2), of b] S(4-6) s1(4,6) by metis
  have c2: "current_dir s2 = current_dir s" "current_dir_pointer s2 = current_dir_pointer s"
    using s2(4) s1(5,6) by (simp_all add: dat_frame_def)
  let ?d = "(current_dir s)\<lparr>dir_map := ?ms[i := (?ms ! i)\<lparr>d_valid := 0\<rparr>]\<rparr>"
  let ?s3 = "put_sector (current_dir_pointer s2) (enc_dir ?d) (s2\<lparr>current_dir := ?d\<rparr>)"
  have "rmdir nm s = Some ?s3"
    using i(1,4) S(2,3) em s1(1) s2(1) data_sector_index[OF b] c2
    by (simp add: rmdir_def inode_at_def Let_def list_ex_iff list_all_iff)
  moreover have wd: "wf_dir ?d" using D(4) i(2)
    by (auto simp: wf_dir_def list_all_iff wf_dmap_def dest!: set_update_subset_insert[THEN subsetD])
  moreover have "entries_ok (dir_map ?d)" using entries_ok_remove[OF D(5) i(2)] by simp
  ultimately show ?thesis
    using fs_ok_write_dir[OF s2(2) wd] dir_lookup_remove[OF i(2,3)] D(5) s1(3,4) s2(3,5) c2
    by (intro exI[of _ ?s3]) (simp add: entries_ok_def)
qed

section \<open>There and back\<close>

lemma mkdir_cd_up:
  assumes ok: "fs_ok s" and nm: "name_ok nm" "plain_name nm" "lookup s (cstr nm) = None" and rm: "room s"
    and free: "\<exists>n<4096. \<not> ino_used s n" and blk: "\<exists>b<1048576. unat (smap_index s) * 4096 \<le> b \<and> \<not> dat_used s b"
    and jk: "wf_dir (j_dir jk)"
  shows "\<exists>s1 s2 s3. mkdir jk nm s = Some s1 \<and> cd nm s1 = Some s2 \<and> fs_ok s2 \<and> (\<forall>x. lookup s2 x = None) \<and> room s2 \<and>
    cd [46, 46, 0] s2 = Some s3 \<and> fs_ok s3 \<and> current_dir s3 = current_dir s1 \<and> current_dir_pointer s3 = current_dir_pointer s"
proof -
  obtain n b s1 d where m: "mkdir jk nm s = Some s1" "n < 4096" "b < 1048576" "\<not> dat_used s b" "fs_ok s1"
    "\<And>k. dat_used s1 k \<longleftrightarrow> k = b \<or> dat_used s k" "lookup s1 = (lookup s)(cstr nm \<mapsto> word_of_nat n)"
    "current_dir_pointer s1 = current_dir_pointer s" "i_type (inode_at s1 n) = FILE_DIR"
    "pointers (inode_at s1 n) ! 0 = data_sector b" "get_sector s1 (data_sector b) = enc_dir d" "wf_dir d"
    "fpointer d = current_dir_pointer s" "list_all (\<lambda>m. d_valid m = 0) (dir_map d)"
    using mkdir_ok[OF ok nm(1,3) rm free blk jk] by metis
  have un: "unat (word_of_nat n :: u32) = n" using m(2) by (intro unat_word_of_nat_small) simp
  let ?s2 = "s1\<lparr>current_dir := d, current_dir_pointer := data_sector b\<rparr>"
  have c: "cd nm s1 = Some ?s2"
    using cd_plain[OF m(5) nm(2), of "word_of_nat n"] m(7,9-12) un dec_enc_dir by simp
  note D = fs_okD[OF m(5)]
  have em: "names (dir_map d) = []" using m(14) by (auto simp: names_def filter_empty_conv list_all_iff)
  then have "entries_ok (dir_map d)" using m(12,14) by (auto simp: entries_ok_def list_all_iff entry_ok_def wf_dir_def)
  then have ok2: "fs_ok ?s2" using D m(6,11,12) by (auto simp: fs_ok_def)
  have rm2: "room ?s2" using m(12,14) by (cases "dir_map d") (auto simp: room_def wf_dir_def)
  have "b \<noteq> 0" using m(4) fs_okD(9)[OF ok] by metis
  then have ne: "data_sector b \<noteq> DARRAY_ADDR" using data_sector_inj[OF m(3), of 0] by (simp add: data_sector_def)
  let ?s3 = "?s2\<lparr>current_dir_pointer := current_dir_pointer s, current_dir := current_dir s1\<rparr>"
  have "cd [46, 46, 0] ?s2 = Some ?s3"
    using cd_up[of ?s2] ne m(8,13) D(4,7) dec_enc_dir[OF D(4)] by simp
  moreover have "fs_ok ?s3" using D m(8) by (simp add: fs_ok_def)
  ultimately show ?thesis using m(1) c ok2 rm2 em
    by (intro exI[of _ s1] exI[of _ ?s2] exI[of _ ?s3]) (simp add: dir_lookup_None)
qed

end
