(* ===== verification/Fs_Init.thy ===== *)
theory Fs_Init
  imports Fs_Tree
begin

text \<open>
  Formatting and mounting: after \<^verbatim>\<open>mkfs\<close> and \<^verbatim>\<open>mount\<close> the invariant \<open>fs_ok\<close> holds, whatever was on the
  card and on the stack, and the file system is empty except for the root directory. A concrete
  formatted card shows that the hypotheses of the other theories can be met.
\<close>

lemma printks_simps [simp]:
  "disk (printks m s) = disk s" "fd_array (printks m s) = fd_array s" "fd_array_slist (printks m s) = fd_array_slist s"
  "super_block (printks m s) = super_block s" "current_dir (printks m s) = current_dir s"
  "current_dir_pointer (printks m s) = current_dir_pointer s" "imap (printks m s) = imap s"
  "smap (printks m s) = smap s" "smap_index (printks m s) = smap_index s" "get_sector (printks m s) a = get_sector s a"
  "imap_ok (printks m s) = imap_ok s" "smap_ok (printks m s) = smap_ok s"
  "ino_used (printks m s) = ino_used s" "dat_used (printks m s) = dat_used s" "fs_ok (printks m s) = fs_ok s"
  by (simp_all add: printks_def fs_ok_def)

section \<open>The sector map\<close>

lemma smap_sector_nat: "smap_sector (word_of_nat i) + SECTOR = smap_sector (word_of_nat (Suc i))"
  by (simp add: smap_sector_def algebra_simps)

lemma aligned_smap_nat: "i < 256 \<Longrightarrow> aligned (smap_sector (word_of_nat i))"
  using aligned_smap_sector[of "word_of_nat i"] unat_small_index[of i] by simp

lemma smap_sector_nat_inj: "i < 256 \<Longrightarrow> j < 256 \<Longrightarrow> smap_sector (word_of_nat i) = smap_sector (word_of_nat j) \<longleftrightarrow> i = j"
  using smap_sector_inj[of "word_of_nat i" "word_of_nat j"] unat_small_index[of i] unat_small_index[of j]
  by (metis (no_types, lifting))

lemma clear_smap_frame:
  "fd_array (clear_smap n a s) = fd_array s \<and> fd_array_slist (clear_smap n a s) = fd_array_slist s"
  by (induction n arbitrary: a s) simp_all

abbreviation smap_sectors :: "nat \<Rightarrow> nat \<Rightarrow> u32 set" where
  "smap_sectors i j \<equiv> (\<lambda>k. smap_sector (word_of_nat k)) ` {i..<j}"

lemma clear_smap_sectors:
  assumes "aligned a"
  shows "i + n \<le> 256 \<Longrightarrow> get_sector (clear_smap n (smap_sector (word_of_nat i)) s) a =
    (if a \<in> smap_sectors i (i + n) then enc_u32s (replicate 128 0) else get_sector s a)"
proof (induction n arbitrary: i s)
  case (Suc n)
  let ?s = "put_sector (smap_sector (word_of_nat i)) (enc_u32s (replicate 128 0)) s"
  have al: "aligned (smap_sector (word_of_nat i))" using Suc.prems by (intro aligned_smap_nat) simp
  have g: "get_sector ?s a = (if smap_sector (word_of_nat i) = a then enc_u32s (replicate 128 0) else get_sector s a)"
    by (rule get_put_sector[OF _ al assms]) simp
  have "get_sector (clear_smap (Suc n) (smap_sector (word_of_nat i)) s) a =
    (if a \<in> smap_sectors (Suc i) (Suc i + n) then enc_u32s (replicate 128 0) else get_sector ?s a)"
    using Suc.prems Suc.IH[of "Suc i" ?s] unfolding clear_smap.simps smap_sector_nat by simp
  moreover have "{i..<i + Suc n} = insert i {Suc i..<Suc i + n}" by auto
  ultimately show ?case unfolding g by auto
qed simp

section \<open>Formatting\<close>

definition wf_junk :: "stack_junk \<Rightarrow> bool" where
  "wf_junk jk \<longleftrightarrow> wf_super (j_super jk) \<and> length (j_inodes jk) = 8 \<and> list_all wf_inode (j_inodes jk) \<and> wf_dir (j_dir jk)"

definition root_dir :: "stack_junk \<Rightarrow> dir_t" where
  "root_dir jk = (empty_map (j_dir jk))\<lparr>fpointer := DARRAY_ADDR, dir_name := 47 # 0 # drop (Suc (Suc 0)) (dir_name (j_dir jk))\<rparr>"

definition root_inode :: "inode_t \<Rightarrow> inode_t" where
  "root_inode i = i\<lparr>i_type := FILE_DIR, links := 1, i_size := 512, size_allocated := 512, pointers := (pointers i)[0 := DARRAY_ADDR]\<rparr>"

lemma wf_root_dir: "wf_junk jk \<Longrightarrow> wf_dir (root_dir jk)"
  by (auto simp: wf_junk_def root_dir_def empty_map_def wf_dir_def list_all_iff wf_dmap_def)

lemma mkfs_sectors:
  assumes jk: "wf_junk jk"
  shows "\<exists>s'. mkfs jk s = Some s' \<and> fd_array s' = fd_array s \<and> fd_array_slist s' = fd_array_slist s \<and>
    get_sector s' FS_BASE = enc_super (mkfs_super (j_super jk)) \<and>
    get_sector s' IMAP_ADDR = enc_u32s (1 # replicate 127 0) \<and>
    (\<forall>k<256. get_sector s' (smap_sector (word_of_nat k)) = enc_u32s ((if k = 0 then 1 else 0) # replicate 127 0)) \<and>
    get_sector s' IARRAY_ADDR = enc_inodes ((j_inodes jk)[0 := root_inode (j_inodes jk ! 0)]) \<and>
    get_sector s' DARRAY_ADDR = enc_dir (root_dir jk)"
proof -
  let ?is = "(j_inodes jk)[0 := root_inode (j_inodes jk ! 0)]"
  let ?buf = "enc_u32s (1 # replicate 127 0)"
  let ?s1 = "put_sector FS_BASE (enc_super (mkfs_super (j_super jk)))
     (printks ''[FS] Setting super block...\<newline>'' (printks ''[FS] Initializing file system...\<newline>'' s))"
  let ?s2 = "put_sector SMAP_ADDR ?buf (put_sector IMAP_ADDR ?buf (printks ''[FS] Setting inode map & sector map...\<newline>'' ?s1))"
  define s3 where "s3 = clear_smap 255 (SMAP_ADDR + SECTOR) ?s2"
  let ?s4 = "put_sector IARRAY_ADDR (enc_inodes ?is) (printks ''[FS] Setting root directory...\<newline>'' s3)"
  let ?s5 = "printks ''[FS] Initialization finished.\<newline>'' (put_sector DARRAY_ADDR (enc_dir (root_dir jk)) ?s4)"
  have J: "wf_super (mkfs_super (j_super jk))" "length ?is = 8" "j_inodes jk \<noteq> []" "list_all wf_inode (j_inodes jk)" "wf_inode (j_inodes jk ! 0)"
    using jk by (auto simp: wf_junk_def wf_super_def mkfs_super_def list_all_length)
  have W: "list_all wf_inode ?is"
    using J(4,5) by (auto simp: list_all_iff root_inode_def wf_inode_def dest!: set_update_subset_insert[THEN subsetD])
  have L: "length (enc_super (mkfs_super (j_super jk))) = 512" "length (enc_inodes ?is) = 512" "length (enc_dir (root_dir jk)) = 512"
    using length_enc_super[OF J(1)] length_enc_inodes[OF W J(2)] length_enc_dir[OF wf_root_dir[OF jk]] by simp_all
  have nm: "strcpy (dir_name (j_dir jk)) [47, 0] = Some (47 # 0 # drop (Suc (Suc 0)) (dir_name (j_dir jk)))"
    using strcpy_fits[of "[47, 0]" "dir_name (j_dir jk)"] jk
    by (simp add: wf_junk_def wf_dir_def terminated_def cstr_def)
  have "pointers (j_inodes jk ! 0) \<noteq> []" using J(5) by (auto simp: wf_inode_def)
  then have mk: "mkfs jk s = Some ?s5"
    using J(3) nm by (simp add: mkfs_def root_dir_def root_inode_def s3_def Let_def)
  have z: "SMAP_ADDR + SECTOR = smap_sector (word_of_nat 1)" "SMAP_ADDR = smap_sector (word_of_nat 0)" by (simp_all add: smap_sector_def)
  have g3: "get_sector s3 a = (if a \<in> smap_sectors 1 256 then enc_u32s (replicate 128 0) else get_sector ?s2 a)" if "aligned a" for a
    using clear_smap_sectors[OF that, of 1 255 ?s2] unfolding s3_def z(1) by simp
  have no: "FS_BASE \<notin> smap_sectors 1 256" "IMAP_ADDR \<notin> smap_sectors 1 256"
    using smap_sector_other unat_small_index by fastforce+
  have g5: "get_sector ?s5 a = (if a = DARRAY_ADDR then enc_dir (root_dir jk) else if a = IARRAY_ADDR then enc_inodes ?is
      else if a \<in> smap_sectors 1 256 then enc_u32s (replicate 128 0) else get_sector ?s2 a)" if "aligned a" for a
    using that L by (auto simp: get_put_sector g3)
  have sm: "get_sector ?s5 (smap_sector (word_of_nat k)) = enc_u32s ((if k = 0 then 1 else 0) # replicate 127 0)" if k: "k < 256" for k
  proof -
    have u: "unat (smap_sector (word_of_nat k)) = 0x1000400 + k * 512" using k by (simp add: unat_smap_sector unat_small_index)
    then have ne: "smap_sector (word_of_nat k) \<noteq> DARRAY_ADDR" "smap_sector (word_of_nat k) \<noteq> IARRAY_ADDR"
      using k by (auto simp: word_unat_eq_iff)
    have "smap_sector (word_of_nat k) \<in> smap_sectors 1 256 \<longleftrightarrow> k \<noteq> 0"
      using k smap_sector_nat_inj[OF k] by (fastforce simp: image_iff)
    then show ?thesis
      using ne g5[OF aligned_smap_nat[OF k]] by (cases "k = 0") (simp_all add: smap_sector_def get_put_sector numeral_eq_Suc)
  qed
  have "get_sector ?s5 FS_BASE = enc_super (mkfs_super (j_super jk))" "get_sector ?s5 IMAP_ADDR = ?buf"
    using L no by (simp_all add: g3 get_put_sector)
  moreover have "get_sector ?s5 IARRAY_ADDR = enc_inodes ?is" "get_sector ?s5 DARRAY_ADDR = enc_dir (root_dir jk)"
    using L by (simp_all add: get_put_sector)
  moreover have "fd_array ?s5 = fd_array s \<and> fd_array_slist ?s5 = fd_array_slist s"
    using clear_smap_frame[of 255 "SMAP_ADDR + SECTOR" ?s2] by (simp add: s3_def)
  ultimately show ?thesis using mk sm by (intro exI[of _ ?s5]) simp
qed

section \<open>Mounting\<close>

lemma bit_at_one: "n < 4096 \<Longrightarrow> bit_at (1 # replicate 127 0) n \<longleftrightarrow> n = 0"
  by (cases "n div 32") (auto simp: bit_at_def nth_Cons' bit_1_iff div_eq_0_iff less_mult_imp_div_less)

lemma bit_at_zero: "n < 4096 \<Longrightarrow> \<not> bit_at (0 # replicate 127 0) n"
  by (cases "n div 32") (auto simp: bit_at_def less_mult_imp_div_less)

text \<open>After \<^verbatim>\<open>mkfs\<close> and \<^verbatim>\<open>mount\<close> the file system is well formed and holds the root directory only.\<close>

lemma mkfs_mount_ok:
  assumes jk: "wf_junk jk"
  shows "\<exists>s'. mkfs jk s = Some s' \<and> fs_ok (mount s') \<and> ino_used (mount s') = (\<lambda>n. n = 0) \<and>
    dat_used (mount s') = (\<lambda>n. n = 0) \<and> smap_index (mount s') = 0 \<and> current_dir_pointer (mount s') = DARRAY_ADDR \<and>
    (\<forall>nm. lookup (mount s') nm = None) \<and> room (mount s') \<and> i_type (inode_at (mount s') 0) = FILE_DIR \<and>
    pointers (inode_at (mount s') 0) ! 0 = DARRAY_ADDR \<and>
    fd_array (mount s') = fd_array s \<and> fd_array_slist (mount s') = fd_array_slist s \<and>
    sb_reserved (super_block (mount s')) ! 78 = MAGIC_NUMBER"
proof -
  obtain s' where m: "mkfs jk s = Some s'" "fd_array s' = fd_array s" "fd_array_slist s' = fd_array_slist s"
    "get_sector s' FS_BASE = enc_super (mkfs_super (j_super jk))" "get_sector s' IMAP_ADDR = enc_u32s (1 # replicate 127 0)"
    "\<And>k. k < 256 \<Longrightarrow> get_sector s' (smap_sector (word_of_nat k)) = enc_u32s ((if k = 0 then 1 else 0) # replicate 127 0)"
    "get_sector s' IARRAY_ADDR = enc_inodes ((j_inodes jk)[0 := root_inode (j_inodes jk ! 0)])"
    "get_sector s' DARRAY_ADDR = enc_dir (root_dir jk)" using mkfs_sectors[OF jk] by metis
  let ?m = "mount s'"
  have wsb: "wf_super (mkfs_super (j_super jk))" using jk by (simp add: wf_junk_def wf_super_def mkfs_super_def)
  have s0: "get_sector s' SMAP_ADDR = enc_u32s (1 # replicate 127 0)" using m(6)[of 0] by (simp add: smap_sector_def)
  have F: "super_block ?m = mkfs_super (j_super jk)" "current_dir ?m = root_dir jk" "current_dir_pointer ?m = DARRAY_ADDR"
    "imap ?m = 1 # replicate 127 0" "smap ?m = 1 # replicate 127 0" "smap_index ?m = 0" "\<And>a. get_sector ?m a = get_sector s' a"
    "fd_array ?m = fd_array s" "fd_array_slist ?m = fd_array_slist s"
    using m s0 dec_enc_super[OF wsb] dec_enc_dir[OF wf_root_dir[OF jk]] dec_enc_u32s_n[of "1 # replicate 127 0" 128]
    by (simp_all add: mount_def Let_def)
  have iu: "ino_used ?m = (\<lambda>n. n = 0)" using bit_at_one by (auto simp: fun_eq_iff ino_used_def F)
  have "smap_at ?m k = (if k = 0 then 1 else 0) # replicate 127 0" if "k < 256" for k
    using m(6)[OF that] by (simp add: smap_at_def F dec_enc_u32s_n)
  then have "dat_used ?m n \<longleftrightarrow> n = 0" for n
    using bit_at_one[of "n mod 4096"] bit_at_zero[of "n mod 4096"]
    by (cases "n div 4096 = 0") (auto simp: dat_used_def div_less_iff_less_mult div_eq_0_iff)
  then have du: "dat_used ?m = (\<lambda>n. n = 0)" by (simp add: fun_eq_iff)
  have U: "inode_used (mkfs_super (j_super jk)) = 1" "data_used (mkfs_super (j_super jk)) = 1" by (simp_all add: mkfs_super_def)
  have sup: "super_ok ?m" using wsb m(4) by (simp add: super_ok_def F)
  have "imap_ok ?m" using sup m(5) U by (simp add: imap_ok_def F iu)
  moreover have "smap_ok ?m" using sup s0 U by (simp add: smap_ok_def F du smap_sector_def)
  moreover have nv: "list_all (\<lambda>m. d_valid m = 0) (dir_map (root_dir jk))" by (simp add: root_dir_def empty_map_def list_all_iff)
  then have nn: "names (dir_map (root_dir jk)) = []" by (simp add: names_def filter_empty_conv list_all_iff)
  moreover have "entries_ok (dir_map (root_dir jk))"
    using nn nv wf_root_dir[OF jk] by (auto simp: entries_ok_def list_all_iff entry_ok_def wf_dir_def)
  ultimately have ok: "fs_ok ?m"
    using wf_root_dir[OF jk] m(8) by (auto simp: fs_ok_def F iu du data_sector_def)
  have rm: "room ?m" using nv wf_root_dir[OF jk] by (cases "dir_map (root_dir jk)") (auto simp: room_def F wf_dir_def)
  have J: "length (j_inodes jk) = 8" "list_all wf_inode (j_inodes jk)" using jk by (simp_all add: wf_junk_def)
  let ?is = "(j_inodes jk)[0 := root_inode (j_inodes jk ! 0)]"
  have "list_all wf_inode ?is"
    using J by (auto simp: list_all_length root_inode_def wf_inode_def nth_list_update)
  then have "inode_at ?m 0 = root_inode (j_inodes jk ! 0)"
    using m(7) J(1) by (simp add: inode_at_def get_inodes_def F iarray_sector_def dec_enc_inodes)
  moreover have "wf_inode (j_inodes jk ! 0)" using J by (simp add: list_all_length)
  ultimately have "i_type (inode_at ?m 0) = FILE_DIR" "pointers (inode_at ?m 0) ! 0 = DARRAY_ADDR"
    by (simp_all add: root_inode_def wf_inode_def)
  moreover have "sb_reserved (super_block ?m) ! 78 = MAGIC_NUMBER" using jk by (simp add: F mkfs_super_def wf_junk_def wf_super_def)
  ultimately show ?thesis using m(1) ok iu du rm nn by (auto simp: F dir_lookup_None)
qed

end
