(* ===== verification/Fs_File.thy ===== *)
theory Fs_File
  imports Fs_Init
begin

text \<open>
  Open files: the descriptor pool, \<^verbatim>\<open>fopen\<close>, and reading and writing through the block pointers of the
  inode. A file is the concatenation of its blocks (\<open>content\<close>); \<^verbatim>\<open>fwrite\<close> splices the data in at the
  offset of the descriptor and \<^verbatim>\<open>fread\<close> returns the bytes at that offset, for files within the ten
  direct blocks (the code that allocates blocks does not know of the indirect ones).
\<close>

section \<open>Descriptors\<close>

definition fd_rep :: "fs_state \<Rightarrow> nat list \<Rightarrow> bool" where
  "fd_rep s fs \<longleftrightarrow> pool_rep FD_ARRAY_SLIST_SIZE (fd_array_slist s) fs"

interpretation fd: index_pool fd_rep FD_ARRAY_SLIST_SIZE "\<lambda>i. int i - 1" "-1" fd_array_alloc fd_array_free
proof -
  have eq: "fd_rep = (\<lambda>m. pool_rep FD_ARRAY_SLIST_SIZE (fd_array_slist m))"
    "fd_array_alloc = (\<lambda>m. do { (h, l) \<leftarrow> slist_alloc (fd_array_slist m); Some (h - 1, fd_array_slist_update (\<lambda>_. l) m) })"
    "fd_array_free = (\<lambda>m h. do { (r, l) \<leftarrow> slist_free (fd_array_slist m) (h + 1) (int FD_ARRAY_SLIST_SIZE);
                                Some (r, fd_array_slist_update (\<lambda>_. l) m) })"
    by (auto simp: fun_eq_iff fd_rep_def fd_array_alloc_def fd_array_free_def)
  show "index_pool fd_rep FD_ARRAY_SLIST_SIZE (\<lambda>i. int i - 1) (- 1) fd_array_alloc fd_array_free"
    unfolding eq using sl.embed[of fd_array_slist "\<lambda>m l. fd_array_slist_update (\<lambda>_. l) m" FD_ARRAY_SLIST_SIZE
        "\<lambda>i. i - 1" "\<lambda>i. i + 1"] by simp
qed

lemma inode_group_small:
  assumes "unat (w :: u32) < 2 ^ 31"
  shows "inode_group (sint w) = (iarray_sector (unat w div 8), int (unat w mod 8))"
proof -
  have "sint w = int (unat w)" by (rule sint_small[OF assms])
  moreover have "c_div (int (unat w)) 8 = int (unat w div 8)" using c_div_nat[of "unat w" 8] by simp
  moreover have "int (unat w) - int (unat w div 8) * 8 = int (unat w mod 8)"
    by (metis minus_div_mult_eq_mod of_nat_mod of_nat_div of_nat_numeral)
  ultimately show ?thesis by (simp add: inode_group_def iarray_sector_def Let_def del: of_nat_unat)
qed

lemma read_inode:
  assumes "unat (w :: u32) < 2 ^ 31"
  shows "(case inode_group (sint w) of (a, k) \<Rightarrow> arr_get (dec_inodes (get_sector s a)) k) = Some (inode_at s (unat w))"
proof -
  have "length (dec_inodes (get_sector s a)) = 8" for a using wf_dec_inodes by simp
  then show ?thesis by (simp add: inode_group_small[OF assms] inode_at_def get_inodes_def)
qed

text \<open>\<^verbatim>\<open>fopen\<close> on every branch. The descriptor it makes holds the number of the inode modulo 8.\<close>

lemma fopen_ok:
  assumes ok: "fs_ok s" and nm: "terminated nm" and fd: "fd_rep s fs" "length (fd_array s) = FD_ARRAY_SIZE"
  shows "lookup s (cstr nm) = None \<Longrightarrow> fopen nm acc s = Some (-1, s)"
    and "lookup s (cstr nm) = Some ino \<Longrightarrow> i_type (inode_at s (unat ino)) \<noteq> FILE_NORMAL \<Longrightarrow> fopen nm acc s = Some (-1, s)"
    and "lookup s (cstr nm) = Some ino \<Longrightarrow> i_type (inode_at s (unat ino)) = FILE_NORMAL \<Longrightarrow> fs = [] \<Longrightarrow>
           fopen nm acc s = Some (-1, s)"
    and "lookup s (cstr nm) = Some ino \<Longrightarrow> i_type (inode_at s (unat ino)) = FILE_NORMAL \<Longrightarrow> fs = f # fs' \<Longrightarrow>
           \<exists>s'. fopen nm acc s = Some (word_of_nat (f - 1), s') \<and> fd_rep s' fs' \<and> s' = s\<lparr>fd_array := fd_array s', fd_array_slist := fd_array_slist s'\<rparr> \<and>
             fd_array s' = (fd_array s)[f - 1 := \<lparr>f_ino = word_of_nat (unat ino mod 8), access = acc,
               f_size = i_size (inode_at s (unat ino)), f_offset = 0\<rparr>]"
proof -
  note Z = is_file_exist_zero[OF ok nm] and E = is_file_exist_eq[OF ok nm]
  show "lookup s (cstr nm) = None \<Longrightarrow> fopen nm acc s = Some (-1, s)" using Z by (simp add: fopen_def)
  have sm: "unat ino < 2 ^ 31" "ino \<noteq> 0" if "lookup s (cstr nm) = Some ino"
    using dir_lookup_valid[OF that fs_okD(8)[OF ok]] by simp_all
  have L: "length (dec_inodes (get_sector s a)) = 8" for a using wf_dec_inodes by simp
  note R = inode_group_small L inode_at_def get_inodes_def
  show "lookup s (cstr nm) = Some ino \<Longrightarrow> i_type (inode_at s (unat ino)) \<noteq> FILE_NORMAL \<Longrightarrow> fopen nm acc s = Some (-1, s)"
    using E sm by (simp add: fopen_def R)
  show "lookup s (cstr nm) = Some ino \<Longrightarrow> i_type (inode_at s (unat ino)) = FILE_NORMAL \<Longrightarrow> fs = [] \<Longrightarrow>
           fopen nm acc s = Some (-1, s)"
    using E sm fd.alloc_none[of s] fd by (simp add: fopen_def R)
  assume a: "lookup s (cstr nm) = Some ino" "i_type (inode_at s (unat ino)) = FILE_NORMAL" "fs = f # fs'"
  obtain s1 where s1: "fd_array_alloc s = Some (int f - 1, s1)" "fd_rep s1 fs'" using fd.alloc_some[of s f fs'] fd a(3) by auto
  have f: "0 < f" "f < FD_ARRAY_SLIST_SIZE" using fd.rep_range[OF fd(1), of f] a(3) by simp_all
  have g: "fd_array s1 = fd_array s" "s1 = s\<lparr>fd_array_slist := fd_array_slist s1\<rparr>" using s1(1) by (cases "slist_alloc (fd_array_slist s)"; auto simp: fd_array_alloc_def)+
  let ?f = "\<lparr>f_ino = word_of_nat (unat ino mod 8), access = acc, f_size = i_size (inode_at s (unat ino)), f_offset = 0\<rparr>"
  have upd: "s1\<lparr>fd_array := x\<rparr> = s\<lparr>fd_array := x, fd_array_slist := fd_array_slist s1\<rparr>" for x by (subst g(2)) simp
  have i: "int f - 1 = int (f - 1)" "int f - 1 \<noteq> -1" using f by auto
  have "arr_set (fd_array s1) (int f - 1) ?f = Some ((fd_array s)[f - 1 := ?f])"
    using fd(2) f arr_set_nat[of "f - 1" "fd_array s" ?f] unfolding g(1) i(1) by linarith
  then have "fopen nm acc s = Some (word_of_int (int f - 1), s1\<lparr>fd_array := (fd_array s)[f - 1 := ?f]\<rparr>)"
    using E sm[OF a(1)] a(1,2) s1(1) i(2) by (simp add: fopen_def R)
  moreover have "(word_of_int (int f - 1) :: u32) = word_of_nat (f - 1)" unfolding i by simp
  ultimately show "\<exists>s'. fopen nm acc s = Some (word_of_nat (f - 1), s') \<and> fd_rep s' fs' \<and> s' = s\<lparr>fd_array := fd_array s', fd_array_slist := fd_array_slist s'\<rparr> \<and>
      fd_array s' = (fd_array s)[f - 1 := ?f]"
    using s1(2) upd by (intro exI[of _ "s1\<lparr>fd_array := (fd_array s)[f - 1 := ?f]\<rparr>"]) (auto simp: fd_rep_def)
qed

section \<open>Contents\<close>

text \<open>A file of \<open>m\<close> direct blocks, and its bytes.\<close>

definition file_ok :: "fs_state \<Rightarrow> inode_t \<Rightarrow> nat \<Rightarrow> bool" where
  "file_ok s inode m \<longleftrightarrow> wf_inode inode \<and> m \<le> 10 \<and> size_allocated inode = word_of_nat (512 * m) \<and>
     distinct (take m (pointers inode)) \<and>
     (\<forall>i<m. \<exists>b. dat_used s b \<and> pointers inode ! i = data_sector b \<and> data_sector b \<noteq> current_dir_pointer s)"

definition content :: "fs_state \<Rightarrow> inode_t \<Rightarrow> nat \<Rightarrow> u8 list" where
  "content s inode m = concat (map (get_sector s) (take m (pointers inode)))"

lemma content_cong: "(\<And>p. p \<in> set (take m (pointers inode)) \<Longrightarrow> get_sector s' p = get_sector s p) \<Longrightarrow> content s' inode m = content s inode m"
  unfolding content_def by (metis (mono_tags, lifting) map_cong)

lemma content_blocks: "list_all (\<lambda>x. length x = 512) (map (get_sector s) ps)"
  by (simp add: list_all_iff)

lemma file_okD:
  assumes "file_ok s inode m"
  shows "m \<le> 10" "length (take m (pointers inode)) = m" "unat (size_allocated inode) = 512 * m" "length (content s inode m) = 512 * m"
    "\<And>i. i < m \<Longrightarrow> is_data (pointers inode ! i)"
proof -
  show m: "m \<le> 10" and l: "length (take m (pointers inode)) = m" using assms by (auto simp: file_ok_def wf_inode_def)
  show "unat (size_allocated inode) = 512 * m"
    using assms unat_word_of_nat_small[of "512 * m", where 'a = 32] by (simp add: file_ok_def)
  show "length (content s inode m) = 512 * m"
    unfolding content_def using length_concat_blocks[OF content_blocks[of s "take m (pointers inode)"]] l by simp
  show "is_data (pointers inode ! i)" if "i < m" for i
    using assms that data_sector_ok by (force simp: file_ok_def dat_used_def)
qed

lemma otp_direct:
  assumes "unat off < 5120"
  shows "offset_to_pointer s inode off = Some (pointers inode ! (unat off div 512))" "unat (offset_remain off) = unat off mod 512"
proof -
  have "unat (off div 512) = unat off div 512" by (simp add: unat_div)
  moreover have "unat off div 512 < 10" using assms by (simp add: div_less_iff_less_mult)
  ultimately show "offset_to_pointer s inode off = Some (pointers inode ! (unat off div 512))"
    by (simp add: offset_to_pointer_def Let_def)
  show "unat (offset_remain off) = unat off mod 512"
    by (simp add: offset_remain_def minus_div_mult_eq_mod unat_mod)
qed

text \<open>The size of one step: to the end of the block, at most what is left.\<close>

lemma chunk:
  fixes off n :: u32
  assumes "unat off < 5120" "0 < unat n"
  defines "c \<equiv> (if n < 512 - offset_remain off then n else 512 - offset_remain off)"
  shows "unat c = min (unat n) (512 - unat off mod 512)" "0 < unat c" "unat (n - c) = unat n - unat c" "c \<le> n"
proof -
  have r: "unat (offset_remain off) = unat off mod 512" by (rule otp_direct(2)[OF assms(1)])
  have "unat off mod 512 < 512" by simp
  then have "unat (512 - offset_remain off) = 512 - unat off mod 512" by (simp add: unat_sub_if' r less_imp_le)
  then show c: "unat c = min (unat n) (512 - unat off mod 512)" by (auto simp: c_def word_less_nat_alt)
  show "0 < unat c" using c assms(2) by simp
  show le: "c \<le> n" using c by (simp add: word_le_nat_alt)
  then show "unat (n - c) = unat n - unat c" by (rule unat_sub)
qed

section \<open>Reading\<close>

lemma fread_loop_content:
  assumes "file_ok s inode m"
  shows "unat off + unat n \<le> 512 * m \<Longrightarrow>
    fread_loop s inode off n = Some (take (unat n) (drop (unat off) (content s inode m)), off + n)"
proof (induction "unat n" arbitrary: off n rule: less_induct)
  case less
  show ?case
  proof (cases "n = 0")
    case True
    then show ?thesis by (subst fread_loop.simps) simp
  next
    case False
    then have n0: "0 < unat n" by (simp add: unat_gt_0)
    note F = file_okD[OF assms]
    have o5: "unat off < 5120" using less.prems n0 F(1) by simp
    define c where "c = (if n < 512 - offset_remain off then n else 512 - offset_remain off)"
    note C = chunk[OF o5 n0, folded c_def]
    have i: "unat off div 512 < m" using less.prems n0 by (simp add: div_less_iff_less_mult)
    have "unat c \<le> 512" using C(1) by simp
    then have oc: "unat (off + c) = unat off + unat c" using o5 by (simp add: unat_plus_if')
    moreover have "unat (n - c) < unat n" "unat c \<le> unat n" using C n0 by auto
    ultimately have "fread_loop s inode (off + c) (n - c) =
        Some (take (unat (n - c)) (drop (unat (off + c)) (content s inode m)), off + c + (n - c))"
      using less.prems C(3) by (intro less.hyps) simp_all
    then have ih: "fread_loop s inode (off + c) (n - c) =
        Some (take (unat n - unat c) (drop (unat off + unat c) (content s inode m)), off + n)"
      unfolding C(3) oc by simp
    have len: "unat off div 512 < length (map (get_sector s) (take m (pointers inode)))" using i F(2) by simp
    have "take (unat c) (drop (unat off mod 512) (get_sector s (pointers inode ! (unat off div 512)))) =
        take (unat c) (drop (unat off) (content s inode m))"
      using take_drop_concat[OF content_blocks len, of "unat off mod 512" "unat c"] C(1) i F(2) by (simp add: content_def)
    moreover have "fread_loop s inode off n = Some (take (unat c) (drop (unat off mod 512)
        (get_sector s (pointers inode ! (unat off div 512)))) @ take (unat n - unat c) (drop (unat off + unat c) (content s inode m)), off + n)"
      using False otp_direct[OF o5] ih by (subst fread_loop.simps) (simp add: c_def[symmetric] Let_def)
    moreover have "take (unat c) xs @ take (unat n - unat c) (drop (unat c) xs) = take (unat n) xs" for xs :: "u8 list"
      using C(1) by (simp flip: take_add)
    ultimately show ?thesis by (simp add: add.commute flip: drop_drop)
  qed
qed

section \<open>Writing\<close>

text \<open>What a write leaves alone: everything but the blocks \<open>ps\<close>.\<close>

definition only_blocks :: "u32 set \<Rightarrow> fs_state \<Rightarrow> fs_state \<Rightarrow> bool" where
  "only_blocks ps s s' \<longleftrightarrow> s' = s\<lparr>disk := disk s'\<rparr> \<and> (\<forall>a. aligned a \<longrightarrow> a \<notin> ps \<longrightarrow> get_sector s' a = get_sector s a)"

lemma write_block_content:
  assumes fok: "file_ok s inode m" and i: "i < m" and r: "r + length d \<le> 512"
    and s': "s' = put_sector (pointers inode ! i) (splice (get_sector s (pointers inode ! i)) r d) s"
  shows "content s' inode m = splice (content s inode m) (512 * i + r) d" "only_blocks (set (take m (pointers inode))) s s'"
proof -
  let ?ps = "take m (pointers inode)" and ?p = "pointers inode ! i"
  let ?x = "splice (get_sector s ?p) r d"
  note F = file_okD[OF fok]
  have al: "aligned (pointers inode ! j)" if "j < m" for j using F(5)[OF that] by (simp add: is_data_def)
  have g: "get_sector s' a = (if ?p = a then ?x else get_sector s a)" if "aligned a" for a
    unfolding s' using that al[OF i] r by (intro get_put_sector) simp_all
  have dp: "distinct ?ps" using fok by (simp add: file_ok_def)
  have "map (get_sector s') ?ps = (map (get_sector s) ?ps)[i := ?x]"
  proof (rule nth_equalityI)
    fix j assume "j < length (map (get_sector s') ?ps)"
    then have j: "j < m" using F(2) by simp
    have "?p = pointers inode ! j \<longleftrightarrow> i = j" using nth_eq_iff_index_eq[OF dp, of i j] F(2) i j by simp
    then show "map (get_sector s') ?ps ! j = (map (get_sector s) ?ps)[i := ?x] ! j"
      using g[OF al[OF j]] j F(2) by (auto simp: nth_list_update)
  qed simp
  moreover have len: "i < length (map (get_sector s) ?ps)" using i F(2) by simp
  moreover have "map (get_sector s) ?ps ! i = get_sector s ?p" using i F(2) by simp
  ultimately show "content s' inode m = splice (content s inode m) (512 * i + r) d"
    using splice_concat[OF content_blocks len, of r d] r by (simp add: content_def)
  have "?p \<in> set ?ps" using i F(2) by (metis nth_mem nth_take)
  then show "only_blocks (set ?ps) s s'" using g unfolding only_blocks_def by (auto simp: s' put_sector_def)
qed

lemma only_blocks_trans: "only_blocks ps s s1 \<Longrightarrow> only_blocks ps s1 s2 \<Longrightarrow> only_blocks ps s s2"
  unfolding only_blocks_def by (metis fs_state.update_convs(1) fs_state.surjective)

lemma file_ok_cong: "dat_used s' = dat_used s \<Longrightarrow> current_dir_pointer s' = current_dir_pointer s \<Longrightarrow> file_ok s' inode m = file_ok s inode m"
  by (simp add: file_ok_def)

lemma file_ok_size [simp]: "file_ok s (inode\<lparr>i_size := x\<rparr>) m = file_ok s inode m" "content s (inode\<lparr>i_size := x\<rparr>) m = content s inode m"
  by (simp_all add: file_ok_def wf_inode_def content_def)

lemma fs_ok_write_block:
  assumes ok: "fs_ok s" and fok: "file_ok s inode m" and i: "i < m" and l: "length bs = 512"
  shows "fs_ok (put_sector (pointers inode ! i) bs s)" "ino_used (put_sector (pointers inode ! i) bs s) = ino_used s"
    "dat_used (put_sector (pointers inode ! i) bs s) = dat_used s"
proof -
  obtain b where b: "dat_used s b" "pointers inode ! i = data_sector b" "data_sector b \<noteq> current_dir_pointer s"
    using fok i by (auto simp: file_ok_def)
  then show "fs_ok (put_sector (pointers inode ! i) bs s)" "ino_used (put_sector (pointers inode ! i) bs s) = ino_used s"
    "dat_used (put_sector (pointers inode ! i) bs s) = dat_used s"
    using fs_ok_put_data[OF ok _ b(3) l] by (simp_all add: dat_used_def)
qed

text \<open>Once the blocks are there, the data is written.\<close>

lemma fwrite_loop_fits:
  "fs_ok s \<Longrightarrow> file_ok s inode m \<Longrightarrow> unat (f_offset f) + unat n \<le> 512 * m \<Longrightarrow> unat n \<le> length buf \<Longrightarrow>
   \<exists>s'. fwrite_loop s inode f buf n w = Some (w + n, inode\<lparr>i_size := i_size inode + n\<rparr>,
          f\<lparr>f_offset := f_offset f + n, f_size := f_size f + n\<rparr>, s') \<and>
     fs_ok s' \<and> ino_used s' = ino_used s \<and> dat_used s' = dat_used s \<and> only_blocks (set (take m (pointers inode))) s s' \<and>
     content s' inode m = splice (content s inode m) (unat (f_offset f)) (take (unat n) buf)"
proof (induction "unat n" arbitrary: s inode f buf n w rule: less_induct)
  case less
  note ok = less.prems(1) and fok = less.prems(2)
  show ?case
  proof (cases "n = 0")
    case True
    then show ?thesis using ok by (subst fwrite_loop.simps) (simp add: only_blocks_def)
  next
    case False
    then have n0: "0 < unat n" by (simp add: unat_gt_0)
    note F = file_okD[OF fok]
    let ?off = "f_offset f"
    have o5: "unat ?off < 5120" using less.prems(3) n0 F(1) by simp
    define c where "c = (if n < 512 - offset_remain ?off then n else 512 - offset_remain ?off)"
    note C = chunk[OF o5 n0, folded c_def] and O = otp_direct[OF o5]
    have i: "unat ?off div 512 < m" using less.prems(3) n0 by (simp add: div_less_iff_less_mult)
    have c512: "unat ?off mod 512 + unat c \<le> 512" "unat c \<le> unat n" using C(1) by auto
    have oc: "unat (?off + c) = unat ?off + unat c" using o5 c512(1) by (simp add: unat_plus_if')
    let ?d = "take (unat c) buf" and ?p = "pointers inode ! (unat ?off div 512)"
    have ld: "length ?d = unat c" using less.prems(4) c512(2) by simp
    let ?s1 = "put_sector ?p (splice (get_sector s ?p) (unat ?off mod 512) ?d) s"
    have rc: "unat (offset_remain ?off + c) = unat ?off mod 512 + unat c" using O(2) c512(1) by (simp add: unat_plus_if')
    have rem: "n \<le> size_allocated inode - ?off"
      using F(3) less.prems(3) by (simp add: word_le_nat_alt unat_sub_if')
    have eq: "fwrite_loop s inode f buf n w = fwrite_loop ?s1 (inode\<lparr>i_size := i_size inode + c\<rparr>)
        (f\<lparr>f_offset := ?off + c, f_size := f_size f + c\<rparr>) (drop (unat c) buf) (n - c) (w + c)"
      using False rem O rc ld less.prems(4) c512(2)
      by (subst fwrite_loop.simps) (simp add: c_def[symmetric] Let_def splice_def)
    have l1: "length (splice (get_sector s ?p) (unat ?off mod 512) ?d) = 512" using c512(1) ld by simp
    note W = fs_ok_write_block[OF ok fok i l1]
    have fok1: "file_ok ?s1 (inode\<lparr>i_size := i_size inode + c\<rparr>) m" using fok file_ok_cong[OF W(3), of inode m] by simp
    note B = write_block_content[OF fok i, of "unat ?off mod 512" ?d ?s1]
    have e: "512 * (unat ?off div 512) + unat ?off mod 512 = unat ?off" by simp
    have lt: "unat (n - c) < unat n" using C(2,3) n0 by simp
    let ?f1 = "f\<lparr>f_offset := ?off + c, f_size := f_size f + c\<rparr>"
    have pre: "unat (f_offset ?f1) + unat (n - c) \<le> 512 * m" "unat (n - c) \<le> length (drop (unat c) buf)"
      using less.prems(3,4) c512(2) unfolding C(3) by (simp_all add: oc)
    obtain s' where s': "fwrite_loop ?s1 (inode\<lparr>i_size := i_size inode + c\<rparr>) (f\<lparr>f_offset := ?off + c, f_size := f_size f + c\<rparr>)
        (drop (unat c) buf) (n - c) (w + c) = Some (w + c + (n - c), inode\<lparr>i_size := i_size inode + c + (n - c)\<rparr>,
          f\<lparr>f_offset := ?off + c + (n - c), f_size := f_size f + c + (n - c)\<rparr>, s')"
      "fs_ok s'" "ino_used s' = ino_used ?s1" "dat_used s' = dat_used ?s1" "only_blocks (set (take m (pointers inode))) ?s1 s'"
      "content s' inode m = splice (content ?s1 inode m) (unat (?off + c)) (take (unat (n - c)) (drop (unat c) buf))"
      using less.hyps[OF lt W(1) fok1 pre, of "w + c"] by auto
    have "content s' inode m = splice (splice (content s inode m) (unat ?off) ?d) (unat ?off + length ?d) (take (unat n - unat c) (drop (unat c) buf))"
      using s'(6) B(1) c512(1) ld oc C(3) e by simp
    also have "\<dots> = splice (content s inode m) (unat ?off) (?d @ take (unat n - unat c) (drop (unat c) buf))"
      using F(4) less.prems(3,4) ld c512(2) by (intro splice_splice) simp
    also have "?d @ take (unat n - unat c) (drop (unat c) buf) = take (unat n) buf" using c512(2) by (simp flip: take_add)
    finally have "content s' inode m = splice (content s inode m) (unat ?off) (take (unat n) buf)" .
    moreover have "only_blocks (set (take m (pointers inode))) s s'"
      using only_blocks_trans[OF B(2) s'(5)] c512(1) ld by simp
    ultimately show ?thesis using eq s'(1-4) W(2,3) by (intro exI[of _ s']) simp
  qed
qed

lemma content_dat_frame:
  assumes fok: "file_ok s inode m" and df: "dat_frame s s1"
  shows "content s1 inode m = content s inode m"
proof (rule content_cong)
  fix p assume "p \<in> set (take m (pointers inode))"
  then obtain i where "i < m" "p = pointers inode ! i" by (auto simp: in_set_conv_nth)
  then show "get_sector s1 p = get_sector s p"
    using df is_data_apart[OF file_okD(5)[OF fok]] by (simp add: dat_frame_def)
qed

text \<open>A block is added at the end of the file.\<close>

definition grown :: "inode_t \<Rightarrow> nat \<Rightarrow> nat \<Rightarrow> inode_t" where
  "grown inode m b = inode\<lparr>pointers := (pointers inode)[m := data_sector b], size_allocated := size_allocated inode + 512\<rparr>"

lemma take_grown: "m < length (pointers inode) \<Longrightarrow> take (Suc m) (pointers (grown inode m b)) = take m (pointers inode) @ [data_sector b]"
  by (simp add: grown_def take_Suc_conv_app_nth)

lemma grow_file:
  assumes ok: "fs_ok s" and fok: "file_ok s inode m" and m: "m < 10" and al: "darray_alloc s = Some (int b, s1)"
  shows "fs_ok s1" "ino_used s1 = ino_used s" "file_ok s1 (grown inode m b) (Suc m)" "dat_frame s s1"
    "content s1 (grown inode m b) (Suc m) = content s inode m @ get_sector s1 (data_sector b)"
    "set (take m (pointers inode)) \<subseteq> set (take (Suc m) (pointers (grown inode m b)))"
proof -
  have A: "fs_ok s1" "b < 1048576" "\<not> dat_used s b" "\<And>k. dat_used s1 k \<longleftrightarrow> k = b \<or> dat_used s k"
    "ino_used s1 = ino_used s" "current_dir_pointer s1 = current_dir_pointer s" using fs_ok_darray_alloc[OF ok al] by simp_all
  show "fs_ok s1" "ino_used s1 = ino_used s" using A by simp_all
  show df: "dat_frame s s1" by (rule darray_alloc_frame[OF fs_okD(2)[OF ok] al])
  have l: "length (pointers inode) = 13" using fok by (simp add: file_ok_def wf_inode_def)
  have tk: "take (Suc m) (pointers (grown inode m b)) = take m (pointers inode) @ [data_sector b]"
    using m l by (simp add: grown_def take_Suc_conv_app_nth)
  then show "set (take m (pointers inode)) \<subseteq> set (take (Suc m) (pointers (grown inode m b)))" by auto
  have B: "\<exists>c. dat_used s c \<and> pointers inode ! i = data_sector c \<and> data_sector c \<noteq> current_dir_pointer s" if "i < m" for i
    using fok that by (simp add: file_ok_def)
  have new: "data_sector b \<notin> set (take m (pointers inode))"
  proof
    assume "data_sector b \<in> set (take m (pointers inode))"
    then obtain i where "i < m" "pointers inode ! i = data_sector b" by (auto simp: in_set_conv_nth)
    then obtain c where "dat_used s c" "data_sector c = data_sector b" using B[of i] by metis
    then show False using data_sector_inj[of c b] A(2,3) by (auto simp: dat_used_def)
  qed
  have nc: "data_sector b \<noteq> current_dir_pointer s"
  proof
    assume e: "data_sector b = current_dir_pointer s"
    obtain c where "dat_used s c" "current_dir_pointer s = data_sector c" using fs_okD(10)[OF ok] by blast
    then show False using data_sector_inj[of c b] A(2,3) e by (simp add: dat_used_def)
  qed
  have "\<exists>c. dat_used s1 c \<and> pointers (grown inode m b) ! i = data_sector c \<and> data_sector c \<noteq> current_dir_pointer s1" if "i < Suc m" for i
    using that B[of i] A(4,6) nc l m by (cases "i = m") (auto simp: grown_def)
  then show "file_ok s1 (grown inode m b) (Suc m)"
    using fok tk new m l by (auto simp: file_ok_def wf_inode_def grown_def)
  have "content s1 inode m = content s inode m" by (rule content_dat_frame[OF fok df])
  then show "content s1 (grown inode m b) (Suc m) = content s inode m @ get_sector s1 (data_sector b)"
    unfolding content_def tk by simp
qed

text \<open>What a whole \<^verbatim>\<open>fwrite\<close> leaves alone: all but the super block, the sector map and the blocks of the file.\<close>

definition file_frame :: "u32 set \<Rightarrow> fs_state \<Rightarrow> fs_state \<Rightarrow> bool" where
  "file_frame ps s s' \<longleftrightarrow> current_dir s' = current_dir s \<and> current_dir_pointer s' = current_dir_pointer s \<and>
     fd_array s' = fd_array s \<and> fd_array_slist s' = fd_array_slist s \<and> sb_reserved (super_block s') = sb_reserved (super_block s) \<and>
     (\<forall>a. aligned a \<longrightarrow> a \<noteq> FS_BASE \<longrightarrow> \<not> is_smap a \<longrightarrow> a \<notin> ps \<longrightarrow> get_sector s' a = get_sector s a)"

lemma file_frame_blocks: "only_blocks ps s s' \<Longrightarrow> file_frame ps s s'"
  unfolding only_blocks_def file_frame_def
  by (metis fs_state.select_convs(2-6) fs_state.surjective fs_state.update_convs(1))

lemma file_frame_trans: "dat_frame s s1 \<Longrightarrow> file_frame ps s1 s2 \<Longrightarrow> file_frame ps s s2"
  by (simp add: dat_frame_def file_frame_def)

text \<open>\<^verbatim>\<open>fwrite\<close> either writes all the data or, when the card has no block left, none of it.\<close>

definition written :: "fs_state \<Rightarrow> inode_t \<Rightarrow> nat \<Rightarrow> fd_t \<Rightarrow> u8 list \<Rightarrow> u32 \<Rightarrow> inode_t \<Rightarrow> fd_t \<Rightarrow> fs_state \<Rightarrow> nat \<Rightarrow> bool" where
  "written s inode m f buf n inode' f' s' m' \<longleftrightarrow>
     f' = f\<lparr>f_offset := f_offset f + n, f_size := f_size f + n\<rparr> \<and> i_size inode' = i_size inode + n \<and> i_type inode' = i_type inode \<and>
     unat (f_offset f) + unat n \<le> 512 * m' \<and>
     (\<exists>extra. length (content s inode m @ extra) = 512 * m' \<and>
        content s' inode' m' = splice (content s inode m @ extra) (unat (f_offset f)) (take (unat n) buf))"

definition refused :: "fs_state \<Rightarrow> inode_t \<Rightarrow> nat \<Rightarrow> fd_t \<Rightarrow> inode_t \<Rightarrow> fd_t \<Rightarrow> fs_state \<Rightarrow> nat \<Rightarrow> bool" where
  "refused s inode m f inode' f' s' m' \<longleftrightarrow> f' = f \<and> i_size inode' = i_size inode \<and>
     (\<exists>extra. content s' inode' m' = content s inode m @ extra) \<and>
     (\<forall>b. unat (smap_index s) * 4096 \<le> b \<longrightarrow> b < 1048576 \<longrightarrow> dat_used s' b)"

lemma written_grow:
  assumes "written s1 g (Suc m) f buf n inode' f' s' m'" "content s1 g (Suc m) = content s inode m @ xs" "i_size g = i_size inode" "i_type g = i_type inode"
  shows "written s inode m f buf n inode' f' s' m'"
  using assms unfolding written_def by (metis append.assoc)

text \<open>The blocks a file has gained were free before.\<close>

definition gained :: "fs_state \<Rightarrow> fs_state \<Rightarrow> u32 list \<Rightarrow> u32 list \<Rightarrow> bool" where
  "gained s s' ps ps' \<longleftrightarrow> set ps \<subseteq> set ps' \<and> (\<forall>b. dat_used s' b \<longrightarrow> dat_used s b \<or> data_sector b \<in> set ps') \<and>
     (\<forall>p\<in>set ps'. p \<in> set ps \<or> (\<exists>b<1048576. \<not> dat_used s b \<and> p = data_sector b))"

lemma gained_step:
  assumes g: "gained s1 s' (ps @ [data_sector b]) ps'" and b: "b < 1048576" "\<not> dat_used s b" "\<And>k. dat_used s1 k \<longleftrightarrow> k = b \<or> dat_used s k"
  shows "gained s s' ps ps'"
  unfolding gained_def
proof (intro conjI allI impI ballI)
  show "set ps \<subseteq> set ps'" using g by (simp add: gained_def)
  show "dat_used s k \<or> data_sector k \<in> set ps'" if "dat_used s' k" for k using g that b(3) by (auto simp: gained_def)
  show "p \<in> set ps \<or> (\<exists>b<1048576. \<not> dat_used s b \<and> p = data_sector b)" if p: "p \<in> set ps'" for p
  proof -
    have "p \<in> set (ps @ [data_sector b]) \<or> (\<exists>b<1048576. \<not> dat_used s1 b \<and> p = data_sector b)" using g p unfolding gained_def by blast
    then show ?thesis using b by auto
  qed
qed

lemma fwrite_loop_total:
  "fs_ok s \<Longrightarrow> file_ok s inode m \<Longrightarrow> unat (f_offset f) \<le> 512 * m \<Longrightarrow> unat (f_offset f) + unat n \<le> 5120 \<Longrightarrow> unat n \<le> length buf \<Longrightarrow>
   \<exists>w' inode' f' s' m'. fwrite_loop s inode f buf n w = Some (w', inode', f', s') \<and> fs_ok s' \<and> ino_used s' = ino_used s \<and>
     (\<forall>b. dat_used s b \<longrightarrow> dat_used s' b) \<and> file_ok s' inode' m' \<and> m \<le> m' \<and> file_frame (set (take m' (pointers inode'))) s s' \<and>
     gained s s' (take m (pointers inode)) (take m' (pointers inode')) \<and>
     (w' = w + n \<and> written s inode m f buf n inode' f' s' m' \<or> w' = w \<and> refused s inode m f inode' f' s' m')"
proof (induction "10 - m" arbitrary: s inode m rule: less_induct)
  case less
  note ok = less.prems(1) and fok = less.prems(2)
  note F = file_okD[OF fok]
  show ?case
  proof (cases "unat (f_offset f) + unat n \<le> 512 * m")
    case True
    obtain s' where s': "fwrite_loop s inode f buf n w = Some (w + n, inode\<lparr>i_size := i_size inode + n\<rparr>,
          f\<lparr>f_offset := f_offset f + n, f_size := f_size f + n\<rparr>, s')" "fs_ok s'" "ino_used s' = ino_used s" "dat_used s' = dat_used s"
      "only_blocks (set (take m (pointers inode))) s s'"
      "content s' inode m = splice (content s inode m) (unat (f_offset f)) (take (unat n) buf)"
      using fwrite_loop_fits[OF ok fok True less.prems(5), of w] by blast
    have "current_dir_pointer s' = current_dir_pointer s" using file_frame_blocks[OF s'(5)] by (simp add: file_frame_def)
    then have "file_ok s' inode m" using fok file_ok_cong[OF s'(4), of inode m] by simp
    moreover have "written s inode m f buf n (inode\<lparr>i_size := i_size inode + n\<rparr>) (f\<lparr>f_offset := f_offset f + n, f_size := f_size f + n\<rparr>) s' m"
      using True F(4) s'(6) unfolding written_def by (auto intro!: exI[of _ "[]"])
    ultimately show ?thesis using s' file_frame_blocks[OF s'(5)]
      by (intro exI[of _ "w + n"] exI[of _ "inode\<lparr>i_size := i_size inode + n\<rparr>"] exI[of _ "f\<lparr>f_offset := f_offset f + n, f_size := f_size f + n\<rparr>"]
          exI[of _ s'] exI[of _ m]) (simp add: gained_def)
  next
    case False
    then have m: "m < 10" "n \<noteq> 0" using less.prems(3,4) by auto
    have rem: "\<not> n \<le> size_allocated inode - f_offset f"
      using F(3) less.prems(3) False by (simp add: word_le_nat_alt unat_sub_if')
    obtain r s1 where al: "darray_alloc s = Some (r, s1)" and r: "r = -1 \<and> (\<forall>n. unat (smap_index s) * 4096 \<le> n \<longrightarrow> n < 1048576 \<longrightarrow> dat_used s n) \<and>
        (\<forall>n. dat_used s1 n = dat_used s n) \<and> smap_ok s1 \<or> (\<exists>b. r = int b)"
      using dat.alloc_ok[OF fs_okD(2)[OF ok]] by metis
    from r show ?thesis
    proof
      assume r1: "r = -1 \<and> (\<forall>n. unat (smap_index s) * 4096 \<le> n \<longrightarrow> n < 1048576 \<longrightarrow> dat_used s n) \<and> (\<forall>n. dat_used s1 n = dat_used s n) \<and> smap_ok s1"
      have df: "dat_frame s s1" by (rule darray_alloc_frame[OF fs_okD(2)[OF ok] al])
      have du: "dat_used s1 = dat_used s" using r1 by (simp add: fun_eq_iff)
      obtain c where "dat_used s c" "current_dir_pointer s = data_sector c" using fs_okD(10)[OF ok] by blast
      then have ok1: "fs_ok s1 \<and> ino_used s1 = ino_used s"
        using fs_ok_dat_frame[OF ok df, of c] r1 fs_okD(9)[OF ok] by simp
      have fok1: "file_ok s1 inode m" using fok df file_ok_cong[OF du, of inode m] by (simp add: dat_frame_def)
      have "fwrite_loop s inode f buf n w = Some (w, inode, f, s1)"
        using m(2) rem al r1 by (subst fwrite_loop.simps) (simp add: Let_def)
      moreover have "refused s inode m f inode f s1 m"
        using content_dat_frame[OF fok df] r1 by (simp add: refused_def)
      ultimately show ?thesis using ok1 fok1 du df
        by (intro exI[of _ w] exI[of _ inode] exI[of _ f] exI[of _ s1] exI[of _ m]) (simp add: file_frame_def dat_frame_def gained_def)
    next
      assume "\<exists>b. r = int b"
      then obtain b where b: "darray_alloc s = Some (int b, s1)" using al by blast
      note G = grow_file[OF ok fok m(1) b]
      have used: "dat_used s1 k \<longleftrightarrow> k = b \<or> dat_used s k" for k using fs_ok_darray_alloc[OF ok b] by simp
      have pi: "unat (size_allocated inode div 512) = m" using F(3) by (simp add: unat_div)
      have lp: "m < length (pointers inode)" using fok m(1) by (simp add: file_ok_def wf_inode_def)
      have e: "fwrite_loop s inode f buf n w = fwrite_loop s1 (grown inode m b) f buf n w"
        using m(2) rem b pi lp by (subst fwrite_loop.simps) (simp add: Let_def grown_def data_sector_def)
      have "10 - Suc m < 10 - m" "unat (f_offset f) \<le> 512 * Suc m" using m(1) less.prems(3) by simp_all
      from less.hyps[OF this(1) G(1,3) this(2) less.prems(4,5)] obtain w' inode' f' s' m' where
        I: "fwrite_loop s1 (grown inode m b) f buf n w = Some (w', inode', f', s')" "fs_ok s'" "ino_used s' = ino_used s1"
        "\<forall>b. dat_used s1 b \<longrightarrow> dat_used s' b" "file_ok s' inode' m'" "Suc m \<le> m'" "file_frame (set (take m' (pointers inode'))) s1 s'"
        "gained s1 s' (take (Suc m) (pointers (grown inode m b))) (take m' (pointers inode'))"
        and R: "w' = w + n \<and> written s1 (grown inode m b) (Suc m) f buf n inode' f' s' m' \<or>
          w' = w \<and> refused s1 (grown inode m b) (Suc m) f inode' f' s' m'" by blast
      have sz: "i_size (grown inode m b) = i_size inode" and ty: "i_type (grown inode m b) = i_type inode" by (simp_all add: grown_def)
      have "written s inode m f buf n inode' f' s' m'" if wr: "written s1 (grown inode m b) (Suc m) f buf n inode' f' s' m'"
        using written_grow[OF wr G(5) sz ty] .
      moreover have "refused s inode m f inode' f' s' m'" if "refused s1 (grown inode m b) (Suc m) f inode' f' s' m'"
        using that darray_alloc_low[OF fs_okD(2)[OF ok] b] I(4) used unfolding refused_def G(5) sz by fastforce
      moreover have "gained s s' (take m (pointers inode)) (take m' (pointers inode'))"
        using I(8) unfolding take_grown[OF lp] by (rule gained_step) (use fs_ok_darray_alloc[OF ok b] in auto)
      ultimately show ?thesis using e I(1-7) R G(2) used file_frame_trans[OF G(4) I(7)]
        by (intro exI[of _ w'] exI[of _ inode'] exI[of _ f'] exI[of _ s'] exI[of _ m']) auto
    qed
  qed
qed

section \<open>Reading and writing through a descriptor\<close>

text \<open>Descriptor \<open>fd\<close> is \<open>f\<close>, and its inode describes a file of \<open>m\<close> blocks.\<close>

definition open_file :: "fs_state \<Rightarrow> nat \<Rightarrow> fd_t \<Rightarrow> nat \<Rightarrow> bool" where
  "open_file s fd f m \<longleftrightarrow> fd < length (fd_array s) \<and> fd_array s ! fd = f \<and> unat (f_ino f) < 4096 \<and>
     file_ok s (inode_at s (unat (f_ino f))) m \<and> unat (f_offset f) \<le> 512 * m"

definition file_bytes :: "fs_state \<Rightarrow> nat \<Rightarrow> nat \<Rightarrow> u8 list" where
  "file_bytes s ino m = content s (inode_at s ino) m"

lemma file_frame_apart:
  assumes fok: "file_ok s' inode m" and fr: "file_frame (set (take m (pointers inode))) s s'" and a: "is_iarray a"
  shows "get_sector s' a = get_sector s a"
proof -
  have "a \<notin> set (take m (pointers inode))"
    using file_okD(5)[OF fok] is_data_apart(5) a by (auto simp: in_set_conv_nth)
  then show ?thesis using fr is_iarray_apart[OF a] by (simp add: file_frame_def)
qed

lemma inode_group_inodes:
  assumes "unat (w :: u32) < 4096"
  shows "inode_group (sint w) = (iarray_sector (unat w div 8), int (unat w mod 8))"
    "dec_inodes (get_sector s (iarray_sector (unat w div 8))) = get_inodes s (unat w div 8)"
    "arr_get (get_inodes s (unat w div 8)) (int (unat w mod 8)) = Some (inode_at s (unat w))"
    "arr_set (get_inodes s (unat w div 8)) (int (unat w mod 8)) i = Some ((get_inodes s (unat w div 8))[unat w mod 8 := i])"
  using assms inode_group_small[of w] wf_inodes(1)[of s "unat w div 8"]
  by (simp_all add: get_inodes_def inode_at_def arr_set_nat)

lemma fwrite_eq:
  assumes op: "open_file s fd f m" and acc: "access f = O_RDWR \<or> access f = O_WR"
    and lp: "fwrite_loop s (inode_at s (unat (f_ino f))) f buf n 0 = Some (r, inode', f', s1)"
    and fr: "file_ok s1 inode' m'" "file_frame (set (take m' (pointers inode'))) s s1"
  shows "fwrite (int fd) buf n s = Some (r, put_inode (unat (f_ino f)) inode' (s1\<lparr>fd_array := (fd_array s)[fd := f']\<rparr>))"
proof -
  have F: "fd < length (fd_array s)" "fd_array s ! fd = f" "unat (f_ino f) < 4096" using op by (simp_all add: open_file_def)
  let ?a = "iarray_sector (unat (f_ino f) div 8)"
  have "unat (f_ino f) div 8 < 512" using F(3) by (simp add: div_less_iff_less_mult)
  then have "get_sector s1 ?a = get_sector s ?a" by (intro file_frame_apart[OF fr] iarray_sector_ok)
  then have g: "get_inodes s1 (unat (f_ino f) div 8) = get_inodes s (unat (f_ino f) div 8)" by (simp add: get_inodes_def)
  have [simp]: "get_inodes (s1\<lparr>fd_array := x\<rparr>) k = get_inodes s1 k" for x k by (simp add: get_inodes_def get_sector_def)
  have "fd_array s1 = fd_array s" using fr(2) by (simp add: file_frame_def)
  then show ?thesis
    using F acc lp inode_group_inodes[OF F(3)] by (auto simp: fwrite_def put_inode_def g arr_set_nat)
qed

lemma open_file_set_fd: "file_ok (s\<lparr>fd_array := x\<rparr>) i m = file_ok s i m" "content (s\<lparr>fd_array := x\<rparr>) i m = content s i m"
  "dat_used (s\<lparr>fd_array := x\<rparr>) = dat_used s" "ino_used (s\<lparr>fd_array := x\<rparr>) = ino_used s" "fs_ok (s\<lparr>fd_array := x\<rparr>) = fs_ok s"
  "inode_at (s\<lparr>fd_array := x\<rparr>) k = inode_at s k"
proof -
  let ?t = "s\<lparr>fd_array := x\<rparr>"
  have [simp]: "get_sector ?t = get_sector s" by (simp add: get_sector_def fun_eq_iff)
  have [simp]: "smap_at ?t k = smap_at s k" for k by (simp add: smap_at_def)
  show [simp]: "dat_used ?t = dat_used s" "ino_used ?t = ino_used s" by (simp_all add: fun_eq_iff dat_used_def ino_used_def)
  have [simp]: "super_ok ?t = super_ok s" by (simp add: super_ok_def)
  show "file_ok ?t i m = file_ok s i m" "content ?t i m = content s i m" "inode_at ?t k = inode_at s k"
    by (simp_all add: file_ok_def content_def inode_at_def get_inodes_def)
  show "fs_ok ?t = fs_ok s" by (simp add: fs_ok_def imap_ok_def smap_ok_def)
qed

lemma set_slist: "dat_used (s\<lparr>fd_array_slist := x\<rparr>) = dat_used s" "fs_ok (s\<lparr>fd_array_slist := x\<rparr>) = fs_ok s"
  "inode_at (s\<lparr>fd_array_slist := x\<rparr>) k = inode_at s k" "smap_index (s\<lparr>fd_array_slist := x\<rparr>) = smap_index s"
proof -
  let ?t = "s\<lparr>fd_array_slist := x\<rparr>"
  have [simp]: "get_sector ?t = get_sector s" by (simp add: get_sector_def fun_eq_iff)
  have [simp]: "smap_at ?t k = smap_at s k" for k by (simp add: smap_at_def)
  show [simp]: "dat_used ?t = dat_used s" by (simp add: fun_eq_iff dat_used_def)
  have [simp]: "ino_used ?t = ino_used s" by (simp add: fun_eq_iff ino_used_def)
  have [simp]: "super_ok ?t = super_ok s" by (simp add: super_ok_def)
  show "inode_at ?t k = inode_at s k" "smap_index ?t = smap_index s" by (simp_all add: inode_at_def get_inodes_def)
  show "fs_ok ?t = fs_ok s" by (simp add: fs_ok_def imap_ok_def smap_ok_def)
qed

lemma content_put_inode:
  assumes fok: "file_ok s i m" and n: "n < 4096" "wf_inode j"
  shows "content (put_inode n j s) i m = content s i m"
proof (rule content_cong)
  fix p assume "p \<in> set (take m (pointers i))"
  then have "is_data p" using file_okD(5)[OF fok] by (auto simp: in_set_conv_nth)
  then show "get_sector (put_inode n j s) p = get_sector s p" using put_inode_other[OF n] is_data_apart by simp
qed

text \<open>Blocks of another file: used before the write, and not among those of the file written to.\<close>

lemma other_file_kept:
  assumes fr: "file_frame (set ps') s s'" and g: "gained s s' ps ps'"
    and oth: "file_ok s i m" "set (take m (pointers i)) \<inter> set ps = {}"
  shows "content s' i m = content s i m"
proof (rule content_cong)
  fix p assume p: "p \<in> set (take m (pointers i))"
  then obtain b where b: "dat_used s b" "p = data_sector b" using oth(1) by (force simp: file_ok_def in_set_conv_nth)
  have "p \<notin> set ps'"
  proof
    assume "p \<in> set ps'"
    moreover have "p \<notin> set ps" using p oth(2) by blast
    ultimately obtain c where "c < 1048576" "\<not> dat_used s c" "p = data_sector c" using g unfolding gained_def by blast
    moreover have "b < 1048576" using b(1) by (simp add: dat_used_def)
    ultimately show False using data_sector_inj[of b c] b by simp
  qed
  moreover have "is_data p" using b data_sector_ok by (simp add: dat_used_def)
  ultimately show "get_sector s' p = get_sector s p" using fr is_data_apart by (simp add: file_frame_def)
qed

text \<open>The blocks the allocator can still reach.\<close>

definition free_blocks :: "fs_state \<Rightarrow> nat set" where
  "free_blocks s = {b. unat (smap_index s) * 4096 \<le> b \<and> b < 1048576 \<and> \<not> dat_used s b}"

lemma refused_full:
  assumes g: "gained s s' ps ps'" "length ps' \<le> 10"
    and full: "\<forall>b. unat (smap_index s) * 4096 \<le> b \<longrightarrow> b < 1048576 \<longrightarrow> dat_used s' b"
  shows "card (free_blocks s) \<le> 10"
proof -
  have "data_sector ` free_blocks s \<subseteq> set ps'" using g(1) full by (auto simp: free_blocks_def gained_def)
  then have "card (data_sector ` free_blocks s) \<le> card (set ps')" by (intro card_mono) simp_all
  moreover have "inj_on data_sector (free_blocks s)" using data_sector_inj by (auto simp: inj_on_def free_blocks_def)
  ultimately show ?thesis using card_length[of ps'] g(2) by (simp add: card_image)
qed

lemma fwrite_ok:
  assumes ok: "fs_ok s" and op: "open_file s fd f m" and acc: "access f = O_RDWR \<or> access f = O_WR"
    and n: "unat (f_offset f) + unat n \<le> 5120" "unat n \<le> length buf"
  defines "ino \<equiv> unat (f_ino f)"
  shows "\<exists>r s' f' m'. fwrite (int fd) buf n s = Some (r, s') \<and> fs_ok s' \<and> ino_used s' = ino_used s \<and> open_file s' fd f' m' \<and>
    fd_array s' = (fd_array s)[fd := f'] \<and> (\<forall>k<4096. k \<noteq> ino \<longrightarrow> inode_at s' k = inode_at s k) \<and>
    (\<forall>i k. file_ok s i k \<longrightarrow> set (take k (pointers i)) \<inter> set (take m (pointers (inode_at s ino))) = {} \<longrightarrow> content s' i k = content s i k) \<and>
    current_dir s' = current_dir s \<and> current_dir_pointer s' = current_dir_pointer s \<and>
    sb_reserved (super_block s') = sb_reserved (super_block s) \<and>
    (r = n \<and> f' = f\<lparr>f_offset := f_offset f + n, f_size := f_size f + n\<rparr> \<and> i_size (inode_at s' ino) = i_size (inode_at s ino) + n \<and>
       i_type (inode_at s' ino) = i_type (inode_at s ino) \<and> unat (f_offset f) + unat n \<le> 512 * m' \<and>
       (\<exists>extra. length (file_bytes s ino m @ extra) = 512 * m' \<and>
          file_bytes s' ino m' = splice (file_bytes s ino m @ extra) (unat (f_offset f)) (take (unat n) buf)) \<or>
     r = 0 \<and> f' = f \<and> i_size (inode_at s' ino) = i_size (inode_at s ino) \<and> take (512 * m) (file_bytes s' ino m') = file_bytes s ino m \<and>
       card (free_blocks s) \<le> 10)"
proof -
  have F: "fd < length (fd_array s)" "fd_array s ! fd = f" "ino < 4096" "file_ok s (inode_at s ino) m" "unat (f_offset f) \<le> 512 * m"
    using op by (simp_all add: open_file_def ino_def)
  obtain r inode' f' s1 m' where L: "fwrite_loop s (inode_at s ino) f buf n 0 = Some (r, inode', f', s1)" "fs_ok s1" "ino_used s1 = ino_used s"
    "\<forall>b. dat_used s b \<longrightarrow> dat_used s1 b" "file_ok s1 inode' m'" "m \<le> m'" "file_frame (set (take m' (pointers inode'))) s s1"
    "gained s s1 (take m (pointers (inode_at s ino))) (take m' (pointers inode'))"
    "r = 0 + n \<and> written s (inode_at s ino) m f buf n inode' f' s1 m' \<or> r = 0 \<and> refused s (inode_at s ino) m f inode' f' s1 m'"
    using fwrite_loop_total[OF ok F(4,5) n, of 0] by metis
  define t where "t = s1\<lparr>fd_array := (fd_array s)[fd := f']\<rparr>"
  let ?s = "put_inode ino inode' t"
  have wf: "wf_inode inode'" using L(5) by (simp add: file_ok_def)
  have t: "fs_ok t" "ino_used t = ino_used s" "dat_used t = dat_used s1" "file_ok t inode' m'" "content t i k = content s1 i k" for i k
    using L(2,3,5) by (simp_all add: t_def open_file_set_fd)
  have cp: "current_dir_pointer s1 = current_dir_pointer s" "current_dir s1 = current_dir s"
    "sb_reserved (super_block s1) = sb_reserved (super_block s)" using L(7) by (simp_all add: file_frame_def)
  note P = fs_ok_put_inode[OF t(1) F(3) wf]
  have eq: "fwrite (int fd) buf n s = Some (r, ?s)"
    unfolding t_def ino_def by (rule fwrite_eq[OF op acc _ L(5,7)]) (use L(1) in \<open>simp add: ino_def\<close>)
  have at: "inode_at t k = inode_at s k" if "k < 4096" for k
    unfolding t_def open_file_set_fd by (rule inode_at_cong[OF file_frame_apart[OF L(5,7)] that])
  have ia: "inode_at ?s ino = inode'" "\<And>k. k < 4096 \<Longrightarrow> k \<noteq> ino \<Longrightarrow> inode_at ?s k = inode_at s k"
    using inode_at_put[OF F(3) _ wf, of _ t] F(3) at by simp_all
  have fb: "file_bytes ?s ino m' = content s1 inode' m'"
    using content_put_inode[OF t(4) F(3) wf] t(5) by (simp add: file_bytes_def ia(1))
  have oth: "content ?s i k = content s i k"
    if "file_ok s i k" "set (take k (pointers i)) \<inter> set (take m (pointers (inode_at s ino))) = {}" for i k
  proof -
    have "file_ok t i k" using that(1) L(4) cp unfolding t_def open_file_set_fd by (force simp: file_ok_def)
    then show ?thesis
      using content_put_inode[OF _ F(3) wf] other_file_kept[OF L(7,8) that] t(5) by simp
  qed
  have f': "f_ino f' = f_ino f" "unat (f_offset f') \<le> 512 * m'"
    using L(6,9) F(5) n(1) file_okD(1)[OF L(5)] by (auto simp: written_def refused_def unat_word_ariths)
  have "file_ok ?s inode' m'" using t(4) file_ok_cong[OF P(3)] by simp
  then have "open_file ?s fd f' m'"
    using F(1,3) f' ia(1) by (simp add: open_file_def ino_def[symmetric] t_def)
  moreover have "fd_array ?s = (fd_array s)[fd := f']" "current_dir ?s = current_dir s" "current_dir_pointer ?s = current_dir_pointer s"
    "sb_reserved (super_block ?s) = sb_reserved (super_block s)" using cp by (simp_all add: t_def)
  moreover have "length (content s (inode_at s ino) m) = 512 * m" by (rule file_okD(4)[OF F(4)])
  moreover have "card (free_blocks s) \<le> 10" if "refused s (inode_at s ino) m f inode' f' s1 m'"
    using refused_full[OF L(8)] file_okD(1,2)[OF L(5)] that by (simp add: refused_def)
  ultimately show ?thesis using eq P t(2,3) ia oth L(9)
    by (intro exI[of _ r] exI[of _ ?s] exI[of _ f'] exI[of _ m'])
      (auto simp: fb written_def refused_def file_bytes_def[of s])
qed

lemma fread_ok:
  assumes op: "open_file s fd f m" and acc: "access f = O_RDWR \<or> access f = O_RD"
    and t: "t = min (f_size f - f_offset f) n" "unat (f_offset f) + unat t \<le> 512 * m"
  shows "fread (int fd) n s = Some (t, take (unat t) (drop (unat (f_offset f)) (file_bytes s (unat (f_ino f)) m)),
           s\<lparr>fd_array := (fd_array s)[fd := f\<lparr>f_offset := f_offset f + t\<rparr>]\<rparr>)"
proof -
  have F: "fd < length (fd_array s)" "fd_array s ! fd = f" "unat (f_ino f) < 4096" "file_ok s (inode_at s (unat (f_ino f))) m"
    using op by (simp_all add: open_file_def)
  have "(if f_size f - f_offset f < n then f_size f - f_offset f else n) = t" using t(1) by (auto simp: min_def)
  then show ?thesis
    using F(1,2) acc inode_group_inodes[OF F(3)] fread_loop_content[OF F(4) t(2)]
    by (auto simp: fread_def arr_set_nat file_bytes_def Let_def)
qed

lemma fseek_open:
  assumes "open_file s fd f m" "unat off \<le> 512 * m"
  shows "fseek (int fd) off s = Some (s\<lparr>fd_array := (fd_array s)[fd := f\<lparr>f_offset := off\<rparr>]\<rparr>) \<and>
    open_file (s\<lparr>fd_array := (fd_array s)[fd := f\<lparr>f_offset := off\<rparr>]\<rparr>) fd (f\<lparr>f_offset := off\<rparr>) m"
  using assms by (simp add: fseek_def open_file_def arr_set_nat open_file_set_fd)

text \<open>Write, seek back, read: the data come back.\<close>

lemma fwrite_fseek_fread:
  assumes ok: "fs_ok s" and op: "open_file s fd f m" and acc: "access f = O_RDWR"
    and n: "unat (f_offset f) + unat n \<le> 5120" "unat n \<le> length buf"
    and sz: "f_offset f \<le> f_size f" "unat (f_size f) + unat n < 2 ^ 32" and free: "10 < card (free_blocks s)"
  shows "\<exists>s1 s2 s3. fwrite (int fd) buf n s = Some (n, s1) \<and> fseek (int fd) (f_offset f) s1 = Some s2 \<and>
    fread (int fd) n s2 = Some (n, take (unat n) buf, s3) \<and> fs_ok s3"
proof -
  obtain r s1 f' m' extra where W: "fwrite (int fd) buf n s = Some (n, s1)" "fs_ok s1" "open_file s1 fd f' m'"
    "f' = f\<lparr>f_offset := f_offset f + n, f_size := f_size f + n\<rparr>" "unat (f_offset f) + unat n \<le> 512 * m'"
    "length (file_bytes s (unat (f_ino f)) m @ extra) = 512 * m'"
    "file_bytes s1 (unat (f_ino f)) m' = splice (file_bytes s (unat (f_ino f)) m @ extra) (unat (f_offset f)) (take (unat n) buf)"
    using fwrite_ok[OF ok op disjI1[OF acc] n] free by (metis leD)
  let ?f = "f'\<lparr>f_offset := f_offset f\<rparr>"
  let ?s = "s1\<lparr>fd_array := (fd_array s1)[fd := ?f]\<rparr>"
  have k: "fseek (int fd) (f_offset f) s1 = Some ?s" "open_file ?s fd ?f m'" using fseek_open[OF W(3), of "f_offset f"] W(5) by simp_all
  have "n \<le> f_size f + n - f_offset f"
    using sz by (simp add: word_le_nat_alt unat_sub_if' unat_plus_if')
  then have "min (f_size ?f - f_offset ?f) n = n" by (simp add: W(4) min_absorb2)
  then have "fread (int fd) n ?s = Some (n, take (unat n) (drop (unat (f_offset f)) (file_bytes ?s (unat (f_ino f)) m')),
      ?s\<lparr>fd_array := (fd_array ?s)[fd := ?f\<lparr>f_offset := f_offset ?f + n\<rparr>]\<rparr>)"
    using fread_ok[OF k(2), of n n] acc W(4,5) by simp
  moreover have "file_bytes ?s (unat (f_ino f)) m' = file_bytes s1 (unat (f_ino f)) m'" by (simp add: file_bytes_def open_file_set_fd)
  moreover have "take (unat n) (drop (unat (f_offset f)) (file_bytes s1 (unat (f_ino f)) m')) = take (unat n) buf"
    unfolding W(7) using take_drop_splice[of "unat (f_offset f)" "take (unat n) buf" "file_bytes s (unat (f_ino f)) m @ extra"] W(5,6) n(2)
    by (simp add: min_absorb2)
  ultimately show ?thesis using W(1,2) k(1) by (simp add: open_file_set_fd)
qed

end
