(* ===== verification/Fs_Spec.thy ===== *)
theory Fs_Spec
  imports Fs_File
begin

text \<open>
  The properties of the file system: what \<^verbatim>\<open>mkfs\<close> and \<^verbatim>\<open>mount\<close> make, what each operation on the current
  directory does to its entries and to the allocators, and that what is written to a file is read back.
  The witnesses use the file system that \<open>mkfs\<close> and \<open>mount\<close> make on a blank card.
\<close>

section \<open>A new file system\<close>

definition zero_super :: super_block_t where
  "zero_super = \<lparr>imap_offset = 0, smap_offset = 0, iarray_offset = 0, darray_offset = 0, inode_size = 0, directory_size = 0,
     inode_number = 0, data_number = 0, data_used = 0, inode_used = 0, sb_reserved = replicate 118 0\<rparr>"

definition zero_inode :: inode_t where
  "zero_inode = \<lparr>i_type = 0, links = 0, i_reserved = [0, 0], i_size = 0, size_allocated = 0, pointers = replicate 13 0\<rparr>"

definition zero_dir :: dir_t where
  "zero_dir = \<lparr>fpointer = 0, dir_name = replicate 27 0, dir_reserved = 0,
     dir_map = replicate 15 \<lparr>d_valid = 0, d_name = replicate 27 0, d_ino = 0\<rparr>\<rparr>"

definition zero_junk :: stack_junk where
  "zero_junk = \<lparr>j_super = zero_super, j_inodes = replicate 8 zero_inode, j_dir = zero_dir\<rparr>"

definition blank_fs :: "slist_t \<Rightarrow> fs_state" where
  "blank_fs l = \<lparr>disk = (\<lambda>_. 0), fd_array = replicate 64 \<lparr>f_ino = 0, access = 0, f_size = 0, f_offset = 0\<rparr>, fd_array_slist = l,
     super_block = zero_super, current_dir = zero_dir, current_dir_pointer = 0, imap = replicate 128 0,
     smap = replicate 128 0, smap_index = 0, console = []\<rparr>"

lemma wf_zero_junk: "wf_junk zero_junk"
  by (simp add: zero_junk_def wf_junk_def wf_super_def zero_super_def wf_inode_def zero_inode_def wf_dir_def zero_dir_def wf_dmap_def
      list_all_iff)

text \<open>The first file system of a card, with its descriptors all free.\<close>

definition fresh :: "fs_state \<Rightarrow> bool" where
  "fresh s \<longleftrightarrow> fs_ok s \<and> ino_used s = (\<lambda>n. n = 0) \<and> dat_used s = (\<lambda>n. n = 0) \<and> smap_index s = 0 \<and>
     current_dir_pointer s = DARRAY_ADDR \<and> (\<forall>nm. lookup s nm = None) \<and> room s \<and>
     fd_rep s [1..<65] \<and> length (fd_array s) = FD_ARRAY_SIZE \<and> sb_reserved (super_block s) ! 78 = MAGIC_NUMBER"

lemma ex_fresh: "\<exists>s. fresh s"
proof -
  obtain l where l: "pool_rep 65 l [1..<65]"
    using pool_rep_init[of 65 "replicate 65 undefined"] by auto
  obtain s' where "mkfs zero_junk (blank_fs l) = Some s'" "fresh (mount s')"
    using mkfs_mount_ok[OF wf_zero_junk, of "blank_fs l"] l by (auto simp: fresh_def fd_rep_def blank_fs_def)
  then show ?thesis by blast
qed

lemma fresh_free: "fresh s \<Longrightarrow> 10 < card (free_blocks s)"
proof -
  assume "fresh s"
  then have "free_blocks s = {1..<1048576}" by (auto simp: free_blocks_def fresh_def)
  then show ?thesis by simp
qed

text \<open>The name of the file of the witnesses, and that the file system of the witnesses has room for it.\<close>

lemma name_a: "name_ok [97, 0]" "plain_name [97, 0]" "cstr [97, 0] = [97]" "terminated [97, 0]"
  by (simp_all add: name_ok_def plain_name_def terminated_def cstr_def)

lemma fresh_room:
  assumes "fresh s"
  shows "fs_ok s" "lookup s nm = None" "room s" "\<exists>n<8. \<not> ino_used s n" "\<exists>n<4096. \<not> ino_used s n"
    "\<exists>b<1048576. unat (smap_index s) * 4096 \<le> b \<and> \<not> dat_used s b" "fd_rep s (1 # [2..<65])" "length (fd_array s) = FD_ARRAY_SIZE"
proof -
  show "\<exists>n<8. \<not> ino_used s n" using assms by (intro exI[of _ 1]) (simp add: fresh_def)
  show "\<exists>n<4096. \<not> ino_used s n" using assms by (intro exI[of _ 1]) (simp add: fresh_def)
  show "\<exists>b<1048576. unat (smap_index s) * 4096 \<le> b \<and> \<not> dat_used s b" using assms by (intro exI[of _ 1]) (simp add: fresh_def)
  have "[1..<65] = 1 # [2..<65]" by (simp add: upt_conv_Cons)
  then show "fd_rep s (1 # [2..<65])" using assms by (simp add: fresh_def)
qed (use assms in \<open>simp_all add: fresh_def\<close>)

section \<open>Properties\<close>

text \<open>C25. Formatting and mounting the card, whatever the code finds on its stack, makes a well-formed file system:
  the bitmaps on the card agree with those in memory and with the counters of the super block, only inode 0 and data block 0
  are taken, and the current directory is the empty root directory.\<close>

theorem mkfs_mount:
  assumes "wf_junk jk"
  shows "\<exists>s'. mkfs jk s = Some s' \<and> fs_ok (mount s') \<and> ino_used (mount s') = (\<lambda>n. n = 0) \<and> dat_used (mount s') = (\<lambda>n. n = 0) \<and>
    (\<forall>nm. lookup (mount s') nm = None) \<and> room (mount s') \<and>
    i_type (inode_at (mount s') 0) = FILE_DIR \<and> pointers (inode_at (mount s') 0) ! 0 = current_dir_pointer (mount s')"
  using mkfs_mount_ok[OF assms] by fastforce

theorem mkfs_mount_witness:
  "\<exists>s'. mkfs zero_junk (blank_fs []) = Some s' \<and> fs_ok (mount s') \<and> (\<forall>nm. lookup (mount s') nm = None)"
  using mkfs_mount[OF wf_zero_junk, of "blank_fs []"] by blast

text \<open>C26. \<^verbatim>\<open>touch\<close> of a new name takes the lowest free inode, makes it an empty normal file and enters it in the
  current directory, and nothing else about the directory, the inodes or the allocators changes; a name that is too long or
  taken, or a full directory, gives the message of the code and changes nothing.\<close>

theorem touch_file:
  assumes "fs_ok s" "terminated nm"
  shows "(MAX_NAME_LENTH < length (cstr nm) \<longrightarrow> touch nm s = Some (printks ''Error: too long name.\<newline>'' s)) \<and>
    (name_ok nm \<and> lookup s (cstr nm) \<noteq> None \<longrightarrow> touch nm s = Some (printks ''Error: file exists.\<newline>'' s)) \<and>
    (name_ok nm \<and> lookup s (cstr nm) = None \<and> \<not> room s \<longrightarrow> touch nm s = Some (printks ''Too many directory entrys.\<newline>'' s)) \<and>
    (name_ok nm \<and> lookup s (cstr nm) = None \<and> room s \<and> (\<exists>n<4096. \<not> ino_used s n) \<longrightarrow>
      (\<exists>n s'. touch nm s = Some s' \<and> \<not> ino_used s n \<and> (\<forall>k<n. ino_used s k) \<and> fs_ok s' \<and>
        (\<forall>k. ino_used s' k \<longleftrightarrow> k = n \<or> ino_used s k) \<and> dat_used s' = dat_used s \<and>
        lookup s' = (lookup s)(cstr nm \<mapsto> word_of_nat n) \<and> i_type (inode_at s' n) = FILE_NORMAL \<and> i_size (inode_at s' n) = 0 \<and>
        (\<forall>k<4096. k \<noteq> n \<longrightarrow> inode_at s' k = inode_at s k)))"
proof -
  note E = new_entry_errors[OF assms]
  have err: "touch nm s = Some t" if "new_entry nm s = Some (Inl t)" for t using that by (simp add: touch_def)
  have "touch nm s = Some (printks ''Error: too long name.\<newline>'' s)" if "MAX_NAME_LENTH < length (cstr nm)"
    by (rule err) (rule E(1)[OF that])
  moreover have "touch nm s = Some (printks ''Error: file exists.\<newline>'' s)" if "name_ok nm" "lookup s (cstr nm) \<noteq> None"
    by (rule err, rule E(2)) (use that in \<open>simp_all add: name_ok_def\<close>)
  moreover have "touch nm s = Some (printks ''Too many directory entrys.\<newline>'' s)"
    if "name_ok nm" "lookup s (cstr nm) = None" "\<not> room s" by (rule err) (rule E(3)[OF that])
  ultimately show ?thesis
    using touch_ok[OF assms(1)] by (intro conjI impI; (elim conjE)?) (simp_all only: simp_thms, blast)
qed

theorem touch_file_witness:
  "\<exists>s n s'. fresh s \<and> touch [97, 0] s = Some s' \<and> fs_ok s' \<and> lookup s' [97] = Some (word_of_nat n) \<and> i_size (inode_at s' n) = 0"
proof -
  obtain s where s: "fresh s" using ex_fresh by blast
  obtain n s' where "touch [97, 0] s = Some s'" "fs_ok s'" "lookup s' = (lookup s)(cstr [97, 0] \<mapsto> word_of_nat n)"
    "i_size (inode_at s' n) = 0"
    using touch_file[OF fresh_room(1)[OF s] name_a(4)] name_a(1) fresh_room(2,3,5)[OF s] by blast
  then show ?thesis using s name_a(3) by (intro exI[of _ s] exI[of _ n] exI[of _ s']) simp
qed

text \<open>C27. A directory made by \<^verbatim>\<open>mkdir\<close> can be entered with \<^verbatim>\<open>cd\<close>, is empty and has room, and
  \<^verbatim>\<open>cd ..\<close> leads back to the directory it was made in.\<close>

theorem mkdir_cd_round_trip:
  assumes "fs_ok s" and "name_ok nm" "plain_name nm" "lookup s (cstr nm) = None" and "room s"
    and "\<exists>n<4096. \<not> ino_used s n" and "\<exists>b<1048576. unat (smap_index s) * 4096 \<le> b \<and> \<not> dat_used s b" and "wf_dir (j_dir jk)"
  shows "\<exists>s1 s2 s3. mkdir jk nm s = Some s1 \<and> cd nm s1 = Some s2 \<and> fs_ok s2 \<and> (\<forall>x. lookup s2 x = None) \<and> room s2 \<and>
    cd [46, 46, 0] s2 = Some s3 \<and> fs_ok s3 \<and> current_dir s3 = current_dir s1 \<and> current_dir_pointer s3 = current_dir_pointer s"
  by (rule mkdir_cd_up[OF assms])

theorem mkdir_cd_round_trip_witness:
  "\<exists>s s1 s2 s3. fresh s \<and> mkdir zero_junk [97, 0] s = Some s1 \<and> cd [97, 0] s1 = Some s2 \<and> (\<forall>x. lookup s2 x = None) \<and>
     cd [46, 46, 0] s2 = Some s3 \<and> current_dir s3 = current_dir s1"
proof -
  obtain s where s: "fresh s" using ex_fresh by blast
  have j: "wf_dir (j_dir zero_junk)" using wf_zero_junk by (simp add: wf_junk_def)
  show ?thesis using mkdir_cd_round_trip[OF fresh_room(1)[OF s] name_a(1,2) fresh_room(2,3,5,6)[OF s] j] s by blast
qed

text \<open>C28. \<^verbatim>\<open>rmdir\<close> undoes \<^verbatim>\<open>mkdir\<close>: the entries of the current directory, the inodes and the data blocks in use
  are again what they were.\<close>

theorem mkdir_rmdir:
  assumes ok: "fs_ok s" and nm: "name_ok nm" "lookup s (cstr nm) = None" and "room s"
    and "\<exists>n<4096. \<not> ino_used s n" and "\<exists>b<1048576. unat (smap_index s) * 4096 \<le> b \<and> \<not> dat_used s b" and "wf_dir (j_dir jk)"
  shows "\<exists>s1 s2. mkdir jk nm s = Some s1 \<and> lookup s1 (cstr nm) \<noteq> None \<and> rmdir nm s1 = Some s2 \<and> fs_ok s2 \<and>
    lookup s2 = lookup s \<and> ino_used s2 = ino_used s \<and> dat_used s2 = dat_used s \<and> current_dir_pointer s2 = current_dir_pointer s"
proof -
  obtain n b s1 d where m: "mkdir jk nm s = Some s1" "n < 4096" "\<not> ino_used s n" "b < 1048576" "\<not> dat_used s b" "fs_ok s1"
    "\<forall>k. ino_used s1 k \<longleftrightarrow> k = n \<or> ino_used s k"
    "\<forall>k. dat_used s1 k \<longleftrightarrow> k = b \<or> dat_used s k" "lookup s1 = (lookup s)(cstr nm \<mapsto> word_of_nat n)"
    "current_dir_pointer s1 = current_dir_pointer s" "i_type (inode_at s1 n) = FILE_DIR"
    "pointers (inode_at s1 n) ! 0 = data_sector b" "get_sector s1 (data_sector b) = enc_dir d" "wf_dir d"
    "list_all (\<lambda>m. d_valid m = 0) (dir_map d)"
    using mkdir_ok[OF assms] by metis
  have un: "unat (word_of_nat n :: u32) = n" using m(2) by (intro unat_word_of_nat_small) simp
  obtain c where c: "dat_used s c" "current_dir_pointer s = data_sector c" using fs_okD(10)[OF ok] by blast
  have "c < 1048576" using c(1) by (simp add: dat_used_def)
  then have "data_sector b \<noteq> current_dir_pointer s1" using data_sector_inj[OF m(4)] c m(5,10) by auto
  moreover have "b \<noteq> 0" using fs_okD(9)[OF ok] m(5) by metis
  ultimately have sd: "subdir s1 (word_of_nat n) b" using m un by (simp add: subdir_def)
  have t: "terminated nm" using nm(1) by (simp add: name_ok_def)
  have l: "lookup s1 (cstr nm) = Some (word_of_nat n)" by (simp add: m(9))
  obtain s2 where r: "rmdir nm s1 = Some s2" "fs_ok s2" "lookup s2 = (lookup s1)(cstr nm := None)"
    "\<forall>k. ino_used s2 k \<longleftrightarrow> ino_used s1 k \<and> k \<noteq> n" "\<forall>k. dat_used s2 k \<longleftrightarrow> dat_used s1 k \<and> k \<noteq> b"
    "current_dir_pointer s2 = current_dir_pointer s1"
    using rmdir_ok[OF m(6) t l sd] m(13,15) un by (auto simp: dec_enc_dir[OF m(14)])
  have "lookup s2 = lookup s" using r(3) m(9) nm(2) by (auto simp: fun_eq_iff)
  moreover have "ino_used s2 = ino_used s" "dat_used s2 = dat_used s" using r(4,5) m(3,5,7,8) by (auto simp: fun_eq_iff)
  ultimately show ?thesis using m(1,10) l r(1,2,6) by auto
qed

theorem mkdir_rmdir_witness:
  "\<exists>s s1 s2. fresh s \<and> mkdir zero_junk [97, 0] s = Some s1 \<and> rmdir [97, 0] s1 = Some s2 \<and> lookup s2 = lookup s \<and> dat_used s2 = dat_used s"
proof -
  obtain s where s: "fresh s" using ex_fresh by blast
  have j: "wf_dir (j_dir zero_junk)" using wf_zero_junk by (simp add: wf_junk_def)
  show ?thesis using mkdir_rmdir[OF fresh_room(1)[OF s] name_a(1) fresh_room(2,3,5,6)[OF s] j] s by blast
qed

text \<open>A file just made, opened for reading and writing.\<close>

lemma touch_fopen:
  assumes ok: "fs_ok s" and nm: "name_ok nm" "lookup s (cstr nm) = None" and rm: "room s" and i: "\<exists>n<8. \<not> ino_used s n"
    and fd: "fd_rep s (d # ds)" "length (fd_array s) = FD_ARRAY_SIZE"
  shows "\<exists>s1 s2 f. touch nm s = Some s1 \<and> fopen nm O_RDWR s1 = Some (word_of_nat (d - 1), s2) \<and> fs_ok s2 \<and>
    open_file s2 (d - 1) f 0 \<and> f_ino f \<noteq> 0 \<and> access f = O_RDWR \<and> f_size f = 0 \<and> f_offset f = 0 \<and> free_blocks s2 = free_blocks s \<and>
    lookup s2 (cstr nm) = Some (f_ino f) \<and> unat (f_ino f) < 8 \<and> i_type (inode_at s2 (unat (f_ino f))) = FILE_NORMAL \<and>
    i_size (inode_at s2 (unat (f_ino f))) = 0 \<and> current_dir_pointer s2 = current_dir_pointer s \<and>
    sb_reserved (super_block s2) = sb_reserved (super_block s)"
proof -
  obtain i0 where i0: "i0 < 8" "\<not> ino_used s i0" using i by blast
  then have i': "\<exists>n<4096. \<not> ino_used s n" by (intro exI[of _ i0]) simp
  obtain n s1 where T: "touch nm s = Some s1" "0 < n" "n < 4096" "\<forall>k<n. ino_used s k" "fs_ok s1"
    "lookup s1 = (lookup s)(cstr nm \<mapsto> word_of_nat n)" "i_type (inode_at s1 n) = FILE_NORMAL" "i_size (inode_at s1 n) = 0"
    "size_allocated (inode_at s1 n) = 0" "fd_array s1 = fd_array s" "fd_array_slist s1 = fd_array_slist s"
    "dat_used s1 = dat_used s" "smap_index s1 = smap_index s"
    "current_dir_pointer s1 = current_dir_pointer s" "sb_reserved (super_block s1) = sb_reserved (super_block s)"
    using touch_ok[OF ok nm rm i'] by blast
  have "\<not> i0 < n" using T(4) i0(2) by blast
  then have n8: "n < 8" using i0(1) by simp
  have un: "unat (word_of_nat n :: u32) = n" using T(3) by (intro unat_word_of_nat_small) simp
  have t: "terminated nm" using nm(1) by (simp add: name_ok_def)
  have fd1: "fd_rep s1 (d # ds)" "length (fd_array s1) = FD_ARRAY_SIZE" using fd T(10,11) by (simp_all add: fd_rep_def)
  have lk: "lookup s1 (cstr nm) = Some (word_of_nat n)" "i_type (inode_at s1 (unat (word_of_nat n :: u32))) = FILE_NORMAL"
    using T(6,7) un by simp_all
  have n0: "(word_of_nat n :: u32) \<noteq> 0" using un T(2) by (metis less_irrefl unat_0)
  let ?f = "\<lparr>f_ino = word_of_nat n, access = O_RDWR, f_size = 0, f_offset = 0\<rparr>"
  have d: "0 < d" "d < 65" using fd.rep_range[OF fd(1), of d] by simp_all
  obtain s2 where o2: "fopen nm O_RDWR s1 = Some (word_of_nat (d - 1), s2)"
    "s2 = s1\<lparr>fd_array := fd_array s2, fd_array_slist := fd_array_slist s2\<rparr>" "fd_array s2 = (fd_array s1)[d - 1 := ?f]"
    using fopen_ok(4)[OF T(5) t fd1 lk refl, of O_RDWR] n8 un T(8) by auto
  define u where "u = s1\<lparr>fd_array_slist := fd_array_slist s2\<rparr>"
  have s2: "s2 = u\<lparr>fd_array := (fd_array s1)[d - 1 := ?f]\<rparr>" unfolding u_def o2(3)[symmetric] by (subst o2(2)) simp
  note U = set_slist[where s = s1 and x = "fd_array_slist s2", folded u_def]
  have "file_ok u (inode_at s1 n) 0" using wf_inode_at[of s1 n] T(9) by (simp add: file_ok_def)
  then have "open_file s2 (d - 1) ?f 0" unfolding s2 using d fd1(2) T(3) un U by (simp add: open_file_def open_file_set_fd)
  moreover have "fs_ok s2" "dat_used s2 = dat_used s" "smap_index s2 = smap_index s"
    unfolding s2 using U T(5,12,13) by (simp_all add: open_file_set_fd)
  moreover have "lookup s2 (cstr nm) = Some (word_of_nat n)" "inode_at s2 n = inode_at s1 n" "current_dir_pointer s2 = current_dir_pointer s"
    "sb_reserved (super_block s2) = sb_reserved (super_block s)"
    unfolding s2 using T(6,14,15) U by (simp_all add: open_file_set_fd) (simp_all add: u_def)
  ultimately show ?thesis using T(1,7,8) o2(1) un n8
    by (intro exI[of _ s1] exI[of _ s2] exI[of _ ?f]) (simp add: free_blocks_def n0)
qed

text \<open>C22. A file made with \<^verbatim>\<open>touch\<close> and opened with \<^verbatim>\<open>fopen\<close> gives back what is written to it: up to ten blocks of data
  written with \<^verbatim>\<open>fwrite\<close> and, after \<^verbatim>\<open>fseek\<close> to the start, read with \<^verbatim>\<open>fread\<close> are the same bytes, each call reports the whole
  length, and the file system stays well formed. (The inode number has to be below 8, since \<^verbatim>\<open>fopen\<close> keeps it modulo 8.)\<close>

theorem file_round_trip:
  assumes ok: "fs_ok s" and nm: "name_ok nm" "lookup s (cstr nm) = None" and rm: "room s" and i: "\<exists>n<8. \<not> ino_used s n"
    and fd: "fd_rep s (d # ds)" "length (fd_array s) = FD_ARRAY_SIZE" and free: "10 < card (free_blocks s)"
    and n: "unat n \<le> 5120" "unat n \<le> length buf"
  shows "\<exists>s1 s2 s3 s4 s5. touch nm s = Some s1 \<and> fopen nm O_RDWR s1 = Some (word_of_nat (d - 1), s2) \<and>
    fwrite (int (d - 1)) buf n s2 = Some (n, s3) \<and> fseek (int (d - 1)) 0 s3 = Some s4 \<and>
    fread (int (d - 1)) n s4 = Some (n, take (unat n) buf, s5) \<and> fs_ok s5"
proof -
  obtain s1 s2 f where o2: "touch nm s = Some s1" "fopen nm O_RDWR s1 = Some (word_of_nat (d - 1), s2)" "fs_ok s2"
    "open_file s2 (d - 1) f 0" "access f = O_RDWR" "f_size f = 0" "f_offset f = 0" "free_blocks s2 = free_blocks s"
    using touch_fopen[OF ok nm rm i fd] by blast
  show ?thesis using fwrite_fseek_fread[OF o2(3-5), of n buf] o2 n free by auto
qed

theorem file_round_trip_witness:
  "\<exists>s s1 s2 s3 s4 s5. fresh s \<and> touch [97, 0] s = Some s1 \<and> fopen [97, 0] O_RDWR s1 = Some (0, s2) \<and>
     fwrite 0 [1, 2, 3] 3 s2 = Some (3, s3) \<and> fseek 0 0 s3 = Some s4 \<and> fread 0 3 s4 = Some (3, [1, 2, 3], s5) \<and> fs_ok s5"
proof -
  obtain s where s: "fresh s" using ex_fresh by blast
  show ?thesis
    using file_round_trip[OF fresh_room(1)[OF s] name_a(1) fresh_room(2,3,4,7,8)[OF s] fresh_free[OF s], of 3 "[1, 2, 3]"] s by auto
qed

text \<open>C24. \<^verbatim>\<open>fwrite\<close> within ten blocks always ends, keeps the file system well formed, reports all or nothing of the data, and
  touches no other file: every other inode and the bytes of every file that shares no block with the one written are kept.\<close>

theorem fwrite_isolated:
  assumes "fs_ok s" and "open_file s fd f m" and "access f = O_RDWR \<or> access f = O_WR"
    and "unat (f_offset f) + unat n \<le> 5120" "unat n \<le> length buf"
  shows "\<exists>r s'. fwrite (int fd) buf n s = Some (r, s') \<and> (r = n \<or> r = 0) \<and> fs_ok s' \<and> ino_used s' = ino_used s \<and>
    (\<forall>k<4096. k \<noteq> unat (f_ino f) \<longrightarrow> inode_at s' k = inode_at s k) \<and>
    (\<forall>i k. file_ok s i k \<longrightarrow> set (take k (pointers i)) \<inter> set (take m (pointers (inode_at s (unat (f_ino f))))) = {} \<longrightarrow>
       content s' i k = content s i k)"
  using fwrite_ok[OF assms] by blast

theorem fwrite_isolated_witness:
  "\<exists>s2 r s3. fs_ok s2 \<and> fwrite 0 [1, 2, 3] 3 s2 = Some (r, s3) \<and> fs_ok s3 \<and> inode_at s3 0 = inode_at s2 0"
proof -
  obtain s where s: "fresh s" using ex_fresh by blast
  obtain s2 f where o2: "fs_ok s2" "open_file s2 (1 - 1) f 0" "access f = O_RDWR" "f_offset f = 0" "f_ino f \<noteq> 0"
    using touch_fopen[OF fresh_room(1)[OF s] name_a(1) fresh_room(2,3,4,7,8)[OF s]] by blast
  then obtain r s3 where "fwrite 0 [1, 2, 3] 3 s2 = Some (r, s3)" "fs_ok s3" "\<forall>k<4096. k \<noteq> unat (f_ino f) \<longrightarrow> inode_at s3 k = inode_at s2 k"
    using fwrite_isolated[OF o2(1,2) disjI1[OF o2(3)], of 3 "[1, 2, 3]"] by auto
  then show ?thesis using o2(1,5) by (intro exI[of _ s2] exI[of _ r] exI[of _ s3]) (simp add: unat_eq_0)
qed

section \<open>Persistence\<close>

text \<open>What depends on the card only.\<close>

lemma disk_determined:
  assumes "disk t = disk s"
  shows "get_sector t = get_sector s" "inode_at t = inode_at s" "content t = content s" "smap_at t = smap_at s" "dat_used t = dat_used s"
proof -
  show g: "get_sector t = get_sector s" unfolding get_sector_def assms ..
  show "inode_at t = inode_at s" "content t = content s" by (simp_all add: fun_eq_iff inode_at_def get_inodes_def content_def g)
  show sm: "smap_at t = smap_at s" by (simp add: fun_eq_iff smap_at_def g)
  show "dat_used t = dat_used s" by (simp add: fun_eq_iff dat_used_def sm)
qed

text \<open>\<^verbatim>\<open>mount\<close> brings back the memory copies from the card, whatever the memory held.\<close>

lemma mount_again:
  assumes ok: "fs_ok s" and root: "current_dir_pointer s = DARRAY_ADDR" and d: "disk t = disk s"
  shows "fs_ok (mount t)" "super_block (mount t) = super_block s" "current_dir (mount t) = current_dir s"
    "current_dir_pointer (mount t) = DARRAY_ADDR" "imap (mount t) = imap s" "smap_index (mount t) = 0" "disk (mount t) = disk s"
proof -
  note I = fs_okD[OF ok]
  have W: "wf_super (super_block s)" "get_sector s FS_BASE = enc_super (super_block s)" "length (imap s) = 128"
    "get_sector s IMAP_ADDR = enc_u32s (imap s)" using I(1) by (simp_all add: imap_ok_def super_ok_def)
  show dm: "disk (mount t) = disk s" using d by (simp add: mount_def Let_def)
  note D = disk_determined[OF dm]
  show sb: "super_block (mount t) = super_block s"
    using W(1,2) disk_determined(1)[OF d] by (simp add: mount_def Let_def dec_enc_super)
  show cd: "current_dir (mount t) = current_dir s"
    using I(4,7) root disk_determined(1)[OF d] by (simp add: mount_def Let_def dec_enc_dir)
  show im: "imap (mount t) = imap s"
    using W(3,4) disk_determined(1)[OF d] by (simp add: mount_def Let_def dec_enc_u32s_n)
  show cp: "current_dir_pointer (mount t) = DARRAY_ADDR" and si: "smap_index (mount t) = 0" by (simp_all add: mount_def Let_def)
  have iu: "ino_used (mount t) = ino_used s" by (simp add: fun_eq_iff ino_used_def im)
  have sm: "smap (mount t) = dec_u32s 128 (get_sector s SMAP_ADDR)" using disk_determined(1)[OF d] by (simp add: mount_def Let_def)
  have "length (get_sector s SMAP_ADDR) = 4 * 128" by (simp add: get_sector_def)
  then have "enc_u32s (smap (mount t)) = get_sector s SMAP_ADDR" "length (smap (mount t)) = 128"
    unfolding sm by (simp_all only: enc_dec_u32s length_dec_u32s)
  moreover have sup: "super_ok (mount t)" using I(1) by (simp add: imap_ok_def super_ok_def sb D(1))
  ultimately have "smap_ok (mount t)" using I(2) by (simp add: smap_ok_def si smap_sector_def D(1,5) sb)
  moreover have "imap_ok (mount t)" using I(1) sup by (simp add: imap_ok_def im sb iu D(1))
  ultimately show "fs_ok (mount t)" using ok root by (simp add: fs_ok_def cd cp D(1,5) iu)
qed


lemma restart_ok:
  assumes ok: "fs_ok s" and root: "current_dir_pointer s = DARRAY_ADDR" and magic: "sb_reserved (super_block s) ! 78 = MAGIC_NUMBER"
    and t: "disk t = disk s" "length (fd_array_slist t) = FD_ARRAY_SLIST_SIZE"
  shows "\<exists>t'. init_file_system jk t = Some t' \<and> fs_ok t' \<and> current_dir t' = current_dir s \<and> current_dir_pointer t' = DARRAY_ADDR \<and>
    ino_used t' = ino_used s \<and> disk t' = disk s \<and> super_block t' = super_block s \<and> fd_rep t' [1..<FD_ARRAY_SLIST_SIZE] \<and> fd_array t' = fd_array t"
proof -
  obtain l where l: "slist_init (fd_array_slist t) FD_ARRAY_SLIST_SIZE = Some l" "pool_rep FD_ARRAY_SLIST_SIZE l [1..<FD_ARRAY_SLIST_SIZE]"
    using pool_rep_init[OF _ t(2)] by auto
  let ?t = "t\<lparr>fd_array_slist := l\<rparr>"
  have dt: "disk ?t = disk s" using t(1) by simp
  note M = mount_again[OF ok root dt]
  have "dec_super (get_sector ?t FS_BASE) = super_block s"
    using fs_okD(1)[OF ok] disk_determined(1)[OF dt] by (simp add: imap_ok_def super_ok_def dec_enc_super)
  then have "init_file_system jk t = Some (mount ?t)" using l(1) magic by (simp add: init_file_system_def Let_def)
  moreover have "ino_used (mount ?t) = ino_used s" by (simp add: fun_eq_iff ino_used_def M(5))
  moreover have "fd_rep (mount ?t) [1..<FD_ARRAY_SLIST_SIZE]" "fd_array (mount ?t) = fd_array t"
    using l(2) by (simp_all add: fd_rep_def mount_def Let_def)
  ultimately show ?thesis using M by simp
qed

text \<open>Opening a file of at most ten blocks and reading it from the start.\<close>

lemma fopen_fread:
  assumes ok: "fs_ok s" and nm: "terminated nm" "lookup s (cstr nm) = Some ino" "unat ino < 8"
    and fd: "fd_rep s (d # ds)" "length (fd_array s) = FD_ARRAY_SIZE"
    and f: "i_type (inode_at s (unat ino)) = FILE_NORMAL" "i_size (inode_at s (unat ino)) = n" "file_ok s (inode_at s (unat ino)) m" "unat n \<le> 512 * m"
  shows "\<exists>s1 s2. fopen nm O_RDWR s = Some (word_of_nat (d - 1), s1) \<and>
    fread (int (d - 1)) n s1 = Some (n, take (unat n) (file_bytes s (unat ino) m), s2)"
proof -
  let ?f = "\<lparr>f_ino = ino, access = O_RDWR, f_size = n, f_offset = 0\<rparr>"
  have d: "0 < d" "d < 65" using fd.rep_range[OF fd(1), of d] by simp_all
  have "word_of_nat (unat ino mod 8) = ino" using nm(3) by simp
  then obtain s1 where s1: "fopen nm O_RDWR s = Some (word_of_nat (d - 1), s1)"
    "s1 = s\<lparr>fd_array := fd_array s1, fd_array_slist := fd_array_slist s1\<rparr>" "fd_array s1 = (fd_array s)[d - 1 := ?f]"
    using fopen_ok(4)[OF ok nm(1) fd nm(2) f(1) refl, of O_RDWR] f(2) by auto
  define u where "u = s\<lparr>fd_array_slist := fd_array_slist s1\<rparr>"
  have e: "s1 = u\<lparr>fd_array := (fd_array s)[d - 1 := ?f]\<rparr>" unfolding u_def s1(3)[symmetric] by (subst s1(2)) simp
  note U = set_slist[where s = s and x = "fd_array_slist s1", folded u_def]
  have "disk u = disk s" by (simp add: u_def)
  note D = disk_determined[OF this]
  have "current_dir_pointer u = current_dir_pointer s" by (simp add: u_def)
  then have "file_ok u (inode_at s (unat ino)) m" using f(3) file_ok_cong[OF U(1)] by simp
  then have op: "open_file s1 (d - 1) ?f m" unfolding e using d fd(2) nm(3) U by (simp add: open_file_def open_file_set_fd)
  have "file_bytes s1 (unat ino) m = file_bytes s (unat ino) m"
    unfolding e by (simp add: file_bytes_def open_file_set_fd D)
  then show ?thesis using s1(1) fread_ok[OF op, of n n] f(4) by simp
qed

text \<open>C23. What is on the card survives switching the machine off. A file of up to ten blocks is made with \<^verbatim>\<open>touch\<close>, opened and written in the
  root directory, and the power goes: the memory then holds anything (\<open>t\<close>), the card what it held. At the next start
  \<^verbatim>\<open>init_file_system\<close> finds the magic number and mounts the card; the file system is well formed, has the same names, inodes, bitmaps
  and blocks as before, and the file, opened by its name and read, gives the bytes that were written.\<close>

theorem file_survives_restart:
  assumes ok: "fs_ok s" and root: "current_dir_pointer s = DARRAY_ADDR" and magic: "sb_reserved (super_block s) ! 78 = MAGIC_NUMBER"
    and nm: "name_ok nm" "lookup s (cstr nm) = None" and rm: "room s" and i: "\<exists>n<8. \<not> ino_used s n"
    and fd: "fd_rep s (d # ds)" "length (fd_array s) = FD_ARRAY_SIZE" and free: "10 < card (free_blocks s)"
    and n: "unat n \<le> 5120" "unat n \<le> length buf"
  shows "\<exists>s1 s2 s3. touch nm s = Some s1 \<and> fopen nm O_RDWR s1 = Some (word_of_nat (d - 1), s2) \<and>
    fwrite (int (d - 1)) buf n s2 = Some (n, s3) \<and>
    (\<forall>t jk. disk t = disk s3 \<and> length (fd_array_slist t) = FD_ARRAY_SLIST_SIZE \<and> length (fd_array t) = FD_ARRAY_SIZE \<longrightarrow>
       (\<exists>t1 t2 t3. init_file_system jk t = Some t1 \<and> fs_ok t1 \<and> lookup t1 = lookup s3 \<and> ino_used t1 = ino_used s3 \<and>
          dat_used t1 = dat_used s3 \<and> inode_at t1 = inode_at s3 \<and> content t1 = content s3 \<and>
          fopen nm O_RDWR t1 = Some (0, t2) \<and> fread 0 n t2 = Some (n, take (unat n) buf, t3)))"
proof -
  obtain s1 s2 f where o2: "touch nm s = Some s1" "fopen nm O_RDWR s1 = Some (word_of_nat (d - 1), s2)" "fs_ok s2"
    "open_file s2 (d - 1) f 0" "access f = O_RDWR" "f_size f = 0" "f_offset f = 0" "free_blocks s2 = free_blocks s"
    "lookup s2 (cstr nm) = Some (f_ino f)" "unat (f_ino f) < 8" "i_type (inode_at s2 (unat (f_ino f))) = FILE_NORMAL"
    "i_size (inode_at s2 (unat (f_ino f))) = 0" "current_dir_pointer s2 = DARRAY_ADDR" "sb_reserved (super_block s2) ! 78 = MAGIC_NUMBER"
    using touch_fopen[OF ok nm rm i fd] root magic by metis
  let ?ino = "unat (f_ino f)"
  obtain s3 f' m extra where W: "fwrite (int (d - 1)) buf n s2 = Some (n, s3)" "fs_ok s3" "open_file s3 (d - 1) f' m"
    "f' = f\<lparr>f_offset := f_offset f + n, f_size := f_size f + n\<rparr>" "current_dir s3 = current_dir s2" "current_dir_pointer s3 = current_dir_pointer s2"
    "sb_reserved (super_block s3) = sb_reserved (super_block s2)" "i_size (inode_at s3 ?ino) = i_size (inode_at s2 ?ino) + n"
    "i_type (inode_at s3 ?ino) = i_type (inode_at s2 ?ino)" "unat (f_offset f) + unat n \<le> 512 * m"
    "length (file_bytes s2 ?ino 0 @ extra) = 512 * m"
    "file_bytes s3 ?ino m = splice (file_bytes s2 ?ino 0 @ extra) (unat (f_offset f)) (take (unat n) buf)"
    using fwrite_ok[OF o2(3,4) disjI1[OF o2(5)], of n buf] n o2(7,8) free by (metis add_0 leD unat_0)
  have fok: "file_ok s3 (inode_at s3 ?ino) m" using W(3,4) by (simp add: open_file_def)
  have nm': "terminated nm" using nm(1) by (simp add: name_ok_def)
  have bytes: "take (unat n) (file_bytes s3 ?ino m) = take (unat n) buf"
    unfolding W(12) using take_drop_splice[of 0 "take (unat n) buf" "file_bytes s2 ?ino 0 @ extra"] W(10,11) n(2) o2(7)
    by (simp add: min_absorb2)
  have "\<exists>t1 t2 t3. init_file_system jk t = Some t1 \<and> fs_ok t1 \<and> lookup t1 = lookup s3 \<and> ino_used t1 = ino_used s3 \<and>
      dat_used t1 = dat_used s3 \<and> inode_at t1 = inode_at s3 \<and> content t1 = content s3 \<and>
      fopen nm O_RDWR t1 = Some (0, t2) \<and> fread 0 n t2 = Some (n, take (unat n) buf, t3)"
    if t: "disk t = disk s3" "length (fd_array_slist t) = FD_ARRAY_SLIST_SIZE" "length (fd_array t) = FD_ARRAY_SIZE" for t jk
  proof -
    have ft: "[1..<FD_ARRAY_SLIST_SIZE] = 1 # [2..<FD_ARRAY_SLIST_SIZE]" by (simp add: upt_conv_Cons)
    have rt: "current_dir_pointer s3 = DARRAY_ADDR" "sb_reserved (super_block s3) ! 78 = MAGIC_NUMBER" using W(6,7) o2(13,14) by simp_all
    obtain t1 where t1: "init_file_system jk t = Some t1" "fs_ok t1" "current_dir t1 = current_dir s3" "current_dir_pointer t1 = DARRAY_ADDR"
      "ino_used t1 = ino_used s3" "disk t1 = disk s3" "fd_rep t1 (1 # [2..<FD_ARRAY_SLIST_SIZE])" "fd_array t1 = fd_array t"
      using restart_ok[OF W(2) rt t(1,2), of jk] unfolding ft by blast
    note D = disk_determined[OF t1(6)]
    have "file_ok t1 (inode_at s3 ?ino) m" using fok file_ok_cong[OF D(5)] t1(4) rt(1) by simp
    then have "\<exists>u1 u2. fopen nm O_RDWR t1 = Some (word_of_nat (1 - 1), u1) \<and>
        fread (int (1 - 1)) n u1 = Some (n, take (unat n) (file_bytes t1 ?ino m), u2)"
      using t1(3,8) t(3) W(5,8-10) o2(7,9-12) D(2)
      by (intro fopen_fread[OF t1(2) nm' _ o2(10) t1(7)]) simp_all
    then show ?thesis using t1 D by (simp add: file_bytes_def[of t1] file_bytes_def[of s3, symmetric] bytes)
  qed
  then show ?thesis using o2(1,2) W(1) by blast
qed

theorem file_survives_restart_witness:
  "\<exists>s s1 s2 s3 t1 t2 t3. fresh s \<and> touch [97, 0] s = Some s1 \<and> fopen [97, 0] O_RDWR s1 = Some (0, s2) \<and>
     fwrite 0 [1, 2, 3] 3 s2 = Some (3, s3) \<and> init_file_system zero_junk ((blank_fs (replicate 65 undefined))\<lparr>disk := disk s3\<rparr>) = Some t1 \<and>
     fopen [97, 0] O_RDWR t1 = Some (0, t2) \<and> fread 0 3 t2 = Some (3, [1, 2, 3], t3)"
proof -
  obtain s where s: "fresh s" using ex_fresh by blast
  then have m: "current_dir_pointer s = DARRAY_ADDR" "sb_reserved (super_block s) ! 78 = MAGIC_NUMBER" by (simp_all add: fresh_def)
  have pre: "unat (3 :: u32) \<le> 5120" "unat (3 :: u32) \<le> length [1, 2, 3 :: u8]" by simp_all
  obtain s1 s2 s3 where w: "touch [97, 0] s = Some s1" "fopen [97, 0] O_RDWR s1 = Some (word_of_nat (1 - 1), s2)"
      "fwrite (int (1 - 1)) [1, 2, 3] 3 s2 = Some (3, s3)"
      "\<forall>t jk. disk t = disk s3 \<and> length (fd_array_slist t) = FD_ARRAY_SLIST_SIZE \<and> length (fd_array t) = FD_ARRAY_SIZE \<longrightarrow>
        (\<exists>t1 t2 t3. init_file_system jk t = Some t1 \<and> fopen [97, 0] O_RDWR t1 = Some (0, t2) \<and> fread 0 3 t2 = Some (3, take (unat (3 :: u32)) [1, 2, 3], t3))"
    using file_survives_restart[OF fresh_room(1)[OF s] m name_a(1) fresh_room(2,3,4,7,8)[OF s] fresh_free[OF s] pre] by blast
  let ?t = "(blank_fs (replicate 65 undefined))\<lparr>disk := disk s3\<rparr>"
  have "disk ?t = disk s3 \<and> length (fd_array_slist ?t) = FD_ARRAY_SLIST_SIZE \<and> length (fd_array ?t) = FD_ARRAY_SIZE" by (simp add: blank_fs_def)
  from w(4)[rule_format, OF this, of zero_junk] show ?thesis using s w(1-3) by auto
qed

end
