(* ===== verification/Screen.thy ===== *)
theory Screen
  imports Printk
begin

text \<open>
  The screen of \<^verbatim>\<open>drivers/screen.c\<close>: the buffer \<^verbatim>\<open>new_screen\<close> the kernel writes to, the buffer \<^verbatim>\<open>old_screen\<close> of
  what the terminal shows, the cursor, and the bytes sent to the serial port. \<^verbatim>\<open>port_write_ch\<close> and \<^verbatim>\<open>port_write\<close> call the
  firmware, which sends the bytes; they are appended to \<open>port\<close>. An index outside a buffer is \<open>None\<close>.
  The specification of \<^verbatim>\<open>screen_reflush\<close> is a model of the terminal that reads the port.
\<close>

section \<open>Operations\<close>

record screen_t =
  cur_x :: int
  cur_y :: int
  new_screen :: "u8 list"
  old_screen :: "u8 list"
  port :: "u8 list"

abbreviation SCREEN_WIDTH :: nat where "SCREEN_WIDTH \<equiv> 75"
abbreviation SCREEN_HEIGHT :: nat where "SCREEN_HEIGHT \<equiv> 28"

definition port_write_ch :: "u8 \<Rightarrow> screen_t \<Rightarrow> screen_t" where
  "port_write_ch ch s = s\<lparr>port := port s @ [ch]\<rparr>"

definition printk :: "string \<Rightarrow> va list \<Rightarrow> screen_t \<Rightarrow> screen_t option" where
  "printk fmt va s = do { t \<leftarrow> printf_text (chars fmt) va; Some (s\<lparr>port := port s @ t\<rparr>) }"

definition vt100_move_cursor :: "int \<Rightarrow> int \<Rightarrow> screen_t \<Rightarrow> screen_t option" where
  "vt100_move_cursor x y s = printk ''%c[%d;%dH'' [VInt 27, VInt (word_of_int y), VInt (word_of_int x)] s"

definition vt100_set_color :: "int \<Rightarrow> screen_t \<Rightarrow> screen_t option" where
  "vt100_set_color color s = printk ''%c[%dm'' [VInt 27, VInt (word_of_int color)] s"

definition vt100_clear :: "screen_t \<Rightarrow> screen_t option" where
  "vt100_clear s = printk ''%c[2J'' [VInt 27] s"

definition vt100_hidden_cursor :: "screen_t \<Rightarrow> screen_t option" where
  "vt100_hidden_cursor s = printk ''%c[?25l'' [VInt 27] s"

text \<open>\<^verbatim>\<open>new_screen[i * SCREEN_WIDTH + j]\<close>, read and written.\<close>

definition cell :: "int \<Rightarrow> int \<Rightarrow> int" where
  "cell i j = i * int SCREEN_WIDTH + j"

definition put_cell :: "int \<Rightarrow> u8 \<Rightarrow> screen_t \<Rightarrow> screen_t option" where
  "put_cell k c s = do { b \<leftarrow> arr_set (new_screen s) k c; Some (s\<lparr>new_screen := b\<rparr>) }"

text \<open>The loops over lines run \<open>line2 - line1 + 1\<close> times.\<close>

definition scroll_cell :: "int \<Rightarrow> int \<Rightarrow> nat \<Rightarrow> screen_t \<Rightarrow> screen_t option" where
  "scroll_cell line2 i j s =
     (if i = line2 then put_cell (cell i (int j)) 32 s
      else do { c \<leftarrow> arr_get (new_screen s) (cell (i + 1) (int j)); put_cell (cell i (int j)) c s })"

definition screen_scroll :: "int \<Rightarrow> int \<Rightarrow> screen_t \<Rightarrow> screen_t option" where
  "screen_scroll line1 line2 s =
     for_loop (nat (line2 - line1 + 1)) (\<lambda>k. for_loop SCREEN_WIDTH (scroll_cell line2 (line1 + int k))) s"

definition screen_write_ch :: "u8 \<Rightarrow> screen_t \<Rightarrow> screen_t option" where
  "screen_write_ch ch s =
     do { s1 \<leftarrow> (if ch = 10 \<or> ch = 13 then Some (s\<lparr>cur_x := 0, cur_y := cur_y s + 1\<rparr>)
                else if ch = 8 \<or> ch = 127 then
                  (if 0 < cur_x s then put_cell (cell (cur_y s) (cur_x s - 1)) 32 (s\<lparr>cur_x := cur_x s - 1\<rparr>) else Some s)
                else do { t \<leftarrow> put_cell (cell (cur_y s) (cur_x s)) ch s; Some (t\<lparr>cur_x := cur_x s + 1\<rparr>) });
          let s2 = (if cur_x s1 = int SCREEN_WIDTH then s1\<lparr>cur_y := cur_y s1 + 1, cur_x := 0\<rparr> else s1);
          if cur_y s2 = int SCREEN_HEIGHT - 1
          then do { s3 \<leftarrow> screen_scroll (int SCREEN_HEIGHT div 2 + 1) (int SCREEN_HEIGHT - 2) s2;
                    Some (s3\<lparr>cur_x := 0, cur_y := int SCREEN_HEIGHT - 2\<rparr>) }
          else Some s2 }"

definition reflush_cell :: "nat \<Rightarrow> nat \<Rightarrow> screen_t \<Rightarrow> screen_t option" where
  "reflush_cell i j s =
     do { n \<leftarrow> arr_get (new_screen s) (cell (int i) (int j));
          old \<leftarrow> arr_get (old_screen s) (cell (int i) (int j));
          if n \<noteq> old
          then do { s1 \<leftarrow> vt100_move_cursor (int j + 1) (int i + 1) s;
                    let s2 = port_write_ch n s1;
                    b \<leftarrow> arr_set (old_screen s2) (cell (int i) (int j)) n;
                    Some (s2\<lparr>old_screen := b\<rparr>) }
          else Some s }"

definition screen_reflush :: "screen_t \<Rightarrow> screen_t option" where
  "screen_reflush s = for_loop SCREEN_HEIGHT (\<lambda>i. for_loop SCREEN_WIDTH (reflush_cell i)) s"

definition screen_clear :: "int \<Rightarrow> int \<Rightarrow> screen_t \<Rightarrow> screen_t option" where
  "screen_clear line1 line2 s =
     do { s1 \<leftarrow> for_loop (nat (line2 - line1 + 1)) (\<lambda>k. for_loop SCREEN_WIDTH (\<lambda>j. put_cell (cell (line1 + int k) (int j)) 32)) s;
          screen_reflush s1 }"

definition init_screen :: "screen_t \<Rightarrow> screen_t option" where
  "init_screen s = do { s1 \<leftarrow> vt100_hidden_cursor s; screen_clear 0 (int SCREEN_HEIGHT - 1) s1 }"

definition screen_move_cursor :: "int \<Rightarrow> int \<Rightarrow> screen_t \<Rightarrow> screen_t" where
  "screen_move_cursor x y s = s\<lparr>cur_x := x, cur_y := y\<rparr>"

definition screen_write :: "u8 list \<Rightarrow> screen_t \<Rightarrow> screen_t option" where
  "screen_write buff s =
     do { l \<leftarrow> strlen buff;
          for_loop l (\<lambda>i s. do { c \<leftarrow> arr_get buff (int i); screen_write_ch c s }) s }"

text \<open>\<^verbatim>\<open>printks\<close> of \<^verbatim>\<open>printk.c\<close>.\<close>

definition screen_printks :: "string \<Rightarrow> va list \<Rightarrow> screen_t \<Rightarrow> screen_t option" where
  "screen_printks fmt va s =
     do { t \<leftarrow> printf_text (chars fmt) va; s1 \<leftarrow> screen_write (t @ [0]) s; screen_reflush s1 }"

end
