(* ===== verification/Screen_Inv.thy ===== *)
theory Screen_Inv
  imports Screen
begin

text \<open>
  Correctness of the screen: the cursor never leaves the screen however much is written, scrolling and
  clearing change the lines they name and no others, and after a flush a VT100 terminal on the serial
  port shows the buffer.
\<close>

section \<open>Lines of the buffer\<close>

definition at :: "u8 list \<Rightarrow> nat \<Rightarrow> nat \<Rightarrow> u8" where
  "at b r c = b ! (r * SCREEN_WIDTH + c)"

definition screen_ok :: "screen_t \<Rightarrow> bool" where
  "screen_ok s \<longleftrightarrow> length (new_screen s) = 2100 \<and> length (old_screen s) = 2100 \<and>
     0 \<le> cur_x s \<and> cur_x s < int SCREEN_WIDTH \<and> 0 \<le> cur_y s \<and> cur_y s < int SCREEN_HEIGHT - 1"

lemma cell_less: "r < SCREEN_HEIGHT \<Longrightarrow> c < SCREEN_WIDTH \<Longrightarrow> r * SCREEN_WIDTH + c < 2100"
  by simp

lemma cell_inj:
  assumes "c < SCREEN_WIDTH" "c' < SCREEN_WIDTH"
  shows "r * SCREEN_WIDTH + c = r' * SCREEN_WIDTH + c' \<longleftrightarrow> r = r' \<and> c = c'"
proof
  assume e: "r * SCREEN_WIDTH + c = r' * SCREEN_WIDTH + c'"
  have "(r * SCREEN_WIDTH + c) div SCREEN_WIDTH = r" "(r' * SCREEN_WIDTH + c') div SCREEN_WIDTH = r'" using assms by simp_all
  then have "r = r'" using e by simp
  then show "r = r' \<and> c = c'" using e by simp
qed simp

lemma cell_split: "k < 2100 \<Longrightarrow> \<exists>r c. r < SCREEN_HEIGHT \<and> c < SCREEN_WIDTH \<and> k = r * SCREEN_WIDTH + c"
  by (intro exI[of _ "k div 75"] exI[of _ "k mod 75"]) (simp add: div_less_iff_less_mult)

lemma cell_nat: "cell (int r) (int c) = int (r * SCREEN_WIDTH + c)"
  by (simp add: cell_def)

lemma put_cell_eq:
  "length (new_screen s) = 2100 \<Longrightarrow> r < SCREEN_HEIGHT \<Longrightarrow> c < SCREEN_WIDTH \<Longrightarrow>
   put_cell (cell (int r) (int c)) v s = Some (s\<lparr>new_screen := (new_screen s)[r * SCREEN_WIDTH + c := v]\<rparr>)"
  unfolding put_cell_def cell_nat using cell_less[of r c] by (simp add: arr_set_nat del: of_nat_add of_nat_mult)

lemma at_update:
  "length b = 2100 \<Longrightarrow> r < SCREEN_HEIGHT \<Longrightarrow> c < SCREEN_WIDTH \<Longrightarrow> r' < SCREEN_HEIGHT \<Longrightarrow> c' < SCREEN_WIDTH \<Longrightarrow>
   at (b[r * SCREEN_WIDTH + c := v]) r' c' = (if r' = r \<and> c' = c then v else at b r' c')"
  using cell_inj[of c c' r r'] cell_less[of r c] cell_less[of r' c'] by (auto simp: at_def nth_list_update)

lemma buffer_eqI:
  assumes "length a = 2100" "length b = 2100" "\<And>r c. r < SCREEN_HEIGHT \<Longrightarrow> c < SCREEN_WIDTH \<Longrightarrow> at a r c = at b r c"
  shows "a = b"
proof (rule nth_equalityI)
  fix k assume "k < length a"
  then obtain r c where "r < SCREEN_HEIGHT" "c < SCREEN_WIDTH" "k = r * SCREEN_WIDTH + c" using cell_split[of k] assms(1) by auto
  then show "a ! k = b ! k" using assms(3)[of r c] by (simp add: at_def)
qed (simp add: assms)

text \<open>A loop that sets the cells of line \<open>i\<close>, and a loop over the lines \<open>l1\<close> to \<open>l2\<close>.\<close>

definition same_but :: "nat set \<Rightarrow> u8 list \<Rightarrow> u8 list \<Rightarrow> bool" where
  "same_but R b b' \<longleftrightarrow> (\<forall>r c. r \<notin> R \<longrightarrow> r < SCREEN_HEIGHT \<longrightarrow> c < SCREEN_WIDTH \<longrightarrow> at b' r c = at b r c)"

lemma row_loop:
  assumes i: "i < SCREEN_HEIGHT" and l: "length (new_screen s) = 2100"
    and body: "\<And>j b. j < SCREEN_WIDTH \<Longrightarrow> length b = 2100 \<Longrightarrow> same_but {i} (new_screen s) b \<Longrightarrow>
      body j (s\<lparr>new_screen := b\<rparr>) = Some (s\<lparr>new_screen := b[i * SCREEN_WIDTH + j := f j]\<rparr>)"
  shows "\<exists>b. for_loop SCREEN_WIDTH body s = Some (s\<lparr>new_screen := b\<rparr>) \<and> length b = 2100 \<and> same_but {i} (new_screen s) b \<and>
    (\<forall>c<SCREEN_WIDTH. at b i c = f c)"
proof -
  define P where "P n t \<longleftrightarrow> (\<exists>b. t = s\<lparr>new_screen := b\<rparr> \<and> length b = 2100 \<and> same_but {i} (new_screen s) b \<and> (\<forall>c<n. c < SCREEN_WIDTH \<longrightarrow> at b i c = f c))"
    for n t
  have "\<exists>t. for_loop SCREEN_WIDTH body s = Some t \<and> P SCREEN_WIDTH t"
  proof (rule for_loop_inv)
    have "s = s\<lparr>new_screen := new_screen s\<rparr>" by simp
    then show "P 0 s" unfolding P_def same_but_def using l by (intro exI[of _ "new_screen s"]) auto
  next
    fix j t assume j: "j < SCREEN_WIDTH" and "P j t"
    then obtain b where b: "t = s\<lparr>new_screen := b\<rparr>" "length b = 2100" "same_but {i} (new_screen s) b" "\<forall>c<j. c < SCREEN_WIDTH \<longrightarrow> at b i c = f c"
      by (auto simp: P_def)
    have "same_but {i} (new_screen s) (b[i * SCREEN_WIDTH + j := f j])"
      using b(3) at_update[OF b(2) i j] by (simp add: same_but_def)
    moreover have "\<forall>c<Suc j. c < SCREEN_WIDTH \<longrightarrow> at (b[i * SCREEN_WIDTH + j := f j]) i c = f c"
      using b(4) at_update[OF b(2) i j i] less_Suc_eq by auto
    ultimately show "\<exists>t'. body j t = Some t' \<and> P (Suc j) t'"
      using body[OF j b(2,3)] b(1,2) by (auto simp: P_def)
  qed
  then show ?thesis by (auto simp: P_def)
qed

lemma lines_loop:
  assumes l: "l1 + n \<le> SCREEN_HEIGHT" "length (new_screen s) = 2100"
    and body: "\<And>k b. k < n \<Longrightarrow> length b = 2100 \<Longrightarrow> same_but {l1..<l1 + k} (new_screen s) b \<Longrightarrow>
      \<exists>b'. body k (s\<lparr>new_screen := b\<rparr>) = Some (s\<lparr>new_screen := b'\<rparr>) \<and> length b' = 2100 \<and> same_but {l1 + k} b b' \<and>
        (\<forall>c<SCREEN_WIDTH. at b' (l1 + k) c = g (l1 + k) c)"
  shows "\<exists>b. for_loop n body s = Some (s\<lparr>new_screen := b\<rparr>) \<and> length b = 2100 \<and>
    (\<forall>r<SCREEN_HEIGHT. \<forall>c<SCREEN_WIDTH. at b r c = (if l1 \<le> r \<and> r < l1 + n then g r c else at (new_screen s) r c))"
proof -
  define P where "P k t \<longleftrightarrow> (\<exists>b. t = s\<lparr>new_screen := b\<rparr> \<and> length b = 2100 \<and> same_but {l1..<l1 + k} (new_screen s) b \<and>
    (\<forall>r c. l1 \<le> r \<longrightarrow> r < l1 + k \<longrightarrow> c < SCREEN_WIDTH \<longrightarrow> at b r c = g r c))" for k t
  have "\<exists>t. for_loop n body s = Some t \<and> P n t"
  proof (rule for_loop_inv)
    have "s = s\<lparr>new_screen := new_screen s\<rparr>" by simp
    then show "P 0 s" unfolding P_def same_but_def using l by (intro exI[of _ "new_screen s"]) auto
  next
    fix k t assume k: "k < n" and "P k t"
    then obtain b where b: "t = s\<lparr>new_screen := b\<rparr>" "length b = 2100" "same_but {l1..<l1 + k} (new_screen s) b"
      "\<forall>r c. l1 \<le> r \<longrightarrow> r < l1 + k \<longrightarrow> c < SCREEN_WIDTH \<longrightarrow> at b r c = g r c"
      by (auto simp: P_def)
    obtain b' where b': "body k (s\<lparr>new_screen := b\<rparr>) = Some (s\<lparr>new_screen := b'\<rparr>)" "length b' = 2100" "same_but {l1 + k} b b'"
      "\<forall>c<SCREEN_WIDTH. at b' (l1 + k) c = g (l1 + k) c" using body[OF k b(2,3)] by blast
    have "same_but {l1..<l1 + Suc k} (new_screen s) b'" using b(3) b'(3) by (auto simp: same_but_def)
    moreover have "at b' r c = g r c" if "l1 \<le> r" "r < l1 + Suc k" "c < SCREEN_WIDTH" for r c
    proof (cases "r = l1 + k")
      case False
      then have "r < SCREEN_HEIGHT" "r \<notin> {l1 + k}" "r < l1 + k" using that l(1) k by simp_all
      then show ?thesis using b'(3) b(4) that unfolding same_but_def by metis
    qed (use that b'(4) in simp)
    ultimately show "\<exists>t'. body k t = Some t' \<and> P (Suc k) t'" using b(1) b'(1,2) by (auto simp: P_def)
  qed
  then show ?thesis by (auto simp: P_def same_but_def)
qed

section \<open>Scrolling, clearing and writing\<close>

lemma screen_scroll_eq:
  assumes l: "l1 \<le> l2" "l2 < SCREEN_HEIGHT" "length (new_screen s) = 2100"
  shows "\<exists>b. screen_scroll (int l1) (int l2) s = Some (s\<lparr>new_screen := b\<rparr>) \<and> length b = 2100 \<and>
    (\<forall>r<SCREEN_HEIGHT. \<forall>c<SCREEN_WIDTH. at b r c =
       (if l1 \<le> r \<and> r \<le> l2 then (if r = l2 then 32 else at (new_screen s) (r + 1) c) else at (new_screen s) r c))"
proof -
  let ?n = "Suc l2 - l1"
  let ?g = "\<lambda>r c. if r = l2 then 32 else at (new_screen s) (r + 1) c"
  have n: "nat (int l2 - int l1 + 1) = ?n" "l1 + ?n = Suc l2" using l by linarith+
  have "\<exists>b. for_loop ?n (\<lambda>k. for_loop SCREEN_WIDTH (scroll_cell (int l2) (int l1 + int k))) s = Some (s\<lparr>new_screen := b\<rparr>) \<and> length b = 2100 \<and>
    (\<forall>r<SCREEN_HEIGHT. \<forall>c<SCREEN_WIDTH. at b r c = (if l1 \<le> r \<and> r < l1 + ?n then ?g r c else at (new_screen s) r c))"
  proof (rule lines_loop)
    show "l1 + ?n \<le> SCREEN_HEIGHT" "length (new_screen s) = 2100" using l by simp_all
    fix k b assume k: "k < ?n" and b: "length b = 2100" "same_but {l1..<l1 + k} (new_screen s) b"
    let ?i = "l1 + k" and ?t = "s\<lparr>new_screen := b\<rparr>"
    have i: "?i < SCREEN_HEIGHT" "?i \<le> l2" using k l by linarith+
    have ik: "int l1 + int k = int ?i" by simp
    have body: "scroll_cell (int l2) (int l1 + int k) j (?t\<lparr>new_screen := b'\<rparr>) =
        Some (?t\<lparr>new_screen := b'[?i * SCREEN_WIDTH + j := ?g ?i j]\<rparr>)"
      if j: "j < SCREEN_WIDTH" and b': "length b' = 2100" "same_but {?i} (new_screen ?t) b'" for j b'
    proof (cases "?i = l2")
      case True
      then show ?thesis using put_cell_eq[of "?t\<lparr>new_screen := b'\<rparr>" ?i j 32] b' i j unfolding ik by (simp add: scroll_cell_def del: of_nat_add)
    next
      case False
      then have i1: "?i + 1 < SCREEN_HEIGHT" using i l by simp
      have "at b' (?i + 1) j = at b (?i + 1) j" using b'(2) i1 j by (simp add: same_but_def)
      also have "\<dots> = at (new_screen s) (?i + 1) j" using b(2) i1 j by (simp add: same_but_def)
      finally have "arr_get b' (cell (int (?i + 1)) (int j)) = Some (at (new_screen s) (?i + 1) j)"
        unfolding cell_nat at_def using cell_less[OF i1 j] b'(1) arr_get_nat[of "(?i + 1) * SCREEN_WIDTH + j" b'] by simp
      moreover have "int ?i + 1 = int (?i + 1)" by simp
      ultimately show ?thesis
        using put_cell_eq[of "?t\<lparr>new_screen := b'\<rparr>" ?i j "at (new_screen s) (?i + 1) j"] b' i j False unfolding ik
        by (simp add: scroll_cell_def add.commute[of _ 1] del: of_nat_add)
    qed
    show "\<exists>b'. for_loop SCREEN_WIDTH (scroll_cell (int l2) (int l1 + int k)) ?t = Some (s\<lparr>new_screen := b'\<rparr>) \<and> length b' = 2100 \<and>
        same_but {?i} b b' \<and> (\<forall>c<SCREEN_WIDTH. at b' ?i c = ?g ?i c)"
      using row_loop[OF i(1), of ?t _ "?g ?i"] body b(1) by fastforce
  qed
  then show ?thesis unfolding screen_scroll_def n by (auto simp: n(2) less_Suc_eq_le)
qed

lemma clear_lines_eq:
  assumes l: "l1 \<le> l2" "l2 < SCREEN_HEIGHT" "length (new_screen s) = 2100"
  shows "\<exists>b. for_loop (nat (int l2 - int l1 + 1)) (\<lambda>k. for_loop SCREEN_WIDTH (\<lambda>j. put_cell (cell (int l1 + int k) (int j)) 32)) s =
      Some (s\<lparr>new_screen := b\<rparr>) \<and> length b = 2100 \<and>
    (\<forall>r<SCREEN_HEIGHT. \<forall>c<SCREEN_WIDTH. at b r c = (if l1 \<le> r \<and> r \<le> l2 then 32 else at (new_screen s) r c))"
proof -
  let ?n = "Suc l2 - l1"
  have n: "nat (int l2 - int l1 + 1) = ?n" "l1 + ?n = Suc l2" using l by linarith+
  have "\<exists>b. for_loop ?n (\<lambda>k. for_loop SCREEN_WIDTH (\<lambda>j. put_cell (cell (int l1 + int k) (int j)) 32)) s = Some (s\<lparr>new_screen := b\<rparr>) \<and>
    length b = 2100 \<and> (\<forall>r<SCREEN_HEIGHT. \<forall>c<SCREEN_WIDTH. at b r c = (if l1 \<le> r \<and> r < l1 + ?n then 32 else at (new_screen s) r c))"
  proof (rule lines_loop)
    show "l1 + ?n \<le> SCREEN_HEIGHT" "length (new_screen s) = 2100" using l by simp_all
    fix k and b :: "u8 list" assume k: "k < ?n" and b: "length b = 2100"
    let ?i = "l1 + k" and ?t = "s\<lparr>new_screen := b\<rparr>"
    have i: "?i < SCREEN_HEIGHT" using k l by linarith
    have "put_cell (cell (int l1 + int k) (int j)) 32 (?t\<lparr>new_screen := b'\<rparr>) = Some (?t\<lparr>new_screen := b'[?i * SCREEN_WIDTH + j := 32]\<rparr>)"
      if "j < SCREEN_WIDTH" "length b' = 2100" for j b'
      using put_cell_eq[of "?t\<lparr>new_screen := b'\<rparr>" ?i j 32] that i by simp
    then show "\<exists>b'. for_loop SCREEN_WIDTH (\<lambda>j. put_cell (cell (int l1 + int k) (int j)) 32) ?t = Some (s\<lparr>new_screen := b'\<rparr>) \<and> length b' = 2100 \<and>
        same_but {?i} b b' \<and> (\<forall>c<SCREEN_WIDTH. at b' ?i c = 32)"
      using row_loop[OF i, of ?t _ "\<lambda>_. 32"] b by fastforce
  qed
  then show ?thesis unfolding n by (auto simp: n(2) less_Suc_eq_le)
qed

text \<open>Writing keeps the cursor on the screen, and printable text keeps the buffer printable.\<close>

definition printable :: "u8 \<Rightarrow> bool" where
  "printable c \<longleftrightarrow> 32 \<le> c \<and> c < 127"

definition writable :: "u8 \<Rightarrow> bool" where
  "writable c \<longleftrightarrow> printable c \<or> c = 10 \<or> c = 13 \<or> c = 8 \<or> c = 127"

lemma printable_at:
  "length b = 2100 \<Longrightarrow> list_all printable b \<longleftrightarrow> (\<forall>r<SCREEN_HEIGHT. \<forall>c<SCREEN_WIDTH. printable (at b r c))"
  unfolding list_all_length at_def using cell_less cell_split by metis

lemma printable_update: "list_all printable b \<Longrightarrow> printable v \<Longrightarrow> list_all printable (b[k := v])"
  by (auto simp: list_all_iff dest: set_update_subset_insert[THEN subsetD])

lemma put_cell_int:
  assumes "length (new_screen s) = 2100" "0 \<le> y" "y < int SCREEN_HEIGHT" "0 \<le> x" "x < int SCREEN_WIDTH"
  shows "put_cell (cell y x) v s = Some (s\<lparr>new_screen := (new_screen s)[nat y * SCREEN_WIDTH + nat x := v]\<rparr>)"
  using put_cell_eq[OF assms(1), of "nat y" "nat x" v] assms by simp

lemma screen_write_ch_ok:
  assumes ok: "screen_ok s"
  shows "\<exists>s'. screen_write_ch ch s = Some s' \<and> screen_ok s' \<and> old_screen s' = old_screen s \<and> port s' = port s \<and>
    (list_all printable (new_screen s) \<and> writable ch \<longrightarrow> list_all printable (new_screen s'))"
proof -
  define pr where "pr \<longleftrightarrow> list_all printable (new_screen s) \<and> writable ch"
  have sp: "printable 32" by (simp add: printable_def)
  have l: "length (new_screen s) = 2100" and x: "0 \<le> cur_x s" "cur_x s < 75" and y: "0 \<le> cur_y s" "cur_y s < 27"
    and lo: "length (old_screen s) = 2100" using ok by (simp_all add: screen_ok_def)
  define A where "A t \<longleftrightarrow> length (new_screen t) = 2100 \<and> old_screen t = old_screen s \<and> port t = port s \<and>
    0 \<le> cur_x t \<and> cur_x t < 75 \<and> 0 \<le> cur_y t \<and> cur_y t \<le> 27 \<and> (pr \<longrightarrow> list_all printable (new_screen t))" for t :: screen_t
  have fin: "\<exists>s'. (if cur_y t = int SCREEN_HEIGHT - 1
          then do { s3 \<leftarrow> screen_scroll (int SCREEN_HEIGHT div 2 + 1) (int SCREEN_HEIGHT - 2) t;
                    Some (s3\<lparr>cur_x := 0, cur_y := int SCREEN_HEIGHT - 2\<rparr>) }
          else Some t) = Some s' \<and> screen_ok s' \<and> old_screen s' = old_screen s \<and> port s' = port s \<and> (pr \<longrightarrow> list_all printable (new_screen s'))" if At: "A t" for t
  proof (cases "cur_y t = 27")
    case True
    obtain b where b: "screen_scroll (int 15) (int 26) t = Some (t\<lparr>new_screen := b\<rparr>)" "length b = 2100"
      "\<forall>r<SCREEN_HEIGHT. \<forall>c<SCREEN_WIDTH. at b r c = (if 15 \<le> r \<and> r \<le> 26 then (if r = 26 then 32 else at (new_screen t) (r + 1) c) else at (new_screen t) r c)"
      using screen_scroll_eq[of 15 26 t] At unfolding A_def by auto
    have "list_all printable b" if pr
      using b(2,3) sp At that printable_at[of "new_screen t"] by (auto simp: A_def printable_at[OF b(2)])
    then show ?thesis using b(1,2) At True lo by (auto simp: A_def screen_ok_def)
  next
    case False
    then show ?thesis using At lo by (auto simp: A_def screen_ok_def)
  qed
  consider (nl) "ch = 10 \<or> ch = 13" | (bs) "ch = 8 \<or> ch = 127" | (prt) "ch \<notin> {10, 13, 8, 127}" by auto
  then show ?thesis
  proof cases
    case nl
    let ?t = "s\<lparr>cur_x := 0, cur_y := cur_y s + 1\<rparr>"
    have "A ?t" using l x y by (simp add: A_def pr_def)
    from fin[OF this] show ?thesis using nl by (auto simp: screen_write_ch_def pr_def)
  next
    case bs
    have ch: "\<not> (ch = 10 \<or> ch = 13)" using bs by auto
    show ?thesis
    proof (cases "0 < cur_x s")
      case True
      let ?t = "s\<lparr>cur_x := cur_x s - 1, new_screen := (new_screen s)[nat (cur_y s) * 75 + nat (cur_x s - 1) := 32]\<rparr>"
      have "A ?t" using l x y True printable_update[OF _ sp] by (simp add: A_def pr_def)
      moreover have "put_cell (cell (cur_y s) (cur_x s - 1)) 32 (s\<lparr>cur_x := cur_x s - 1\<rparr>) = Some ?t"
        using put_cell_int[of "s\<lparr>cur_x := cur_x s - 1\<rparr>" "cur_y s" "cur_x s - 1" 32] l x y True by simp
      ultimately show ?thesis using fin[of ?t] bs ch True x y by (simp add: screen_write_ch_def Let_def pr_def)
    next
      case False
      have "A s" using l x y by (simp add: A_def pr_def)
      then show ?thesis using fin[of s] bs ch False x y by (simp add: screen_write_ch_def Let_def pr_def)
    qed
  next
    case prt
    let ?b = "(new_screen s)[nat (cur_y s) * 75 + nat (cur_x s) := ch]"
    let ?t = "s\<lparr>new_screen := ?b, cur_x := cur_x s + 1\<rparr>"
    let ?u = "if cur_x ?t = int SCREEN_WIDTH then ?t\<lparr>cur_y := cur_y ?t + 1, cur_x := 0\<rparr> else ?t"
    have p: "put_cell (cell (cur_y s) (cur_x s)) ch s = Some (s\<lparr>new_screen := ?b\<rparr>)" using put_cell_int l x y by simp
    have "pr \<longrightarrow> list_all printable ?b" using prt by (auto simp: pr_def writable_def intro: printable_update)
    then have "A ?u" using l x y unfolding A_def by auto
    from fin[OF this] show ?thesis using prt p unfolding screen_write_ch_def Let_def pr_def by simp
  qed
qed

lemma screen_write_ok:
  assumes "screen_ok s" "terminated buff"
  shows "\<exists>s'. screen_write buff s = Some s' \<and> screen_ok s' \<and> old_screen s' = old_screen s \<and> port s' = port s \<and>
    (list_all printable (new_screen s) \<and> list_all writable (cstr buff) \<longrightarrow> list_all printable (new_screen s'))"
proof -
  obtain r where r: "buff = cstr buff @ 0 # r" using terminated_split[OF assms(2)] by blast
  have g: "arr_get buff (int i) = Some (cstr buff ! i)" if "i < length (cstr buff)" for i
    using that arr_get_nat[of i buff] by (subst r, subst (asm) r) (simp add: nth_append)
  have "\<exists>s'. for_loop (length (cstr buff)) (\<lambda>i s. do { c \<leftarrow> arr_get buff (int i); screen_write_ch c s }) s = Some s' \<and>
      screen_ok s' \<and> old_screen s' = old_screen s \<and> port s' = port s \<and>
      (list_all printable (new_screen s) \<and> list_all writable (cstr buff) \<longrightarrow> list_all printable (new_screen s'))"
  proof (rule for_loop_inv)
    fix i s1 assume i: "i < length (cstr buff)" and s1: "screen_ok s1 \<and> old_screen s1 = old_screen s \<and> port s1 = port s \<and>
      (list_all printable (new_screen s) \<and> list_all writable (cstr buff) \<longrightarrow> list_all printable (new_screen s1))"
    obtain s2 where "screen_write_ch (cstr buff ! i) s1 = Some s2" "screen_ok s2" "old_screen s2 = old_screen s1" "port s2 = port s1"
      "list_all printable (new_screen s1) \<and> writable (cstr buff ! i) \<longrightarrow> list_all printable (new_screen s2)"
      using screen_write_ch_ok[of s1 "cstr buff ! i"] s1 by blast
    then show "\<exists>s'. (do { c \<leftarrow> arr_get buff (int i); screen_write_ch c s1 }) = Some s' \<and> screen_ok s' \<and> old_screen s' = old_screen s \<and> port s' = port s \<and>
      (list_all printable (new_screen s) \<and> list_all writable (cstr buff) \<longrightarrow> list_all printable (new_screen s'))"
      using g[OF i] s1 i by (auto simp: list_all_length)
  qed (use assms(1) in simp)
  then show ?thesis using assms(2) by (simp add: screen_write_def strlen_eq)
qed

section \<open>The terminal\<close>

text \<open>
  A VT100 terminal as far as the flush uses it: \<^verbatim>\<open>ESC [ y ; x H\<close> moves its cursor (counting from 1), a printable
  character is shown at the cursor, anything else is ignored.
\<close>

record vt100 =
  vt_x :: nat
  vt_y :: nat
  display :: "u8 list"

definition vt_number :: "u8 list \<Rightarrow> nat \<times> u8 list" where
  "vt_number r = (nat (dec_val (takeWhile digit r) 0), dropWhile digit r)"

fun expect :: "u8 \<Rightarrow> u8 list \<Rightarrow> u8 list option" where
  "expect c [] = None"
| "expect c (d # r) = (if c = d then Some r else None)"

definition vt_escape :: "u8 list \<Rightarrow> (nat \<times> nat \<times> u8 list) option" where
  "vt_escape r =
     do { r0 \<leftarrow> expect 91 r; r2 \<leftarrow> expect 59 (snd (vt_number r0)); r3 \<leftarrow> expect 72 (snd (vt_number r2));
          Some (fst (vt_number r0), fst (vt_number r2), r3) }"

definition vt_show :: "u8 \<Rightarrow> vt100 \<Rightarrow> vt100" where
  "vt_show c t = (if printable c then t\<lparr>display := (display t)[(vt_y t - 1) * SCREEN_WIDTH + (vt_x t - 1) := c], vt_x := vt_x t + 1\<rparr> else t)"

lemma expect_shorter: "expect c r = Some r' \<Longrightarrow> length r' < length r"
  by (cases r) (auto split: if_splits)

lemma vt_number_shorter: "length (snd (vt_number r)) \<le> length r"
  by (simp add: vt_number_def length_dropWhile_le)

lemma vt_escape_shorter: "vt_escape r = Some (y, x, r') \<Longrightarrow> length r' < length r"
proof -
  assume "vt_escape r = Some (y, x, r')"
  then obtain r0 r2 where "expect 91 r = Some r0" "expect 59 (snd (vt_number r0)) = Some r2" "expect 72 (snd (vt_number r2)) = Some r'"
    by (auto simp: vt_escape_def bind_eq_Some_conv)
  from this[THEN expect_shorter] vt_number_shorter[of r0] vt_number_shorter[of r2] show ?thesis by simp
qed

function vt :: "u8 list \<Rightarrow> vt100 \<Rightarrow> vt100" where
  "vt [] t = t"
| "vt (c # r) t =
     (if c = 27 then (case vt_escape r of Some (y, x, r') \<Rightarrow> vt r' (t\<lparr>vt_x := x, vt_y := y\<rparr>) | None \<Rightarrow> vt r t)
      else vt r (vt_show c t))"
  by pat_completeness auto
termination
  by (relation "measure (\<lambda>(r, _). length r)") (auto dest: vt_escape_shorter)

text \<open>The bytes \<^verbatim>\<open>vt100_move_cursor\<close> sends, and what the terminal makes of them.\<close>

definition move_bytes :: "nat \<Rightarrow> nat \<Rightarrow> u8 list" where
  "move_bytes x y = [27, 91] @ number 10 False 0 y @ [59] @ number 10 False 0 x @ [72]"

lemma vt_number_number: "\<not> digit c \<Longrightarrow> vt_number (number 10 False 0 n @ c # r) = (n, c # r)"
proof -
  assume c: "\<not> digit c"
  have "\<forall>x\<in>set (number 10 False 0 n). digit x" using digits_are_digits[of False 0 n] by (simp add: list_all_iff)
  then have "takeWhile digit (number 10 False 0 n @ c # r) = number 10 False 0 n" "dropWhile digit (number 10 False 0 n @ c # r) = c # r"
    using c by (simp_all add: takeWhile_append2 dropWhile_append2)
  moreover have "dec_val (number 10 False 0 n) 0 = int n" by (simp add: number_def Let_def dec_val_digits)
  ultimately show ?thesis by (simp add: vt_number_def)
qed

lemma vt_move: "vt (move_bytes x y @ r) t = vt r (t\<lparr>vt_x := x, vt_y := y\<rparr>)"
  by (simp add: move_bytes_def vt_escape_def vt_number_number digit_def word_less_nat_alt)

lemma vt100_move_cursor_eq:
  assumes "x \<le> 100" "y \<le> 100"
  shows "vt100_move_cursor (int x) (int y) s = Some (s\<lparr>port := port s @ move_bytes x y\<rparr>)"
proof -
  have si: "sint (word_of_nat n :: u32) = int n" if "n \<le> 100" for n
  proof -
    have "unat (word_of_nat n :: u32) = n" by (rule unat_word_of_nat_small) (use that in simp)
    then show ?thesis using sint_small[of "word_of_nat n"] that by simp
  qed
  have len: "length (number 10 False 0 n) \<le> 3" if "n \<le> 100" for n
    using length_radix_digits[of 10 n 3] that by (simp add: number_def Let_def)
  have "rendering (chars ''%c[%d;%dH'') [VInt 27, VInt (word_of_int (int y)), VInt (word_of_int (int x))] = Some (move_bytes x y)"
    using si[OF assms(1)] si[OF assms(2)]
    by (simp add: chars_def of_char_def rendering.simps field_def signed_number_def move_bytes_def)
  then have "mini_vsnprintf 256 (chars ''%c[%d;%dH'') [VInt 27, VInt (word_of_int (int y)), VInt (word_of_int (int x))] = Some (take 255 (move_bytes x y))"
    using mini_vsnprintf_eq[of _ _ _ 256] by simp
  moreover have "take 255 (move_bytes x y) = move_bytes x y" using len[OF assms(1)] len[OF assms(2)] by (simp add: move_bytes_def)
  moreover have "cstr (move_bytes x y @ [0]) = move_bytes x y"
    using digits_are_digits[of False 0 y] digits_are_digits[of False 0 x]
    by (intro cstr_append) (auto simp: move_bytes_def list_all_iff digit_def)
  ultimately show ?thesis by (simp add: vt100_move_cursor_def printk_def printf_text_def)
qed

text \<open>How far a flush has got: the cells before \<open>k\<close> are up to date, and the terminal shows \<^verbatim>\<open>old_screen\<close>.\<close>

definition flushed :: "screen_t \<Rightarrow> vt100 \<Rightarrow> nat \<Rightarrow> screen_t \<Rightarrow> bool" where
  "flushed s t k s' \<longleftrightarrow> new_screen s' = new_screen s \<and> cur_x s' = cur_x s \<and> cur_y s' = cur_y s \<and>
     length (old_screen s') = 2100 \<and> (\<forall>m<2100. old_screen s' ! m = (if m < k then new_screen s ! m else old_screen s ! m)) \<and>
     (\<exists>out t'. port s' = port s @ out \<and> (\<forall>rest. vt (out @ rest) t = vt rest t') \<and> display t' = old_screen s')"

lemma reflush_cell_step:
  assumes l: "length (new_screen s) = 2100" and p: "list_all printable (new_screen s)" and ij: "i < SCREEN_HEIGHT" "j < SCREEN_WIDTH"
    and f: "flushed s t (i * SCREEN_WIDTH + j) s1"
  shows "\<exists>s2. reflush_cell i j s1 = Some s2 \<and> flushed s t (i * SCREEN_WIDTH + Suc j) s2"
proof -
  let ?k = "i * SCREEN_WIDTH + j"
  have k: "?k < 2100" by (rule cell_less[OF ij])
  have F: "new_screen s1 = new_screen s" "cur_x s1 = cur_x s" "cur_y s1 = cur_y s" "length (old_screen s1) = 2100"
    "\<forall>m<2100. old_screen s1 ! m = (if m < ?k then new_screen s ! m else old_screen s ! m)" using f by (simp_all add: flushed_def)
  obtain out t' where o: "port s1 = port s @ out" "\<forall>rest. vt (out @ rest) t = vt rest t'" "display t' = old_screen s1"
    using f by (auto simp: flushed_def)
  let ?n = "new_screen s ! ?k"
  have pn: "printable ?n" using p k l by (simp add: list_all_length)
  have ge: "arr_get (new_screen s1) (cell (int i) (int j)) = Some ?n" "arr_get (old_screen s1) (cell (int i) (int j)) = Some (old_screen s ! ?k)"
    unfolding cell_nat using arr_get_nat[of ?k "new_screen s"] arr_get_nat[of ?k "old_screen s1"] k l F(1,4,5) by simp_all
  show ?thesis
  proof (cases "?n = old_screen s ! ?k")
    case True
    then have "\<forall>m<2100. old_screen s1 ! m = (if m < Suc ?k then new_screen s ! m else old_screen s ! m)"
      using F(5) by (metis less_Suc_eq less_irrefl_nat)
    then have "flushed s t (Suc ?k) s1" using F(1-4) o unfolding flushed_def by blast
    then show ?thesis using ge True by (simp add: reflush_cell_def)
  next
    case False
    let ?s2 = "s1\<lparr>port := port s1 @ move_bytes (j + 1) (i + 1) @ [?n], old_screen := (old_screen s1)[?k := ?n]\<rparr>"
    have "int j + 1 = int (j + 1)" "int i + 1 = int (i + 1)" by simp_all
    then have "vt100_move_cursor (int j + 1) (int i + 1) s1 = Some (s1\<lparr>port := port s1 @ move_bytes (j + 1) (i + 1)\<rparr>)"
      using vt100_move_cursor_eq[of "j + 1" "i + 1" s1] ij by (simp add: add.commute)
    moreover have "arr_set (old_screen s1) (cell (int i) (int j)) ?n = Some ((old_screen s1)[?k := ?n])"
      unfolding cell_nat using arr_set_nat[of ?k "old_screen s1" ?n] k F(4) by simp
    ultimately have eq: "reflush_cell i j s1 = Some ?s2" using ge False by (simp add: reflush_cell_def port_write_ch_def Let_def)
    let ?t2 = "vt_show ?n (t'\<lparr>vt_x := j + 1, vt_y := i + 1\<rparr>)"
    have "?n \<noteq> 27" using pn by (auto simp: printable_def)
    then have "vt ((out @ move_bytes (j + 1) (i + 1) @ [?n]) @ rest) t = vt rest ?t2" for rest
      using o(2)[rule_format, of "move_bytes (j + 1) (i + 1) @ ?n # rest"] by (simp add: vt_move)
    moreover have "display ?t2 = (old_screen s1)[?k := ?n]" using pn o(3) by (simp add: vt_show_def)
    moreover have "\<forall>m<2100. (old_screen s1)[?k := ?n] ! m = (if m < Suc ?k then new_screen s ! m else old_screen s ! m)"
      using F(4,5) by (simp add: nth_list_update less_Suc_eq)
    moreover have "port ?s2 = port s @ (out @ move_bytes (j + 1) (i + 1) @ [?n])" using o(1) by simp
    ultimately have "flushed s t (Suc ?k) ?s2"
      unfolding flushed_def using F(1-4) by (intro conjI exI[of _ "out @ move_bytes (j + 1) (i + 1) @ [?n]"] exI[of _ ?t2]) simp_all
    then show ?thesis using eq by simp
  qed
qed

lemma screen_reflush_ok:
  assumes l: "length (new_screen s) = 2100" "length (old_screen s) = 2100" and p: "list_all printable (new_screen s)"
    and t: "display t = old_screen s"
  shows "\<exists>s' out. screen_reflush s = Some s' \<and> port s' = port s @ out \<and> display (vt out t) = new_screen s \<and>
    new_screen s' = new_screen s \<and> old_screen s' = new_screen s \<and> cur_x s' = cur_x s \<and> cur_y s' = cur_y s"
proof -
  have "\<exists>s'. screen_reflush s = Some s' \<and> flushed s t (SCREEN_HEIGHT * SCREEN_WIDTH) s'"
    unfolding screen_reflush_def
  proof (rule for_loop_inv[where P = "\<lambda>i. flushed s t (i * SCREEN_WIDTH)"])
    show "flushed s t (0 * SCREEN_WIDTH) s"
      unfolding flushed_def using l(2) t by (intro conjI exI[of _ "[]"] exI[of _ t]) simp_all
  next
    fix i s1 assume i: "i < SCREEN_HEIGHT" and f: "flushed s t (i * SCREEN_WIDTH) s1"
    have "\<exists>s2. for_loop SCREEN_WIDTH (reflush_cell i) s1 = Some s2 \<and> flushed s t (i * SCREEN_WIDTH + SCREEN_WIDTH) s2"
      by (rule for_loop_inv[where P = "\<lambda>j. flushed s t (i * SCREEN_WIDTH + j)"])
        (use f reflush_cell_step[OF l(1) p i] in auto)
    then show "\<exists>s'. for_loop SCREEN_WIDTH (reflush_cell i) s1 = Some s' \<and> flushed s t (Suc i * SCREEN_WIDTH) s'"
      by (simp add: add.commute)
  qed
  then obtain s' where s': "screen_reflush s = Some s'" "flushed s t 2100 s'" by auto
  obtain out t' where o: "port s' = port s @ out" "\<forall>rest. vt (out @ rest) t = vt rest t'" "display t' = old_screen s'"
    using s'(2) by (auto simp: flushed_def)
  have "old_screen s' = new_screen s" using s'(2) l(1) by (intro nth_equalityI) (auto simp: flushed_def)
  moreover have "vt out t = t'" using o(2)[rule_format, of "[]"] by simp
  ultimately show ?thesis using s' o by (auto simp: flushed_def)
qed

section \<open>Properties\<close>

text \<open>A blank screen, as \<^verbatim>\<open>init_screen\<close> leaves it.\<close>

definition blank_screen :: screen_t where
  "blank_screen = \<lparr>cur_x = 0, cur_y = 0, new_screen = replicate 2100 32, old_screen = replicate 2100 32, port = []\<rparr>"

lemma blank_screen_ok: "screen_ok blank_screen" "list_all printable (new_screen blank_screen)"
  by (simp_all add: screen_ok_def blank_screen_def printable_def list_all_iff)

text \<open>Printing is safe: from a cursor on the screen, writing any string, with line feeds, backspaces and scrolling,
  never writes outside the screen buffer and leaves the cursor in columns 0 to 74 of lines 0 to 26; what the terminal shows is
  not touched before the flush.\<close>

theorem screen_write_safe:
  assumes "screen_ok s" "terminated buff"
  shows "\<exists>s'. screen_write buff s = Some s' \<and> screen_ok s' \<and> old_screen s' = old_screen s \<and> port s' = port s"
  using screen_write_ok[OF assms] by blast

theorem screen_write_safe_witness:
  "\<exists>s'. screen_write [104, 105, 10, 8, 0] blank_screen = Some s' \<and> screen_ok s'"
  using screen_write_safe[OF blank_screen_ok(1), of "[104, 105, 10, 8, 0]"] by (auto simp: terminated_def)

text \<open>C35. What \<^verbatim>\<open>printks\<close> prints is what the user sees: if the terminal on the serial port shows \<^verbatim>\<open>old_screen\<close>, then after
  formatted text has been written to the buffer and flushed, the terminal, having read the escape sequences and characters
  sent, shows the buffer cell by cell, and \<^verbatim>\<open>old_screen\<close> records it.\<close>

theorem printks_shows:
  assumes ok: "screen_ok s" "list_all printable (new_screen s)" and t: "display t = old_screen s"
    and fm: "printf_text (chars fmt) va = Some bytes" "list_all writable bytes"
  shows "\<exists>s1 s2 out. screen_write (bytes @ [0]) s = Some s1 \<and> screen_printks fmt va s = Some s2 \<and> screen_ok s2 \<and>
    port s2 = port s @ out \<and> display (vt out t) = new_screen s1 \<and> new_screen s2 = new_screen s1 \<and> old_screen s2 = new_screen s1 \<and>
    list_all printable (new_screen s2)"
proof -
  have c: "cstr (bytes @ [0]) = bytes"
    by (rule cstr_append) (use fm(2) in \<open>auto simp: list_all_iff writable_def printable_def\<close>)
  obtain s1 where s1: "screen_write (bytes @ [0]) s = Some s1" "screen_ok s1" "old_screen s1 = old_screen s" "port s1 = port s"
    "list_all printable (new_screen s1)"
    using screen_write_ok[OF ok(1), of "bytes @ [0]"] ok(2) fm(2) c by (auto simp: terminated_def)
  have l: "length (new_screen s1) = 2100" "length (old_screen s1) = 2100" using s1(2) by (simp_all add: screen_ok_def)
  have t1: "display t = old_screen s1" using t s1(3) by simp
  obtain s2 out where s2: "screen_reflush s1 = Some s2" "port s2 = port s1 @ out" "display (vt out t) = new_screen s1"
    "new_screen s2 = new_screen s1" "old_screen s2 = new_screen s1" "cur_x s2 = cur_x s1" "cur_y s2 = cur_y s1"
    using screen_reflush_ok[OF l s1(5) t1] by blast
  have "screen_ok s2" using s1(2) s2(4-7) by (simp add: screen_ok_def)
  moreover have "screen_printks fmt va s = Some s2" using fm(1) s1(1) s2(1) by (simp add: screen_printks_def)
  ultimately show ?thesis using s1(1,4,5) s2(2-5) by (intro exI[of _ s1] exI[of _ s2] exI[of _ out]) simp
qed

theorem printks_shows_witness:
  "\<exists>s2 out. screen_printks ''pid: %d'' [VInt 7] blank_screen = Some s2 \<and> port s2 = out \<and>
     display (vt out \<lparr>vt_x = 1, vt_y = 1, display = replicate 2100 32\<rparr>) = new_screen s2 \<and> old_screen s2 = new_screen s2"
proof -
  have fm: "printf_text (chars ''pid: %d'') [VInt 7] = Some [112, 105, 100, 58, 32, 55]" by code_simp
  have w: "list_all writable [112, 105, 100, 58, 32, 55]" by (simp add: writable_def printable_def)
  show ?thesis
    using printks_shows[OF blank_screen_ok, of "\<lparr>vt_x = 1, vt_y = 1, display = replicate 2100 32\<rparr>", OF _ fm w]
    by (auto simp: blank_screen_def)
qed

text \<open>\<^verbatim>\<open>screen_clear\<close> of lines of the screen blanks exactly those lines, on the screen buffer and on the terminal.\<close>

theorem screen_clear_lines:
  assumes ok: "screen_ok s" "list_all printable (new_screen s)" and t: "display t = old_screen s" and l: "l1 \<le> l2" "l2 < SCREEN_HEIGHT"
  shows "\<exists>s' out. screen_clear (int l1) (int l2) s = Some s' \<and> screen_ok s' \<and> port s' = port s @ out \<and> display (vt out t) = new_screen s' \<and>
    old_screen s' = new_screen s' \<and>
    (\<forall>r<SCREEN_HEIGHT. \<forall>c<SCREEN_WIDTH. at (new_screen s') r c = (if l1 \<le> r \<and> r \<le> l2 then 32 else at (new_screen s) r c))"
proof -
  have ln: "length (new_screen s) = 2100" using ok(1) by (simp add: screen_ok_def)
  obtain b where b: "for_loop (nat (int l2 - int l1 + 1)) (\<lambda>k. for_loop SCREEN_WIDTH (\<lambda>j. put_cell (cell (int l1 + int k) (int j)) 32)) s =
      Some (s\<lparr>new_screen := b\<rparr>)" "length b = 2100"
    "\<forall>r<SCREEN_HEIGHT. \<forall>c<SCREEN_WIDTH. at b r c = (if l1 \<le> r \<and> r \<le> l2 then 32 else at (new_screen s) r c)"
    using clear_lines_eq[OF l ln] by blast
  have p: "list_all printable b"
    unfolding printable_at[OF b(2)] using b(3) ok(2) unfolding printable_at[OF ln] by (simp add: printable_def)
  let ?s = "s\<lparr>new_screen := b\<rparr>"
  have "\<exists>s' out. screen_reflush ?s = Some s' \<and> port s' = port ?s @ out \<and> display (vt out t) = new_screen ?s \<and>
    new_screen s' = new_screen ?s \<and> old_screen s' = new_screen ?s \<and> cur_x s' = cur_x ?s \<and> cur_y s' = cur_y ?s"
    by (rule screen_reflush_ok) (use b(2) p t ok(1) in \<open>simp_all add: screen_ok_def\<close>)
  then obtain s' out where s': "screen_reflush ?s = Some s'" "port s' = port s @ out" "display (vt out t) = b"
    "new_screen s' = b" "old_screen s' = b" "cur_x s' = cur_x s" "cur_y s' = cur_y s" by auto
  have "screen_clear (int l1) (int l2) s = Some s'" using b(1) s'(1) by (simp add: screen_clear_def)
  moreover have "screen_ok s'" using ok(1) s'(4-7) b(2) by (simp add: screen_ok_def)
  ultimately show ?thesis using s'(2-5) b(3) by (intro exI[of _ s'] exI[of _ out]) simp
qed

theorem screen_clear_lines_witness:
  "\<exists>s'. screen_clear 0 27 blank_screen = Some s' \<and> screen_ok s' \<and> old_screen s' = new_screen s' \<and> at (new_screen s') 3 4 = 32"
  using screen_clear_lines[OF blank_screen_ok, of "\<lparr>vt_x = 1, vt_y = 1, display = replicate 2100 32\<rparr>" 0 27]
  by (fastforce simp: blank_screen_def)

end
