(* ===== verification/Shell.thy ===== *)
theory Shell
  imports Screen_Inv Kernel Fs_Ops
begin

text \<open>
  The shell of \<^verbatim>\<open>kernel/software/shell.c\<close> on top of the kernel, the file system and the screen, whose states are
  combined in one record with the globals of the shell. Every system call goes through the registers, the
  dispatcher of theory \<open>Kernel\<close> and the operation of the component it is dispatched to; what a call returns is read
  from the register \<^verbatim>\<open>v0\<close> of the task. The keys come from the serial port and are arguments. What other tasks do
  between two steps of the shell is not part of this model. \<^verbatim>\<open>show_process\<close> and \<^verbatim>\<open>panic\<close> are here because they print.
\<close>

section \<open>The system\<close>

record system =
  sys_kern :: kstate
  sys_fs :: fs_state
  sys_scr :: screen_t
  input_buffer :: "u8 list"
  below_buffer :: u8
  buffer_index :: int
  prefix_length :: int
  run_buf :: "u8 list"

text \<open>
  What the shell uses and does not define: the memory it passes pointers into, the addresses of the tasks of
  \<^verbatim>\<open>test_tasks\<close> and of \<^verbatim>\<open>info_run\<close>, a pointer (its own value does not matter, the operations get the bytes behind it),
  the value of \<^verbatim>\<open>v0\<close> at a trap, and the old contents of the kernel's and the shell's stack.
\<close>

record shell_env =
  e_mem :: mem_view
  e_tests :: "u32 list"
  e_run :: u32
  e_ptr :: u32
  e_v0 :: u32
  e_junk :: stack_junk
  e_buf :: "u8 list"

text \<open>
  A trap: the wrapper puts its arguments into the registers \<^verbatim>\<open>a0\<close> to \<^verbatim>\<open>a3\<close>, \<^verbatim>\<open>v0\<close> holds whatever the shell left
  there, and the dispatcher runs. What a call of a driver or of the file system returns is \<open>v\<close>.
  The shell goes on if it is still the running task.
\<close>

definition trap_regs :: "u32 \<Rightarrow> trap_args \<Rightarrow> (nat \<Rightarrow> u32) \<Rightarrow> nat \<Rightarrow> u32" where
  "trap_regs v0 t r = r(2 := v0, 4 := a_fn t, 5 := a_1 t, 6 := a_2 t, 7 := a_3 t)"

definition trap_enter :: "u32 \<Rightarrow> trap_args \<Rightarrow> kstate \<Rightarrow> kstate" where
  "trap_enter v0 t s = upd_pcb s (current_running s) (\<lambda>c. c\<lparr>user_regs_context :=
      (user_regs_context c)\<lparr>regs := trap_regs v0 t (regs (user_regs_context c))\<rparr>\<rparr>)"

definition do_trap :: "shell_env \<Rightarrow> syscall \<Rightarrow> u32 option \<Rightarrow> system \<Rightarrow> (u32 \<times> system) option" where
  "do_trap e c v w =
     do { k \<leftarrow> system_call_helper (e_mem e) v (trap_enter (e_v0 e) (syscall_wrapper c) (sys_kern w));
          if current_running k = current_running (sys_kern w)
          then Some (regs (user_regs_context (pcb k (current_running k))) 2, w\<lparr>sys_kern := k\<rparr>)
          else None }"

definition screen_call :: "shell_env \<Rightarrow> dcall \<Rightarrow> (screen_t \<Rightarrow> screen_t option) \<Rightarrow> system \<Rightarrow> system option" where
  "screen_call e c f w =
     do { (_, w1) \<leftarrow> do_trap e (Dev c) None w;
          s \<leftarrow> f (sys_scr w1);
          Some (w1\<lparr>sys_scr := s\<rparr>) }"

text \<open>\<^verbatim>\<open>printf\<close> formats and makes the system call that writes to the screen.\<close>

definition printf :: "shell_env \<Rightarrow> string \<Rightarrow> va list \<Rightarrow> system \<Rightarrow> system option" where
  "printf e fmt va w =
     do { t \<leftarrow> printf_text (chars fmt) va;
          screen_call e (D_write (e_ptr e)) (screen_write (t @ [0])) w }"

text \<open>A call of the file system: what it printed goes to the screen.\<close>

fun show_lines :: "string list \<Rightarrow> screen_t \<Rightarrow> screen_t option" where
  "show_lines [] s = Some s"
| "show_lines (m # ms) s = do { s1 \<leftarrow> screen_write (chars m @ [0]) s; s2 \<leftarrow> screen_reflush s1; show_lines ms s2 }"

definition fs_run :: "shell_env \<Rightarrow> fcall \<Rightarrow> u32 option \<Rightarrow> fs_state \<Rightarrow> system \<Rightarrow> system option" where
  "fs_run e c v s w =
     do { (_, w1) \<leftarrow> do_trap e (Fs c) v w;
          scr \<leftarrow> show_lines (drop (length (console (sys_fs w))) (console s)) (sys_scr w);
          Some (w1\<lparr>sys_fs := s, sys_scr := scr\<rparr>) }"

definition fs_call :: "shell_env \<Rightarrow> fcall \<Rightarrow> (fs_state \<Rightarrow> fs_state option) \<Rightarrow> system \<Rightarrow> system option" where
  "fs_call e c f w = do { s \<leftarrow> f (sys_fs w); fs_run e c None s w }"

section \<open>Output of the kernel\<close>

fun status_name :: "task_status_t \<Rightarrow> string" where
  "status_name TASK_BLOCKED = ''TASK_BLOCKED ''"
| "status_name TASK_RUNNING = ''TASK_RUNNING ''"
| "status_name TASK_READY = ''TASK_RUNNING ''"
| "status_name TASK_EXITED = ''TASK_EXITED  ''"
| "status_name TASK_SLEEPING = ''TASK_SLEEPING''"
| "status_name TASK_WAITING = ''TASK_WAITING ''"

text \<open>The loop over the pids, from \<open>p\<close> on with \<open>n\<close> to go; \<open>i\<close> tasks have been printed.\<close>

fun show_process_loop :: "kstate \<Rightarrow> nat \<Rightarrow> nat \<Rightarrow> nat \<Rightarrow> screen_t \<Rightarrow> screen_t option" where
  "show_process_loop k 0 p i s = Some s"
| "show_process_loop k (Suc n) p i s =
     do { v \<leftarrow> pid_is_valid k (int p);
          (i1, s1) \<leftarrow> (if v \<noteq> 0 then
              do { s1 \<leftarrow> screen_printks ''[%03d]  %03d         %s         %s\<newline>''
                           [VInt (word_of_nat i), VInt (word_of_nat p), VStr (chars (status_name (status (pcb k p))) @ [0]), VStr (chars (pname (pcb k p)) @ [0])] s;
                   Some (Suc i, s1) } else Some (i, s));
          if 15 < i1 then screen_printks ''...\<newline>'' [] s1 else show_process_loop k n (Suc p) i1 s1 }"

definition show_process :: "kstate \<Rightarrow> screen_t \<Rightarrow> screen_t option" where
  "show_process k s =
     do { s1 \<leftarrow> screen_printks ''[Process Table]\<newline>'' [] s;
          s2 \<leftarrow> screen_printks ''       PID         STATUS                NAME\<newline>'' [] s1;
          show_process_loop k (MAX_TASK_NUM - 1) 1 0 s2 }"

text \<open>\<^verbatim>\<open>panic\<close> of \<^verbatim>\<open>libs/debug.c\<close> up to the endless loop it ends in.\<close>

definition panic_text :: "kstate \<Rightarrow> u8 list \<Rightarrow> screen_t \<Rightarrow> screen_t option" where
  "panic_text k msg s =
     do { let c = pcb k (current_running k);
          let x = user_regs_context c;
          s1 \<leftarrow> screen_clear 0 (int SCREEN_HEIGHT - 1) s;
          s2 \<leftarrow> vt100_move_cursor 1 1 s1;
          s3 \<leftarrow> printk ''* * * * * * * * PANIC * * * * * * * *\<newline>'' [] s2;
          s4 \<leftarrow> printk ''Error: %s\<newline>'' [VStr msg] s3;
          s5 \<leftarrow> printk ''Task: %s, Pid: %d\<newline>'' [VStr (chars (pname c) @ [0]), VInt (word_of_int (pid c))] s4;
          s6 \<leftarrow> printk ''STATUS:0x%08x, CAUSE:0x%08x\<newline>'' [VInt (cp0_status x), VInt (cp0_cause x)] s5;
          s7 \<leftarrow> printk ''EPC:0x%08x, BADVADDR:0x%08x\<newline>'' [VInt (cp0_epc x), VInt (cp0_badvaddr x)] s6;
          for_loop 16 (\<lambda>h. printk ''Reg%02d: 0x%08x, Reg%02d: 0x%08x\<newline>''
              [VInt (word_of_nat (2 * h)), VInt (regs x (2 * h)), VInt (word_of_nat (2 * h + 1)), VInt (regs x (2 * h + 1))]) s7 }"

section \<open>Commands\<close>

definition commend :: "string list" where
  "commend = [''ps'', ''clear'', ''exec'', ''kill'', ''mkfs'', ''statfs'', ''currdir'', ''mkdir'', ''rmdir'',
              ''ls'', ''cd'', ''touch'', ''cat'', ''run'']"

definition sys_clear :: "shell_env \<Rightarrow> int \<Rightarrow> int \<Rightarrow> system \<Rightarrow> system option" where
  "sys_clear e line1 line2 = screen_call e (D_clear line1 line2) (screen_clear line1 line2)"

definition sys_move_cursor :: "shell_env \<Rightarrow> int \<Rightarrow> int \<Rightarrow> system \<Rightarrow> system option" where
  "sys_move_cursor e x y = screen_call e (D_cursor x y) (\<lambda>s. Some (screen_move_cursor x y s))"

definition cmd_ps :: "shell_env \<Rightarrow> system \<Rightarrow> system option" where
  "cmd_ps e w = screen_call e D_show_process (show_process (sys_kern w)) w"

definition cmd_clear :: "shell_env \<Rightarrow> int \<Rightarrow> system \<Rightarrow> system option" where
  "cmd_clear e arg_int w =
     (if arg_int = 0 then do { w1 \<leftarrow> sys_clear e 15 27 w; sys_move_cursor e 0 15 w1 }
      else if arg_int = 1 then sys_clear e 0 13 w
      else do { w1 \<leftarrow> sys_clear e 0 13 w; w2 \<leftarrow> sys_clear e 15 27 w1; sys_move_cursor e 0 15 w2 })"

definition cmd_exec :: "shell_env \<Rightarrow> int \<Rightarrow> system \<Rightarrow> system option" where
  "cmd_exec e arg_int w =
     (if int (length (e_tests e)) < arg_int then printf e ''Error: too large index.\<newline>'' [] w
      else if arg_int < 1 then printf e ''Error: wrong index.\<newline>'' [] w
      else do { t \<leftarrow> arr_get (e_tests e) (arg_int - 1);
                (v, w1) \<leftarrow> do_trap e (Kern (C_spawn t)) None w;
                if v = 0 then printf e ''Error: too many tasks.\<newline>'' [] w1 else Some w1 })"

definition cmd_kill :: "shell_env \<Rightarrow> int \<Rightarrow> system \<Rightarrow> system option" where
  "cmd_kill e arg_int w =
     do { (v, w1) \<leftarrow> do_trap e (Kern (C_kill arg_int)) None w;
          if v = 0 then printf e ''Illegal pid.\<newline>'' [] w1 else Some w1 }"

definition cmd_mkfs :: "shell_env \<Rightarrow> system \<Rightarrow> system option" where
  "cmd_mkfs e w =
     do { w1 \<leftarrow> fs_call e F_mkfs (mkfs (e_junk e)) w; fs_call e F_mount (\<lambda>s. Some (mount s)) w1 }"

definition cmd_currdir :: "shell_env \<Rightarrow> system \<Rightarrow> system option" where
  "cmd_currdir e w =
     do { (_, w1) \<leftarrow> do_trap e (Fs F_get_dir_name) (Some (e_ptr e)) w;
          printf e ''%s\<newline>'' [VStr (get_curr_dir_name (sys_fs w1))] w1 }"

definition sys_fopen :: "shell_env \<Rightarrow> u8 list \<Rightarrow> u32 \<Rightarrow> system \<Rightarrow> (int \<times> system) option" where
  "sys_fopen e nm acc w =
     do { (v, s) \<leftarrow> fopen nm acc (sys_fs w);
          w1 \<leftarrow> fs_run e (F_fopen (e_ptr e) (uint acc)) (Some v) s w;
          Some (sint v, w1) }"

text \<open>\<^verbatim>\<open>sys_fread\<close> into \<open>buf\<close>: what was read replaces the start of the buffer.\<close>

definition sys_fread :: "shell_env \<Rightarrow> int \<Rightarrow> u8 list \<Rightarrow> u32 \<Rightarrow> system \<Rightarrow> (int \<times> u8 list \<times> system) option" where
  "sys_fread e fd buf n w =
     do { (v, bs, s) \<leftarrow> fread fd n (sys_fs w);
          w1 \<leftarrow> fs_run e (F_fread fd (e_ptr e) n) (Some v) s w;
          if length bs \<le> length buf then Some (sint v, bs @ drop (length bs) buf, w1) else None }"

partial_function (option) cat_loop :: "shell_env \<Rightarrow> int \<Rightarrow> u8 list \<Rightarrow> system \<Rightarrow> system option" where
  "cat_loop e fd buf w =
     do { (n, buf1, w1) \<leftarrow> sys_fread e fd buf 512 w;
          if n = 512 then do { w2 \<leftarrow> printf e ''%s'' [VStr buf1] w1; cat_loop e fd buf1 w2 }
          else do { buf2 \<leftarrow> arr_set buf1 n 0; printf e ''%s'' [VStr buf2] w1 } }"

definition cmd_cat :: "shell_env \<Rightarrow> u8 list \<Rightarrow> system \<Rightarrow> system option" where
  "cmd_cat e arg w =
     do { (fd, w1) \<leftarrow> sys_fopen e arg O_RD w;
          if fd = -1 then printf e ''Error: open file failed.\<newline>'' [] w1
          else do { buf \<leftarrow> arr_set (e_buf e) 512 0; cat_loop e fd buf w1 } }"

definition cmd_run :: "shell_env \<Rightarrow> u8 list \<Rightarrow> system \<Rightarrow> system option" where
  "cmd_run e arg w =
     do { (fd, w1) \<leftarrow> sys_fopen e arg O_RD w;
          if fd = -1 then printf e ''Error: no such executable file.\<newline>'' [] w1
          else do {
            (_, rb, w2) \<leftarrow> sys_fread e fd (run_buf w1) 2047 w1;
            let w3 = w2\<lparr>run_buf := rb\<rparr>;
            if take 4 rb \<noteq> [127, 69, 76, 70] then printf e ''Error: not a ELF file.\<newline>'' [] w3
            else do { (_, w4) \<leftarrow> do_trap e (Kern (C_spawn (e_run e))) None w3; Some w4 } } }"

text \<open>The switch of \<^verbatim>\<open>parse_commend\<close>; its default case calls \<^verbatim>\<open>panic\<close>, which does not return.\<close>

definition run_commend :: "shell_env \<Rightarrow> nat \<Rightarrow> u8 list \<Rightarrow> int \<Rightarrow> system \<Rightarrow> system option" where
  "run_commend e i arg_string arg_int w =
     (if i = 0 then cmd_ps e w
      else if i = 1 then cmd_clear e arg_int w
      else if i = 2 then cmd_exec e arg_int w
      else if i = 3 then cmd_kill e arg_int w
      else if i = 4 then cmd_mkfs e w
      else if i = 5 then fs_call e F_statfs statfs w
      else if i = 6 then cmd_currdir e w
      else if i = 7 then fs_call e (F_mkdir (e_ptr e)) (mkdir (e_junk e) arg_string) w
      else if i = 8 then fs_call e (F_rmdir (e_ptr e)) (rmdir arg_string) w
      else if i = 9 then fs_call e F_ls ls w
      else if i = 10 then fs_call e (F_cd (e_ptr e)) (cd arg_string) w
      else if i = 11 then fs_call e (F_touch (e_ptr e)) (touch arg_string) w
      else if i = 12 then cmd_cat e arg_string w
      else if i = 13 then cmd_run e arg_string w
      else None)"

text \<open>The loop that looks the command up, from index \<open>i\<close> on.\<close>

fun find_commend :: "string list \<Rightarrow> u8 list \<Rightarrow> nat \<Rightarrow> nat option option" where
  "find_commend [] s i = Some None"
| "find_commend (c # cs) s i = do { r \<leftarrow> strcmp (chars c @ [0]) s; if r = 0 then Some (Some i) else find_commend cs s (Suc i) }"

text \<open>
  \<^verbatim>\<open>input_buffer[separator_position] = '\0'\<close>: with no separator the position is -1 and the byte below the buffer
  is cleared. The argument is the buffer from behind the separator on; it is not initialised when the position
  is \<^verbatim>\<open>buffer_index\<close>. (\<^verbatim>\<open>cd\<close> of a path cuts the argument at its backslashes; those bytes are not read again.)
\<close>

definition cut_at :: "int \<Rightarrow> system \<Rightarrow> system option" where
  "cut_at p w =
     (if p = -1 then Some (w\<lparr>below_buffer := 0\<rparr>)
      else do { b \<leftarrow> arr_set (input_buffer w) p 0; Some (w\<lparr>input_buffer := b\<rparr>) })"

definition parse_commend :: "shell_env \<Rightarrow> system \<Rightarrow> system option" where
  "parse_commend e w =
     do { p \<leftarrow> separate (input_buffer w) 32;
          (w1, arg, arg_int) \<leftarrow>
            (if p \<noteq> buffer_index w
             then do { w1 \<leftarrow> cut_at p w;
                       let arg = drop (nat (p + 1)) (input_buffer w1);
                       a \<leftarrow> atoi arg;
                       Some (w1, arg, a) }
             else Some (w, [], 0));
          r \<leftarrow> find_commend commend (input_buffer w1) 0;
          case r of
            Some i \<Rightarrow> run_commend e i arg arg_int w1
          | None \<Rightarrow> if 0 < buffer_index w1 then printf e ''No such commend.\<newline>'' [] w1 else Some w1 }"

section \<open>The loop of the shell\<close>

definition prefix :: string where
  "prefix = ''> SBZeng@UCAS_OS: ''"

definition print_prefix :: "shell_env \<Rightarrow> system \<Rightarrow> system option" where
  "print_prefix e w = printf e ''%s'' [VStr (chars prefix @ [0])] w"

text \<open>What \<^verbatim>\<open>sw_shell\<close> does before its loop.\<close>

definition shell_start :: "shell_env \<Rightarrow> system \<Rightarrow> system option" where
  "shell_start e w =
     do { w1 \<leftarrow> sys_move_cursor e 0 14 w;
          w2 \<leftarrow> for_loop SCREEN_WIDTH (\<lambda>_. printf e ''-'' []) w1;
          w3 \<leftarrow> print_prefix e w2;
          n \<leftarrow> strlen (chars prefix @ [0]);
          Some (w3\<lparr>prefix_length := int n\<rparr>) }"

text \<open>The cases of the loop; the key \<open>c\<close> comes from the serial port.\<close>

definition put_buffer :: "int \<Rightarrow> u8 \<Rightarrow> system \<Rightarrow> system option" where
  "put_buffer i c w = do { b \<leftarrow> arr_set (input_buffer w) i c; Some (w\<lparr>input_buffer := b\<rparr>) }"

definition key_enter :: "shell_env \<Rightarrow> u8 \<Rightarrow> system \<Rightarrow> system option" where
  "key_enter e c w =
     do { w1 \<leftarrow> printf e ''%c'' [VInt (scast c)] w;
          w2 \<leftarrow> put_buffer (buffer_index w1) 0 w1;
          w3 \<leftarrow> parse_commend e w2;
          print_prefix e (w3\<lparr>buffer_index := 0\<rparr>) }"

definition key_erase :: "shell_env \<Rightarrow> u8 \<Rightarrow> system \<Rightarrow> system option" where
  "key_erase e c w =
     (if 0 < buffer_index w
      then do { w1 \<leftarrow> printf e ''%c'' [VInt (scast c)] w; Some (w1\<lparr>buffer_index := buffer_index w1 - 1\<rparr>) }
      else Some w)"

definition key_char :: "shell_env \<Rightarrow> u8 \<Rightarrow> system \<Rightarrow> system option" where
  "key_char e c w =
     do { w1 \<leftarrow> printf e ''%c'' [VInt (scast c)] w;
          w2 \<leftarrow> (if buffer_index w1 = int SCREEN_WIDTH - prefix_length w1
                 then do { w2 \<leftarrow> printf e ''No such commend.\<newline>'' [] (w1\<lparr>buffer_index := 0\<rparr>); print_prefix e w2 }
                 else Some w1);
          w3 \<leftarrow> put_buffer (buffer_index w2) c w2;
          Some (w3\<lparr>buffer_index := buffer_index w3 + 1\<rparr>) }"

definition shell_key :: "shell_env \<Rightarrow> u8 \<Rightarrow> system \<Rightarrow> system option" where
  "shell_key e c w =
     do { (_, w1) \<leftarrow> do_trap e (Dev D_read) (Some (ucast c)) w;
          if c = 0 then Some w1
          else if c = 10 \<or> c = 13 then key_enter e c w1
          else if c = 8 \<or> c = 127 then key_erase e c w1
          else key_char e c w1 }"

fun type_keys :: "shell_env \<Rightarrow> u8 list \<Rightarrow> system \<Rightarrow> system option" where
  "type_keys e [] w = Some w"
| "type_keys e (c # cs) w = do { w1 \<leftarrow> shell_key e c w; type_keys e cs w1 }"

end
