(* ===== verification/Shell_Spec.thy ===== *)
theory Shell_Spec
  imports Shell Fs_Spec Machine
begin

text \<open>
  Correctness of the shell: no sequence of keys makes it write outside its line buffer or off the screen, a typed line reaches
  the command it names with its argument, and a line typed at the prompt has the effect its command promises.
\<close>

section \<open>System calls of the shell\<close>

lemma current_running_upd [simp]: "current_running (upd_pcb s p f) = current_running s"
  by (simp add: upd_pcb_def)

lemma do_trap_other:
  assumes "syscall_args_ok c" "\<forall>k. c \<noteq> Kern k"
  shows "\<exists>r k. do_trap e c v w = Some (r, w\<lparr>sys_kern := k\<rparr>) \<and> current_running k = current_running (sys_kern w)"
proof -
  let ?s = "trap_enter (e_v0 e) (syscall_wrapper c) (sys_kern w)"
  have "trap_of ?s = syscall_wrapper c"
    by (simp add: trap_of_def trap_enter_def upd_pcb_def trap_regs_def)
  then have d: "decode_syscall (trap_of ?s) = Some c" using decode_syscall_wrapper[OF assms(1)] by simp
  have c: "current_running ?s = current_running (sys_kern w)" by (simp add: trap_enter_def)
  let ?k = "case v of None \<Rightarrow> advance_epc ?s | Some x \<Rightarrow> set_v0 (advance_epc ?s) (current_running (advance_epc ?s)) x"
  have "system_call_helper (e_mem e) v ?s = Some ?k"
    using assms(2) unfolding system_call_helper_def Let_def d by (cases c) auto
  moreover have "current_running ?k = current_running (sys_kern w)"
    using c by (simp add: advance_epc_def set_v0_def split: option.split)
  ultimately have "do_trap e c v w = Some (regs (user_regs_context (pcb ?k (current_running ?k))) 2, w\<lparr>sys_kern := ?k\<rparr>) \<and>
      current_running ?k = current_running (sys_kern w)" by (simp add: do_trap_def)
  then show ?thesis by blast
qed

lemma screen_call_ok:
  assumes "syscall_args_ok (Dev c)" and "f (sys_scr w) = Some s"
  shows "\<exists>k. screen_call e c f w = Some (w\<lparr>sys_kern := k, sys_scr := s\<rparr>)"
  using do_trap_other[OF assms(1), of e None w] assms(2) by (auto simp: screen_call_def)

text \<open>Printing changes the kernel's registers and the screen only.\<close>

lemma printf_ok:
  assumes "printf_text (chars fmt) va = Some t" "screen_ok (sys_scr w)"
  shows "\<exists>k s. printf e fmt va w = Some (w\<lparr>sys_kern := k, sys_scr := s\<rparr>) \<and> screen_ok s"
proof -
  obtain s where "screen_write (t @ [0]) (sys_scr w) = Some s" "screen_ok s"
    using screen_write_ok[OF assms(2), of "t @ [0]"] by (auto simp: terminated_def)
  then show ?thesis
    using screen_call_ok[of "D_write (e_ptr e)" "screen_write (t @ [0])" w s e] assms(1) by (auto simp: printf_def)
qed

lemma ucast_scast_u8: "ucast (scast (c :: u8) :: u32) = c"
proof (rule bit_word_eqI)
  fix n assume "n < LENGTH(8)"
  then show "bit (ucast (scast c :: u32) :: u8) n = bit c n" by (cases "n = 7") (simp_all add: bit_simps min_def)
qed

lemma text_char: "printf_text (chars ''%c'') [VInt (scast c)] = Some (cstr [c, 0])"
proof -
  have "rendering (chars ''%c'') [VInt (scast c)] = Some [c]"
    by (simp add: chars_def of_char_def rendering.simps field_def ucast_scast_u8)
  then show ?thesis using mini_vsnprintf_eq[of _ _ _ 256] by (simp add: printf_text_def)
qed

lemma text_literals:
  "printf_text (chars ''No such commend.\<newline>'') [] = Some (chars ''No such commend.\<newline>'')"
  "printf_text (chars ''%s'') [VStr (chars prefix @ [0])] = Some (chars prefix)"
  "printf_text (chars ''-'') [] = Some (chars ''-'')"
  "strlen (chars prefix @ [0]) = Some 18"
  by code_simp+

text \<open>A flush of any screen succeeds, printable or not.\<close>

lemma screen_reflush_total:
  assumes "screen_ok s"
  shows "\<exists>s'. screen_reflush s = Some s' \<and> screen_ok s'"
  unfolding screen_reflush_def
proof (rule for_loop_inv[where P = "\<lambda>_. screen_ok"])
  fix i s1 assume i: "i < SCREEN_HEIGHT" and s1: "screen_ok s1"
  show "\<exists>s'. for_loop SCREEN_WIDTH (reflush_cell i) s1 = Some s' \<and> screen_ok s'"
  proof (rule for_loop_inv[where P = "\<lambda>_. screen_ok"])
    fix j s2 assume j: "j < SCREEN_WIDTH" and s2: "screen_ok s2"
    have k: "i * 75 + j < 2100" using cell_less i j by simp
    have "vt100_move_cursor (int j + 1) (int i + 1) s2 = Some (s2\<lparr>port := port s2 @ move_bytes (j + 1) (i + 1)\<rparr>)"
      using vt100_move_cursor_eq[of "j + 1" "i + 1" s2] i j by (simp add: add.commute)
    then show "\<exists>s'. reflush_cell i j s2 = Some s' \<and> screen_ok s'"
      using s2 k unfolding reflush_cell_def cell_nat by (simp add: screen_ok_def port_write_ch_def del: of_nat_add of_nat_mult)
  qed (rule s1)
qed (rule assms)

lemma show_lines_total: "screen_ok s \<Longrightarrow> \<exists>s'. show_lines ms s = Some s' \<and> screen_ok s'"
proof (induction ms arbitrary: s)
  case (Cons m ms)
  obtain s1 where s1: "screen_write (chars m @ [0]) s = Some s1" "screen_ok s1"
    using screen_write_ok[OF Cons.prems, of "chars m @ [0]"] by (auto simp: terminated_def)
  obtain s2 where s2: "screen_reflush s1 = Some s2" "screen_ok s2" using screen_reflush_total[OF s1(2)] by blast
  show ?case using Cons.IH[OF s2(2)] s1(1) s2(1) by simp
qed simp

lemma fs_call_ok:
  assumes "syscall_args_ok (Fs c)" "f (sys_fs w) = Some s" "screen_ok (sys_scr w)"
  shows "\<exists>k scr. fs_call e c f w = Some (w\<lparr>sys_kern := k, sys_fs := s, sys_scr := scr\<rparr>) \<and> screen_ok scr"
proof -
  obtain scr where "show_lines (drop (length (console (sys_fs w))) (console s)) (sys_scr w) = Some scr" "screen_ok scr"
    using show_lines_total[OF assms(3)] by blast
  moreover obtain r k where "do_trap e (Fs c) None w = Some (r, w\<lparr>sys_kern := k\<rparr>)"
    using do_trap_other[OF assms(1), of e None w] by auto
  ultimately show ?thesis using assms(2) by (intro exI[of _ k] exI[of _ scr]) (simp add: fs_call_def fs_run_def)
qed

section \<open>The line buffer\<close>

definition shell_ok :: "system \<Rightarrow> bool" where
  "shell_ok w \<longleftrightarrow> screen_ok (sys_scr w) \<and> length (input_buffer w) = SCREEN_WIDTH \<and>
     0 \<le> buffer_index w \<and> buffer_index w \<le> 57 \<and> prefix_length w = 18"

text \<open>What typing keeps.\<close>

definition quiet :: "system \<Rightarrow> system \<Rightarrow> bool" where
  "quiet w w' \<longleftrightarrow> sys_fs w' = sys_fs w \<and> run_buf w' = run_buf w \<and> below_buffer w' = below_buffer w"

lemma quiet_refl [simp]: "quiet w w"
  by (simp add: quiet_def)

lemma quiet_trans: "quiet a b \<Longrightarrow> quiet b c \<Longrightarrow> quiet a c"
  by (simp add: quiet_def)

lemma print_prefix_ok:
  "screen_ok (sys_scr w) \<Longrightarrow> \<exists>k s. print_prefix e w = Some (w\<lparr>sys_kern := k, sys_scr := s\<rparr>) \<and> screen_ok s"
  unfolding print_prefix_def using text_literals(2) printf_ok by blast


lemma key_char_ok:
  assumes "shell_ok w"
  shows "\<exists>w'. key_char e c w = Some w' \<and> shell_ok w' \<and> quiet w w' \<and>
    (buffer_index w < 57 \<longrightarrow> buffer_index w' = buffer_index w + 1 \<and> input_buffer w' = (input_buffer w)[nat (buffer_index w) := c])"
proof -
  have W: "screen_ok (sys_scr w)" "length (input_buffer w) = 75" "0 \<le> buffer_index w" "buffer_index w \<le> 57" "prefix_length w = 18"
    using assms by (simp_all add: shell_ok_def)
  obtain k s where p: "printf e ''%c'' [VInt (scast c)] w = Some (w\<lparr>sys_kern := k, sys_scr := s\<rparr>)" "screen_ok s"
    using printf_ok[OF text_char W(1)] by blast
  let ?w1 = "w\<lparr>sys_kern := k, sys_scr := s\<rparr>"
  show ?thesis
  proof (cases "buffer_index w = 57")
    case True
    obtain k2 s2 where p2: "printf e ''No such commend.\<newline>'' [] (?w1\<lparr>buffer_index := 0\<rparr>) =
        Some (?w1\<lparr>buffer_index := 0, sys_kern := k2, sys_scr := s2\<rparr>)" "screen_ok s2"
      using printf_ok[OF text_literals(1), of "?w1\<lparr>buffer_index := 0\<rparr>" e] p(2) by auto
    let ?w2 = "?w1\<lparr>buffer_index := 0, sys_kern := k2, sys_scr := s2\<rparr>"
    obtain k3 s3 where p3: "print_prefix e ?w2 = Some (?w2\<lparr>sys_kern := k3, sys_scr := s3\<rparr>)" "screen_ok s3"
      using print_prefix_ok[of ?w2 e] p2(2) by auto
    show ?thesis
      using p p2 p3 W True by (simp add: key_char_def put_buffer_def arr_set_def shell_ok_def quiet_def)
  next
    case False
    then show ?thesis using p W by (simp add: key_char_def put_buffer_def arr_set_def shell_ok_def quiet_def)
  qed
qed

lemma key_erase_ok:
  assumes "shell_ok w"
  shows "\<exists>w'. key_erase e c w = Some w' \<and> shell_ok w' \<and> quiet w w'"
proof (cases "0 < buffer_index w")
  case True
  obtain k s where p: "printf e ''%c'' [VInt (scast c)] w = Some (w\<lparr>sys_kern := k, sys_scr := s\<rparr>)" "screen_ok s"
    using printf_ok[OF text_char] assms unfolding shell_ok_def by blast
  then show ?thesis using True assms by (simp add: key_erase_def shell_ok_def quiet_def)
next
  case False
  then show ?thesis using assms by (simp add: key_erase_def)
qed

lemma shell_key_read:
  "\<exists>k. shell_key e c w = (let w1 = w\<lparr>sys_kern := k\<rparr> in
     if c = 0 then Some w1 else if c = 10 \<or> c = 13 then key_enter e c w1
     else if c = 8 \<or> c = 127 then key_erase e c w1 else key_char e c w1)"
  using do_trap_other[of "Dev D_read" e "Some (ucast c)" w] by (auto simp: shell_key_def Let_def)

lemma shell_ok_kern [simp]: "shell_ok (w\<lparr>sys_kern := k\<rparr>) = shell_ok w"
  by (simp add: shell_ok_def)

lemma quiet_kern [simp]: "quiet (w\<lparr>sys_kern := k\<rparr>) w' = quiet w w'" "quiet w (w'\<lparr>sys_kern := k\<rparr>) = quiet w w'"
  by (simp_all add: quiet_def)

lemma shell_key_ok:
  assumes "shell_ok w" "c \<noteq> 10" "c \<noteq> 13"
  shows "\<exists>w'. shell_key e c w = Some w' \<and> shell_ok w' \<and> quiet w w'"
proof -
  obtain k where k: "shell_key e c w = (let w1 = w\<lparr>sys_kern := k\<rparr> in
     if c = 0 then Some w1 else if c = 10 \<or> c = 13 then key_enter e c w1
     else if c = 8 \<or> c = 127 then key_erase e c w1 else key_char e c w1)" using shell_key_read by blast
  have ok: "shell_ok (w\<lparr>sys_kern := k\<rparr>)" using assms(1) by simp
  show ?thesis
    using assms key_erase_ok[OF ok, of e c] key_char_ok[OF ok, of e c] unfolding k Let_def by auto
qed

lemma type_keys_ok:
  "shell_ok w \<Longrightarrow> \<forall>c\<in>set ks. c \<noteq> 10 \<and> c \<noteq> 13 \<Longrightarrow> \<exists>w'. type_keys e ks w = Some w' \<and> shell_ok w' \<and> quiet w w'"
proof (induction ks arbitrary: w)
  case (Cons c ks)
  obtain w1 where w1: "shell_key e c w = Some w1" "shell_ok w1" "quiet w w1"
    using shell_key_ok[OF Cons.prems(1), of c e] Cons.prems(2) by auto
  obtain w2 where w2: "type_keys e ks w1 = Some w2" "shell_ok w2" "quiet w1 w2"
    using Cons.IH[OF w1(2)] Cons.prems(2) by auto
  then show ?case using w1 quiet_trans by auto
qed simp

text \<open>The keys that stand for themselves.\<close>

definition plain_key :: "u8 \<Rightarrow> bool" where
  "plain_key c \<longleftrightarrow> c \<noteq> 0 \<and> c \<noteq> 10 \<and> c \<noteq> 13 \<and> c \<noteq> 8 \<and> c \<noteq> 127"

lemma shell_key_plain:
  assumes "shell_ok w" "plain_key c" "buffer_index w < 57"
  shows "\<exists>w'. shell_key e c w = Some w' \<and> shell_ok w' \<and> quiet w w' \<and>
    buffer_index w' = buffer_index w + 1 \<and> input_buffer w' = (input_buffer w)[nat (buffer_index w) := c]"
proof -
  obtain k where k: "shell_key e c w = key_char e c (w\<lparr>sys_kern := k\<rparr>)"
    using shell_key_read[of e c w] assms(2) by (auto simp: plain_key_def)
  have "shell_ok (w\<lparr>sys_kern := k\<rparr>)" using assms(1) by simp
  from key_char_ok[OF this, of e c] show ?thesis using assms(3) unfolding k by auto
qed

lemma type_line:
  "shell_ok w \<Longrightarrow> list_all plain_key ks \<Longrightarrow> buffer_index w = int n \<Longrightarrow> n + length ks \<le> 57 \<Longrightarrow>
   \<exists>w'. type_keys e ks w = Some w' \<and> shell_ok w' \<and> quiet w w' \<and> buffer_index w' = int (n + length ks) \<and>
     take (n + length ks) (input_buffer w') = take n (input_buffer w) @ ks"
proof (induction ks arbitrary: w n)
  case (Cons c ks)
  obtain w1 where w1: "shell_key e c w = Some w1" "shell_ok w1" "quiet w w1" "buffer_index w1 = int (Suc n)"
      "input_buffer w1 = (input_buffer w)[n := c]"
    using shell_key_plain[OF Cons.prems(1), of c e] Cons.prems(2-4) by auto
  obtain w2 where w2: "type_keys e ks w1 = Some w2" "shell_ok w2" "quiet w1 w2" "buffer_index w2 = int (Suc n + length ks)"
      "take (Suc n + length ks) (input_buffer w2) = take (Suc n) (input_buffer w1) @ ks"
    using Cons.IH[OF w1(2) _ w1(4)] Cons.prems(2,4) by auto
  have "n < length (input_buffer w)" using Cons.prems(1,4) by (simp add: shell_ok_def)
  then have "take (Suc n) (input_buffer w1) = take n (input_buffer w) @ [c]"
    unfolding w1(5) by (simp add: take_Suc_conv_app_nth)
  then show ?case using w1 w2 quiet_trans by auto
qed simp

section \<open>From the line to the command\<close>

lemma find_commend_hit:
  assumes "terminated s" "i < length cs" "chars (cs ! i) = cstr s" "\<forall>c\<in>set cs. 0 \<notin> set (chars c)" "distinct (map chars cs)"
  shows "find_commend cs s k = Some (Some (k + i))"
  using assms(2-)
proof (induction cs arbitrary: i k)
  case (Cons c cs)
  have "0 \<notin> set (chars c)" using Cons.prems(3) by simp
  then have c: "cstr (chars c @ [0]) = chars c" using cstr_append[of "chars c" "[]"] by simp
  obtain r where r: "strcmp (chars c @ [0]) s = Some r" "r = 0 \<longleftrightarrow> chars c = cstr s"
    using strcmp_total[of "chars c @ [0]" s] assms(1) c by (auto simp: terminated_def)
  show ?case
  proof (cases i)
    case 0
    then show ?thesis using r Cons.prems(2) by simp
  next
    case (Suc j)
    have "chars c \<noteq> chars (cs ! j)" using Cons.prems(1,4) Suc by (metis distinct.simps(2) length_Cons list.simps(9) nth_map nth_mem Suc_less_eq length_map)
    then have "r \<noteq> 0" using r(2) Cons.prems(2) Suc by simp
    moreover have "find_commend cs s (Suc k) = Some (Some (Suc k + j))"
      by (rule Cons.IH) (use Cons.prems Suc in simp_all)
    ultimately show ?thesis using r(1) Suc by simp
  qed
qed simp

lemma commend_facts: "length commend = 14" "distinct (map chars commend)" "\<forall>c\<in>set commend. 0 \<notin> set (chars c) \<and> 32 \<notin> set (chars c)"
  by code_simp+

lemma atoi_total: "terminated s \<Longrightarrow> \<exists>a. atoi s = Some a"
proof -
  have "terminated s \<Longrightarrow> \<exists>a. atoi_loop s r = Some a" for r by (induction s arbitrary: r) auto
  then show "terminated s \<Longrightarrow> ?thesis" by (simp add: atoi_def)
qed

text \<open>
  \<^verbatim>\<open>parse_commend\<close> on the line \<open>cmd arg\<close>, and on a line without a separator, where it clears the byte below the buffer
  and takes the whole line as argument.
\<close>

lemma parse_commend_arg:
  assumes i: "i < 14" and b: "input_buffer w = chars (commend ! i) @ 32 # arg @ 0 # r" and arg: "0 \<notin> set arg"
    and n: "buffer_index w = int (length (chars (commend ! i)) + 1 + length arg)"
  shows "\<exists>a. atoi (arg @ 0 # r) = Some a \<and>
    parse_commend e w = run_commend e i (arg @ 0 # r) a (w\<lparr>input_buffer := chars (commend ! i) @ 0 # arg @ 0 # r\<rparr>)"
proof -
  let ?c = "chars (commend ! i)"
  have c: "0 \<notin> set ?c" "32 \<notin> set ?c" using commend_facts i by (auto simp: list_all_iff)
  obtain a where a: "atoi (arg @ 0 # r) = Some a" using atoi_total[of "arg @ 0 # r"] by (auto simp: terminated_def)
  have cs: "cstr (?c @ 32 # arg @ 0 # r) = ?c @ 32 # arg" using cstr_append[of "?c @ 32 # arg" r] c arg by simp
  have sp: "separate (input_buffer w) 32 = Some (int (length ?c))"
  proof -
    have "takeWhile (\<lambda>x. x \<noteq> 32) (?c @ 32 # arg) = ?c" using c(2) by (subst takeWhile_append2) auto
    then show ?thesis unfolding b using separate_eq[of "?c @ 32 # arg @ 0 # r" 32] cs by (simp add: terminated_def)
  qed
  have cut: "cut_at (int (length ?c)) w = Some (w\<lparr>input_buffer := ?c @ 0 # arg @ 0 # r\<rparr>)"
    by (simp add: cut_at_def b arr_set_def)
  have f: "find_commend commend (?c @ 0 # arg @ 0 # r) 0 = Some (Some i)"
    using find_commend_hit[of "?c @ 0 # arg @ 0 # r" i commend 0] commend_facts i cstr_append[OF c(1), of "arg @ 0 # r"]
    by (simp add: terminated_def)
  have d: "nat (int (length ?c) + 1) = Suc (length ?c)" by simp
  show ?thesis using a n f unfolding parse_commend_def sp by (simp add: cut d Let_def)
qed

lemma parse_commend_bare:
  assumes i: "i < 14" and b: "input_buffer w = chars (commend ! i) @ 0 # r"
    and n: "buffer_index w = int (length (chars (commend ! i)))"
  shows "\<exists>a. parse_commend e w = run_commend e i (chars (commend ! i) @ 0 # r) a (w\<lparr>below_buffer := 0\<rparr>)"
proof -
  let ?c = "chars (commend ! i)"
  have c: "0 \<notin> set ?c" "32 \<notin> set ?c" using commend_facts i by (auto simp: list_all_iff)
  have t: "terminated (?c @ 0 # r)" "cstr (?c @ 0 # r) = ?c" using cstr_append[OF c(1)] by (simp_all add: terminated_def)
  obtain a where a: "atoi (?c @ 0 # r) = Some a" using atoi_total[OF t(1)] by blast
  have sp: "separate (input_buffer w) 32 = Some (-1)" unfolding b using separate_eq[OF t(1), of 32] t(2) c(2) by simp
  have f: "find_commend commend (?c @ 0 # r) 0 = Some (Some i)"
    using find_commend_hit[OF t(1), of i commend 0] commend_facts i t(2) by simp
  have "parse_commend e w = run_commend e i (?c @ 0 # r) a (w\<lparr>below_buffer := 0\<rparr>)"
    using a n f b unfolding parse_commend_def sp by (simp add: cut_at_def)
  then show ?thesis by blast
qed

lemma enter_line:
  assumes "shell_ok w" "buffer_index w = int n" "take n (input_buffer w) = line"
  shows "\<exists>k s r. screen_ok s \<and> length (line @ 0 # r) = SCREEN_WIDTH \<and>
    key_enter e 10 w = do { w3 \<leftarrow> parse_commend e (w\<lparr>sys_kern := k, sys_scr := s, input_buffer := line @ 0 # r\<rparr>);
                            print_prefix e (w3\<lparr>buffer_index := 0\<rparr>) }"
proof -
  have W: "screen_ok (sys_scr w)" "length (input_buffer w) = 75" "n \<le> 57"
    using assms(1,2) by (simp_all add: shell_ok_def)
  obtain k s where p: "printf e ''%c'' [VInt (scast (10 :: u8))] w = Some (w\<lparr>sys_kern := k, sys_scr := s\<rparr>)" "screen_ok s"
    using printf_ok[OF text_char[of 10] W(1)] by blast
  have l: "(input_buffer w)[n := 0] = line @ 0 # drop (Suc n) (input_buffer w)"
    using W(2,3) assms(3) by (simp add: upd_conv_take_nth_drop)
  have "length (line @ 0 # drop (Suc n) (input_buffer w)) = 75" unfolding l[symmetric] using W(2) by simp
  moreover have "put_buffer (buffer_index w) 0 (w\<lparr>sys_kern := k, sys_scr := s\<rparr>) =
      Some (w\<lparr>sys_kern := k, sys_scr := s, input_buffer := line @ 0 # drop (Suc n) (input_buffer w)\<rparr>)"
    using W(2,3) assms(2) l by (simp add: put_buffer_def arr_set_def)
  ultimately show ?thesis
    using p by (intro exI[of _ k] exI[of _ s] exI[of _ "drop (Suc n) (input_buffer w)"]) (simp add: key_enter_def)
qed

lemma typed_command:
  assumes ok: "shell_ok w" "buffer_index w = 0" and i: "i < 14" and arg: "list_all plain_key arg"
    and len: "length (chars (commend ! i)) + length arg < 57"
  shows "\<exists>w2 rest a. shell_ok w2 \<and> sys_fs w2 = sys_fs w \<and> atoi (arg @ 0 # rest) = Some a \<and>
    type_keys e (chars (commend ! i) @ 32 # arg @ [10]) w =
      do { w3 \<leftarrow> run_commend e i (arg @ 0 # rest) a w2; print_prefix e (w3\<lparr>buffer_index := 0\<rparr>) }"
proof -
  let ?line = "chars (commend ! i) @ 32 # arg"
  have "list_all (\<lambda>c. list_all plain_key (chars c)) commend" by code_simp
  then have "list_all plain_key (chars (commend ! i))" using i commend_facts(1) by (simp add: list_all_length[of _ commend])
  then have "list_all plain_key ?line" using arg by (simp add: plain_key_def)
  from type_line[OF ok(1) this, of 0 e] obtain w1 where w1: "type_keys e ?line w = Some w1" "shell_ok w1" "quiet w w1"
      "buffer_index w1 = int (length ?line)" "take (length ?line) (input_buffer w1) = ?line"
    using ok(2) len by auto
  obtain k where k: "shell_key e 10 w1 = key_enter e 10 (w1\<lparr>sys_kern := k\<rparr>)"
    using shell_key_read[of e 10 w1] by auto
  have "shell_ok (w1\<lparr>sys_kern := k\<rparr>)" using w1(2) by simp
  from enter_line[OF this, of "length ?line" ?line e] obtain k2 s r where E: "screen_ok s" "length (?line @ 0 # r) = SCREEN_WIDTH"
      "shell_key e 10 w1 = do { w3 \<leftarrow> parse_commend e (w1\<lparr>sys_kern := k2, sys_scr := s, input_buffer := ?line @ 0 # r\<rparr>);
                            print_prefix e (w3\<lparr>buffer_index := 0\<rparr>) }"
    using w1(4,5) unfolding k by auto
  let ?w = "w1\<lparr>sys_kern := k2, sys_scr := s, input_buffer := ?line @ 0 # r\<rparr>"
  have z: "0 \<notin> set arg" using arg by (auto simp: list_all_iff plain_key_def)
  have "\<exists>a. atoi (arg @ 0 # r) = Some a \<and>
    parse_commend e ?w = run_commend e i (arg @ 0 # r) a (?w\<lparr>input_buffer := chars (commend ! i) @ 0 # arg @ 0 # r\<rparr>)"
    by (rule parse_commend_arg[OF i _ z]) (use w1(4) in simp_all)
  then obtain a where a: "atoi (arg @ 0 # r) = Some a"
      "parse_commend e ?w = run_commend e i (arg @ 0 # r) a (?w\<lparr>input_buffer := chars (commend ! i) @ 0 # arg @ 0 # r\<rparr>)" by blast
  let ?w2 = "?w\<lparr>input_buffer := chars (commend ! i) @ 0 # arg @ 0 # r\<rparr>"
  have tk: "type_keys e (xs @ ys) w = type_keys e xs w \<bind> type_keys e ys" for xs ys w
    by (induction xs arbitrary: w) (auto split: bind_split)
  have "type_keys e (?line @ [10]) w = shell_key e 10 w1"
    using tk[of ?line "[10]" w] w1(1) by (simp split: bind_split)
  then have "type_keys e (chars (commend ! i) @ 32 # arg @ [10]) w =
      do { w3 \<leftarrow> run_commend e i (arg @ 0 # r) a ?w2; print_prefix e (w3\<lparr>buffer_index := 0\<rparr>) }"
    unfolding E(3) a(2) by simp
  moreover have "shell_ok ?w2" using w1(2,4) E(1,2) len by (simp add: shell_ok_def)
  moreover have "sys_fs ?w2 = sys_fs w" using w1(3) by (simp add: quiet_def)
  ultimately show ?thesis using a(1) by blast
qed

section \<open>Properties\<close>

text \<open>A shell at its prompt on a blank screen.\<close>

definition prompt :: "fs_state \<Rightarrow> system" where
  "prompt f = \<lparr>sys_kern = bss, sys_fs = f, sys_scr = blank_screen, input_buffer = replicate 75 0, below_buffer = 0,
     buffer_index = 0, prefix_length = 18, run_buf = replicate 2047 0\<rparr>"

definition demo_env :: shell_env where
  "demo_env = \<lparr>e_mem = \<lparr>obj_at = (\<lambda>_. 0), task_at = (\<lambda>_. \<lparr>entry_point = 0, ti_type = USER_PROCESS, ti_priority = 1, ti_name = ''t''\<rparr>)\<rparr>,
     e_tests = [], e_run = 0, e_ptr = 0, e_v0 = 0, e_junk = zero_junk, e_buf = replicate 513 0\<rparr>"

lemma prompt_ok: "shell_ok (prompt f)" "buffer_index (prompt f) = 0" "sys_fs (prompt f) = f"
  using blank_screen_ok(1) by (simp_all add: shell_ok_def prompt_def)

text \<open>C34. Nothing that is typed before Enter makes the shell fail: whatever the keys, control characters and lines of
  any length included, the shell writes inside its 75-byte line buffer, keeps the index between 0 and 57 and the
  cursor on the screen, and touches no file.\<close>

theorem shell_typing_safe:
  assumes "shell_ok w" and "\<forall>c\<in>set ks. c \<noteq> 10 \<and> c \<noteq> 13"
  shows "\<exists>w'. type_keys e ks w = Some w' \<and> shell_ok w' \<and> sys_fs w' = sys_fs w"
  using type_keys_ok[OF assms, of e] by (auto simp: quiet_def)

theorem shell_typing_safe_witness:
  "\<exists>w'. type_keys demo_env (replicate 200 97 @ [8, 27]) (prompt (blank_fs [])) = Some w' \<and> shell_ok w'"
  using shell_typing_safe[OF prompt_ok(1), of "replicate 200 97 @ [8, 27]" demo_env "blank_fs []"] by auto

text \<open>C33. Typing \<^verbatim>\<open>touch\<close>, a new name and Enter creates the file: keys, line buffer, command table, system call and file
  system together take the name to an empty file in the current directory, and the shell is back at its prompt.\<close>

theorem shell_touch:
  assumes ok: "shell_ok w" "buffer_index w = 0" and fs: "fs_ok (sys_fs w)" "room (sys_fs w)" "\<exists>n<4096. \<not> ino_used (sys_fs w) n"
    and nm: "list_all plain_key nm" "length nm \<le> MAX_NAME_LENTH" "lookup (sys_fs w) nm = None"
  shows "\<exists>w' n. type_keys e (chars ''touch '' @ nm @ [10]) w = Some w' \<and> shell_ok w' \<and> buffer_index w' = 0 \<and>
    fs_ok (sys_fs w') \<and> lookup (sys_fs w') = (lookup (sys_fs w))(nm \<mapsto> word_of_nat n) \<and> \<not> ino_used (sys_fs w) n \<and>
    i_type (inode_at (sys_fs w') n) = FILE_NORMAL \<and> i_size (inode_at (sys_fs w') n) = 0"
proof -
  have c: "commend ! 11 = ''touch''" "chars ''touch '' = chars ''touch'' @ [32]" "length (chars ''touch'') = 5" by code_simp+
  have "\<exists>w2 rest a. shell_ok w2 \<and> sys_fs w2 = sys_fs w \<and> atoi (nm @ 0 # rest) = Some a \<and>
    type_keys e (chars (commend ! 11) @ 32 # nm @ [10]) w =
      do { w3 \<leftarrow> run_commend e 11 (nm @ 0 # rest) a w2; print_prefix e (w3\<lparr>buffer_index := 0\<rparr>) }"
    by (rule typed_command[OF ok]) (use nm c in simp_all)
  then obtain w2 rest a where t: "shell_ok w2" "sys_fs w2 = sys_fs w" "type_keys e (chars ''touch '' @ nm @ [10]) w =
      do { w3 \<leftarrow> run_commend e 11 (nm @ 0 # rest) a w2; print_prefix e (w3\<lparr>buffer_index := 0\<rparr>) }"
    unfolding c by auto
  have "0 \<notin> set nm" using nm(1) by (auto simp: list_all_iff plain_key_def)
  then have n: "cstr (nm @ 0 # rest) = nm" "name_ok (nm @ 0 # rest)"
    using cstr_append[of nm rest] nm(2) by (simp_all add: name_ok_def terminated_def)
  obtain n s where s: "touch (nm @ 0 # rest) (sys_fs w) = Some s" "\<not> ino_used (sys_fs w) n" "fs_ok s"
      "lookup s = (lookup (sys_fs w))(nm \<mapsto> word_of_nat n)" "i_type (inode_at s n) = FILE_NORMAL" "i_size (inode_at s n) = 0"
    using touch_ok[OF fs(1) n(2) _ fs(2,3)] n(1) nm(3) by auto
  obtain k scr where r: "run_commend e 11 (nm @ 0 # rest) a w2 = Some (w2\<lparr>sys_kern := k, sys_fs := s, sys_scr := scr\<rparr>)" "screen_ok scr"
    using fs_call_ok[of "F_touch (e_ptr e)" "touch (nm @ 0 # rest)" w2 s e] s(1) t(1,2) by (auto simp: run_commend_def shell_ok_def)
  obtain k2 scr2 where p: "print_prefix e (w2\<lparr>sys_kern := k, sys_fs := s, sys_scr := scr, buffer_index := 0\<rparr>) =
      Some (w2\<lparr>sys_fs := s, buffer_index := 0, sys_kern := k2, sys_scr := scr2\<rparr>)" "screen_ok scr2"
    using print_prefix_ok[of "w2\<lparr>sys_kern := k, sys_fs := s, sys_scr := scr, buffer_index := 0\<rparr>" e] r(2) by auto
  let ?w = "w2\<lparr>sys_fs := s, buffer_index := 0, sys_kern := k2, sys_scr := scr2\<rparr>"
  have "type_keys e (chars ''touch '' @ nm @ [10]) w = Some ?w" unfolding t(3) r(1) using p(1) by simp
  moreover have "shell_ok ?w" using t(1) p(2) by (simp add: shell_ok_def)
  ultimately show ?thesis using s(2-6) by (intro exI[of _ ?w] exI[of _ n]) simp
qed

theorem shell_touch_witness:
  "\<exists>f w' n. fresh f \<and> type_keys demo_env (chars ''touch '' @ [97] @ [10]) (prompt f) = Some w' \<and>
     lookup (sys_fs w') [97] = Some (word_of_nat n) \<and> i_size (inode_at (sys_fs w') n) = 0"
proof -
  obtain f where f: "fresh f" using ex_fresh by blast
  have "list_all plain_key [97]" by (simp add: plain_key_def)
  from shell_touch[OF prompt_ok(1,2) _ _ _ this, of f demo_env] f fresh_room[OF f] prompt_ok(3)[of f] show ?thesis by fastforce
qed

end
