(* ===== verification/Mailbox.thy ===== *)
theory Mailbox
  imports CString
begin

text \<open>
  The mailboxes of \<^verbatim>\<open>libs/mailbox.c\<close>, a library of user tasks: a table of named ring buffers of bytes under one
  lock. A call runs under the lock until it returns or waits on a condition; after the wait the
  code tests the same condition again, so that a call that has to wait is represented by the part of the
  message that is still to be transferred. The calls to locks and conditions are recorded in the order they are made. The name of a
  mailbox is a pointer of the caller, here the bytes it points to. The specification is a queue of bytes.
\<close>

section \<open>Operations\<close>

abbreviation MAX_BOX_NUM :: nat where "MAX_BOX_NUM \<equiv> 8"
abbreviation MAX_BUFFER_SIZE :: nat where "MAX_BUFFER_SIZE \<equiv> 256"

record mailbox_t =
  mb_valid :: int
  mb_name :: "u8 list"
  user_num :: int
  data_buffer :: "u8 list"
  mb_head :: int
  mb_tail :: int

text \<open>The calls of the library to the kernel; a mailbox is its index.\<close>

datatype mcall = Lock_init | Lock_acquire | Lock_release | Cond_init_empty nat | Cond_init_full nat
  | Wait_full | Wait_empty | Signal_full | Signal_empty

definition mbox_init :: "mailbox_t list \<Rightarrow> (mailbox_t list \<times> mcall list) option" where
  "mbox_init mboxs =
     do { bs \<leftarrow> for_loop MAX_BOX_NUM (\<lambda>i bs. do { b \<leftarrow> arr_get bs (int i); arr_set bs (int i) (b\<lparr>mb_valid := 0\<rparr>) }) mboxs;
          Some (bs, [Lock_init]) }"

text \<open>The two loops of \<^verbatim>\<open>mbox_open\<close>: the valid mailbox with the name, and the first one that is free.\<close>

fun find_box :: "mailbox_t list \<Rightarrow> u8 list \<Rightarrow> nat \<Rightarrow> nat option option" where
  "find_box [] name i = Some None"
| "find_box (b # bs) name i =
     (if mb_valid b = 0 then find_box bs name (Suc i)
      else do { r \<leftarrow> strcmp (mb_name b) name; if r = 0 then Some (Some i) else find_box bs name (Suc i) })"

fun free_box :: "mailbox_t list \<Rightarrow> nat \<Rightarrow> nat" where
  "free_box [] i = i"
| "free_box (b # bs) i = (if mb_valid b \<noteq> 0 then free_box bs (Suc i) else i)"

definition mbox_open :: "u8 list \<Rightarrow> mailbox_t list \<Rightarrow> (nat option \<times> mailbox_t list \<times> mcall list) option" where
  "mbox_open name mboxs =
     do { f \<leftarrow> find_box mboxs name 0;
          case f of
            Some i \<Rightarrow> Some (Some i, mboxs[i := (mboxs ! i)\<lparr>user_num := user_num (mboxs ! i) + 1\<rparr>], [Lock_acquire, Lock_release])
          | None \<Rightarrow>
              (let i = free_box mboxs 0
               in if i = MAX_BOX_NUM then Some (None, mboxs, [Lock_acquire, Lock_release])
                  else Some (Some i, mboxs[i := (mboxs ! i)\<lparr>mb_valid := 1, mb_name := name, user_num := 1, mb_head := 0, mb_tail := 0\<rparr>],
                             [Lock_acquire, Cond_init_empty i, Cond_init_full i, Lock_release])) }"

definition mbox_close :: "mailbox_t \<Rightarrow> mailbox_t \<times> mcall list" where
  "mbox_close mailbox =
     (let m = mailbox\<lparr>user_num := user_num mailbox - 1\<rparr>
      in (if user_num m = 0 then m\<lparr>mb_valid := 0\<rparr> else m, [Lock_acquire, Lock_release]))"

text \<open>
  \<^verbatim>\<open>mbox_send\<close> from inside its loop: the rest of the message is returned with the mailbox, and is empty when the
  call has returned. With \<^verbatim>\<open>msg_length\<close> not positive nothing is sent.
\<close>

fun send_loop :: "mailbox_t \<Rightarrow> u8 list \<Rightarrow> (mailbox_t \<times> u8 list \<times> mcall list) option" where
  "send_loop m [] = Some (m, [], [Lock_release])"
| "send_loop m (c # msg) =
     (if mb_head m = mb_tail m + 1 then Some (m, c # msg, [Wait_full])
      else do { b \<leftarrow> arr_set (data_buffer m) (mb_tail m) c;
                (m', r, cs) \<leftarrow> send_loop (m\<lparr>data_buffer := b, mb_tail := (mb_tail m + 1) mod int MAX_BUFFER_SIZE\<rparr>) msg;
                Some (m', r, Signal_empty # cs) })"

definition mbox_send :: "mailbox_t \<Rightarrow> u8 list \<Rightarrow> int \<Rightarrow> (mailbox_t \<times> u8 list \<times> mcall list) option" where
  "mbox_send mailbox msg msg_length =
     (if int (length msg) < msg_length then None
      else do { (m, r, cs) \<leftarrow> send_loop mailbox (take (nat msg_length) msg); Some (m, r, Lock_acquire # cs) })"

text \<open>\<^verbatim>\<open>mbox_recv\<close>: \<open>n\<close> bytes are still to be received; those received are returned.\<close>

fun recv_loop :: "mailbox_t \<Rightarrow> nat \<Rightarrow> (mailbox_t \<times> u8 list \<times> nat \<times> mcall list) option" where
  "recv_loop m 0 = Some (m, [], 0, [Lock_release])"
| "recv_loop m (Suc n) =
     (if mb_head m = mb_tail m then Some (m, [], Suc n, [Wait_empty])
      else do { c \<leftarrow> arr_get (data_buffer m) (mb_head m);
                (m', bs, k, cs) \<leftarrow> recv_loop (m\<lparr>mb_head := (mb_head m + 1) mod int MAX_BUFFER_SIZE\<rparr>) n;
                Some (m', c # bs, k, Signal_full # cs) })"

definition mbox_recv :: "mailbox_t \<Rightarrow> int \<Rightarrow> (mailbox_t \<times> u8 list \<times> nat \<times> mcall list) option" where
  "mbox_recv mailbox msg_length =
     do { (m, bs, k, cs) \<leftarrow> recv_loop mailbox (nat msg_length); Some (m, bs, k, Lock_acquire # cs) }"

section \<open>The queue of a mailbox\<close>

definition mb_ok :: "mailbox_t \<Rightarrow> bool" where
  "mb_ok m \<longleftrightarrow> length (data_buffer m) = MAX_BUFFER_SIZE \<and> 0 \<le> mb_head m \<and> mb_head m < 256 \<and> 0 \<le> mb_tail m \<and> mb_tail m < 256"

definition count :: "mailbox_t \<Rightarrow> nat" where
  "count m = nat (if mb_head m \<le> mb_tail m then mb_tail m - mb_head m else 256 + mb_tail m - mb_head m)"

definition contents :: "mailbox_t \<Rightarrow> u8 list" where
  "contents m = map (\<lambda>i. data_buffer m ! ((nat (mb_head m) + i) mod 256)) [0..<count m]"

lemma length_contents [simp]: "length (contents m) = count m"
  by (simp add: contents_def)

lemma count_less: "mb_ok m \<Longrightarrow> count m < 256"
  by (simp add: count_def mb_ok_def nat_less_iff)

lemma count_0: "mb_ok m \<Longrightarrow> count m = 0 \<longleftrightarrow> mb_head m = mb_tail m"
  by (auto simp: mb_ok_def count_def)

lemma mod_256: "k < 512 \<Longrightarrow> k mod 256 = (if k < 256 then k else k - 256)" for k :: nat
  by (simp add: mod_if)

lemma tail_pos: "mb_ok m \<Longrightarrow> i \<le> count m \<Longrightarrow> (nat (mb_head m) + i) mod 256 = nat (mb_tail m) \<longleftrightarrow> i = count m"
  using mod_256[of "nat (mb_head m) + i"] count_less[of m] by (auto simp: mb_ok_def count_def split: if_splits)

text \<open>The test of the code finds the ring full unless its head is at the start of the array.\<close>

lemma full_iff: "mb_ok m \<Longrightarrow> mb_head m = mb_tail m + 1 \<longleftrightarrow> count m = 255 \<and> mb_head m \<noteq> 0"
  by (auto simp: mb_ok_def count_def split: if_splits)

lemma send_step:
  fixes c :: u8
  assumes ok: "mb_ok m" and n: "count m < 255"
  defines "m' \<equiv> m\<lparr>data_buffer := (data_buffer m)[nat (mb_tail m) := c], mb_tail := (mb_tail m + 1) mod int MAX_BUFFER_SIZE\<rparr>"
  shows "mb_ok m'" "count m' = Suc (count m)" "contents m' = contents m @ [c]"
    "arr_set (data_buffer m) (mb_tail m) c = Some ((data_buffer m)[nat (mb_tail m) := c])"
proof -
  have t: "(mb_tail m + 1) mod 256 = (if mb_tail m = 255 then 0 else mb_tail m + 1)" using ok by (simp add: mb_ok_def)
  show "mb_ok m'" using ok t by (auto simp: mb_ok_def m'_def)
  show cn: "count m' = Suc (count m)" using ok n t by (auto simp: count_def m'_def mb_ok_def split: if_splits)
  have l: "length (data_buffer m) = 256" using ok by (simp add: mb_ok_def)
  show "contents m' = contents m @ [c]"
  proof (rule nth_equalityI)
    fix i assume "i < length (contents m')"
    then have i: "i \<le> count m" using cn by simp
    have "(nat (mb_head m) + i) mod 256 < 256" by simp
    then show "contents m' ! i = (contents m @ [c]) ! i"
      using i cn tail_pos[OF ok i] l by (auto simp: contents_def m'_def nth_append nth_list_update)
  qed (simp add: cn)
  show "arr_set (data_buffer m) (mb_tail m) c = Some ((data_buffer m)[nat (mb_tail m) := c])"
    using ok arr_set_nat[of "nat (mb_tail m)" "data_buffer m" c] by (simp add: mb_ok_def nat_less_iff)
qed

lemma send_loop_queue:
  "mb_ok m \<Longrightarrow> count m + length msg \<le> 255 \<Longrightarrow>
   \<exists>m'. send_loop m msg = Some (m', [], replicate (length msg) Signal_empty @ [Lock_release]) \<and> mb_ok m' \<and> contents m' = contents m @ msg \<and>
     mb_name m' = mb_name m \<and> mb_valid m' = mb_valid m \<and> user_num m' = user_num m"
proof (induction msg arbitrary: m)
  case Nil
  then show ?case by simp
next
  case (Cons c msg)
  then have n: "count m < 255" by simp
  then have nf: "mb_head m \<noteq> mb_tail m + 1" using full_iff[OF Cons.prems(1)] by simp
  let ?m = "m\<lparr>data_buffer := (data_buffer m)[nat (mb_tail m) := c], mb_tail := (mb_tail m + 1) mod int MAX_BUFFER_SIZE\<rparr>"
  note S = send_step[OF Cons.prems(1) n, of c]
  have "count ?m + length msg \<le> 255" using S(2) Cons.prems(2) by simp
  from Cons.IH[OF S(1) this] S(3,4) nf show ?case by auto
qed

lemma recv_step:
  assumes ok: "mb_ok m" and n: "contents m = c # cs"
  shows "mb_ok (m\<lparr>mb_head := (mb_head m + 1) mod int MAX_BUFFER_SIZE\<rparr>)"
    "contents (m\<lparr>mb_head := (mb_head m + 1) mod int MAX_BUFFER_SIZE\<rparr>) = cs"
    "arr_get (data_buffer m) (mb_head m) = Some c" "mb_head m \<noteq> mb_tail m"
proof -
  let ?m = "m\<lparr>mb_head := (mb_head m + 1) mod int MAX_BUFFER_SIZE\<rparr>"
  have h: "(mb_head m + 1) mod 256 = (if mb_head m = 255 then 0 else mb_head m + 1)" using ok by (simp add: mb_ok_def)
  show "mb_ok ?m" using ok h by (auto simp: mb_ok_def)
  have k: "count m = Suc (length cs)" using arg_cong[OF n, of length] by simp
  then show "mb_head m \<noteq> mb_tail m" using count_0[OF ok] by simp
  have cn: "count ?m = length cs" using ok k h by (auto simp: count_def mb_ok_def split: if_splits)
  have e: "contents m ! i = data_buffer m ! ((nat (mb_head m) + i) mod 256)" if "i < count m" for i using that by (simp add: contents_def)
  show "contents ?m = cs"
  proof (rule nth_equalityI)
    fix i assume "i < length (contents ?m)"
    then have i: "i < length cs" using cn by simp
    have "nat ((mb_head m + 1) mod 256) = (if nat (mb_head m) = 255 then 0 else Suc (nat (mb_head m)))"
      using ok h by (auto simp: mb_ok_def)
    then have "(nat ((mb_head m + 1) mod 256) + i) mod 256 = (nat (mb_head m) + Suc i) mod 256"
      using i k count_less[OF ok] by (cases "nat (mb_head m) = 255") (simp_all add: mod_256)
    then show "contents ?m ! i = cs ! i" using e[of "Suc i"] i k cn n by (simp add: contents_def)
  qed (use cn in simp)
  have "c = data_buffer m ! nat (mb_head m)" using e[of 0] n k ok by (simp add: mb_ok_def nat_less_iff)
  then show "arr_get (data_buffer m) (mb_head m) = Some c"
    using ok arr_get_nat[of "nat (mb_head m)" "data_buffer m"] by (simp add: mb_ok_def nat_less_iff)
qed

lemma recv_loop_queue:
  "mb_ok m \<Longrightarrow> n \<le> length (contents m) \<Longrightarrow>
   \<exists>m'. recv_loop m n = Some (m', take n (contents m), 0, replicate n Signal_full @ [Lock_release]) \<and> mb_ok m' \<and> contents m' = drop n (contents m)"
proof (induction n arbitrary: m)
  case 0
  then show ?case by simp
next
  case (Suc n)
  then obtain c cs where c: "contents m = c # cs" by (cases "contents m") auto
  note R = recv_step[OF Suc.prems(1) c]
  have "n \<le> length (contents (m\<lparr>mb_head := (mb_head m + 1) mod int MAX_BUFFER_SIZE\<rparr>))" using R(2) Suc.prems(2) c by simp
  from Suc.IH[OF R(1) this] R(2-4) c show ?case by auto
qed

text \<open>Looking up a name: the first valid mailbox that has it.\<close>

definition has_name :: "u8 list \<Rightarrow> mailbox_t \<Rightarrow> bool" where
  "has_name name b \<longleftrightarrow> mb_valid b \<noteq> 0 \<and> cstr (mb_name b) = cstr name"

definition boxes_ok :: "mailbox_t list \<Rightarrow> bool" where
  "boxes_ok bs \<longleftrightarrow> length bs = MAX_BOX_NUM \<and> (\<forall>b\<in>set bs. mb_valid b \<noteq> 0 \<longrightarrow> terminated (mb_name b) \<and> 0 < user_num b)"

lemma find_box_spec:
  assumes "\<forall>b\<in>set bs. mb_valid b \<noteq> 0 \<longrightarrow> terminated (mb_name b)" "terminated name"
  shows "\<exists>r. find_box bs name i = Some r \<and>
    (case r of None \<Rightarrow> \<forall>b\<in>set bs. \<not> has_name name b | Some k \<Rightarrow> i \<le> k \<and> k < i + length bs \<and> has_name name (bs ! (k - i)))"
  using assms(1)
proof (induction bs arbitrary: i)
  case (Cons b bs)
  obtain r where r: "find_box bs name (Suc i) = Some r"
    "case r of None \<Rightarrow> \<forall>b\<in>set bs. \<not> has_name name b | Some k \<Rightarrow> Suc i \<le> k \<and> k < Suc i + length bs \<and> has_name name (bs ! (k - Suc i))"
    using Cons.IH[of "Suc i"] Cons.prems by auto
  show ?case
  proof (cases "mb_valid b = 0")
    case True
    then show ?thesis using r by (auto simp: has_name_def nth_Cons' split: option.splits)
  next
    case False
    obtain q where q: "strcmp (mb_name b) name = Some q" "q = 0 \<longleftrightarrow> cstr (mb_name b) = cstr name"
      using strcmp_total[of "mb_name b" name] Cons.prems False assms(2) by auto
    then show ?thesis using r False by (auto simp: has_name_def nth_Cons' split: option.splits)
  qed
qed simp

lemma free_box_spec: "i \<le> free_box bs i \<and> free_box bs i \<le> i + length bs \<and>
  (free_box bs i < i + length bs \<longrightarrow> mb_valid (bs ! (free_box bs i - i)) = 0) \<and> (free_box bs i = i + length bs \<longrightarrow> (\<forall>b\<in>set bs. mb_valid b \<noteq> 0))"
proof (induction bs arbitrary: i)
  case (Cons b bs)
  show ?case using Cons.IH[of "Suc i"] by (auto simp: nth_Cons')
qed simp

section \<open>Properties\<close>

text \<open>C36. A mailbox is a queue of bytes: as long as no more than 255 bytes are in it, \<^verbatim>\<open>mbox_send\<close> appends the whole
  message without waiting and signals a receiver for every byte, and \<^verbatim>\<open>mbox_recv\<close> of no more bytes than there are takes them from the front.\<close>

theorem mailbox_queue:
  assumes ok: "mb_ok m" and n: "count m + length msg \<le> 255" and k: "k \<le> count m + length msg"
  shows "\<exists>m' m''. mbox_send m msg (int (length msg)) = Some (m', [], Lock_acquire # replicate (length msg) Signal_empty @ [Lock_release]) \<and>
    mb_ok m' \<and> contents m' = contents m @ msg \<and>
    mbox_recv m' (int k) = Some (m'', take k (contents m @ msg), 0, Lock_acquire # replicate k Signal_full @ [Lock_release]) \<and>
    mb_ok m'' \<and> contents m'' = drop k (contents m @ msg)"
proof -
  obtain m' where m': "send_loop m msg = Some (m', [], replicate (length msg) Signal_empty @ [Lock_release])" "mb_ok m'" "contents m' = contents m @ msg"
    using send_loop_queue[OF ok n] by blast
  have "k \<le> length (contents m')" using m'(3) k by simp
  from recv_loop_queue[OF m'(2) this] m' show ?thesis by (auto simp: mbox_send_def mbox_recv_def)
qed

text \<open>An empty mailbox.\<close>

definition empty_box :: "u8 list \<Rightarrow> int \<Rightarrow> mailbox_t" where
  "empty_box name pos = \<lparr>mb_valid = 1, mb_name = name, user_num = 1, data_buffer = replicate 256 0, mb_head = pos, mb_tail = pos\<rparr>"

lemma empty_box_ok: "0 \<le> pos \<Longrightarrow> pos < 256 \<Longrightarrow> mb_ok (empty_box name pos)" "count (empty_box name pos) = 0" "contents (empty_box name pos) = []"
  by (simp_all add: empty_box_def mb_ok_def count_def contents_def)

theorem mailbox_queue_witness:
  "\<exists>m' m''. mbox_send (empty_box [97, 0] 254) [1, 2, 3] 3 = Some (m', [], [Lock_acquire, Signal_empty, Signal_empty, Signal_empty, Lock_release]) \<and>
     contents m' = [1, 2, 3] \<and> mbox_recv m' 2 = Some (m'', [1, 2], 0, [Lock_acquire, Signal_full, Signal_full, Lock_release]) \<and> contents m'' = [3]"
proof -
  have ok: "mb_ok (empty_box [97, 0] 254)" by (rule empty_box_ok) simp_all
  show ?thesis using mailbox_queue[OF ok, of "[1, 2, 3]" 2] by (simp add: empty_box_ok(2,3) numeral_2_eq_2) blast
qed

text \<open>C37. A full mailbox, of 255 bytes: a sender waits, unless the oldest byte is at the start of the array. Then the test for a
  full ring does not see it, the next byte is written, and the mailbox is empty: all 255 bytes and the new one are lost.\<close>

theorem mailbox_full:
  assumes ok: "mb_ok m" and full: "count m = 255"
  shows "(mb_head m \<noteq> 0 \<longrightarrow> mbox_send m (c # msg) (int (length (c # msg))) = Some (m, c # msg, [Lock_acquire, Wait_full])) \<and>
    (mb_head m = 0 \<longrightarrow> (\<exists>m'. mbox_send m [c] 1 = Some (m', [], [Lock_acquire, Signal_empty, Lock_release]) \<and> contents m' = []))"
proof (intro conjI impI)
  assume "mb_head m \<noteq> 0"
  then show "mbox_send m (c # msg) (int (length (c # msg))) = Some (m, c # msg, [Lock_acquire, Wait_full])"
    using full_iff[OF ok] full by (simp add: mbox_send_def)
next
  assume h: "mb_head m = 0"
  then have t: "mb_tail m = 255" "length (data_buffer m) = 256" using ok full by (auto simp: count_def mb_ok_def split: if_splits)
  have a: "arr_set (data_buffer m) 255 c = Some ((data_buffer m)[255 := c])" using arr_set_nat[of 255 "data_buffer m" c] t by simp
  show "\<exists>m'. mbox_send m [c] 1 = Some (m', [], [Lock_acquire, Signal_empty, Lock_release]) \<and> contents m' = []"
    using h t a by (simp add: mbox_send_def contents_def count_def)
qed

theorem mailbox_full_witness:
  "\<exists>m m'. mb_ok m \<and> count m = 255 \<and> mbox_send m [7] 1 = Some (m', [], [Lock_acquire, Signal_empty, Lock_release]) \<and> contents m' = []"
proof -
  let ?m = "(empty_box [97, 0] 0)\<lparr>mb_tail := 255\<rparr>"
  have "mb_ok ?m" "count ?m = 255" "mb_head ?m = 0" by (simp_all add: empty_box_def mb_ok_def count_def)
  with mailbox_full[of ?m 7 "[]"] show ?thesis by blast
qed

text \<open>\<^verbatim>\<open>mbox_open\<close> of a name in use shares its mailbox and counts the user; of a new name it takes a free mailbox,
  empty and with one user, or returns \<^verbatim>\<open>NULL\<close> when all eight are in use; the others are untouched. Closing it again gives it back.\<close>

theorem mbox_open_close:
  assumes ok: "boxes_ok bs" and nm: "terminated name"
  shows "\<exists>r bs' cs. mbox_open name bs = Some (r, bs', cs) \<and> boxes_ok bs' \<and>
    (case r of None \<Rightarrow> bs' = bs \<and> (\<forall>b\<in>set bs. mb_valid b \<noteq> 0 \<and> \<not> has_name name b)
     | Some i \<Rightarrow> i < MAX_BOX_NUM \<and> has_name name (bs' ! i) \<and> (\<forall>j<MAX_BOX_NUM. j \<noteq> i \<longrightarrow> bs' ! j = bs ! j) \<and>
         (if \<exists>b\<in>set bs. has_name name b then has_name name (bs ! i) \<and> mbox_close (bs' ! i) = (bs ! i, [Lock_acquire, Lock_release])
          else mb_valid (bs ! i) = 0 \<and> contents (bs' ! i) = [] \<and> mb_valid (fst (mbox_close (bs' ! i))) = 0))"
proof -
  have l: "length bs = 8" and b: "\<forall>b\<in>set bs. mb_valid b \<noteq> 0 \<longrightarrow> terminated (mb_name b) \<and> 0 < user_num b" using ok by (simp_all add: boxes_ok_def)
  obtain r where r: "find_box bs name 0 = Some r"
    "case r of None \<Rightarrow> \<forall>b\<in>set bs. \<not> has_name name b | Some k \<Rightarrow> 0 \<le> k \<and> k < 0 + length bs \<and> has_name name (bs ! (k - 0))"
    using find_box_spec[of bs name 0] b nm by blast
  have upd: "boxes_ok (bs[i := x])" if "mb_valid x \<noteq> 0 \<longrightarrow> terminated (mb_name x) \<and> 0 < user_num x" for i x
    using that b l by (auto simp: boxes_ok_def dest: set_update_subset_insert[THEN subsetD])
  show ?thesis
  proof (cases r)
    case (Some i)
    then have i: "i < 8" "has_name name (bs ! i)" using r(2) l by simp_all
    let ?x = "(bs ! i)\<lparr>user_num := user_num (bs ! i) + 1\<rparr>"
    have m: "bs ! i \<in> set bs" using i l by simp
    have u: "terminated (mb_name (bs ! i))" "0 < user_num (bs ! i)" using b m i(2) by (auto simp: has_name_def)
    have "mbox_open name bs = Some (Some i, bs[i := ?x], [Lock_acquire, Lock_release])" using r(1) Some by (simp add: mbox_open_def)
    moreover have "boxes_ok (bs[i := ?x])" by (rule upd) (use u in simp)
    moreover have "has_name name ?x" using i(2) by (simp add: has_name_def)
    moreover have "mbox_close ?x = (bs ! i, [Lock_acquire, Lock_release])" using u(2) by (simp add: mbox_close_def)
    ultimately show ?thesis using i l m by auto
  next
    case None
    let ?i = "free_box bs 0"
    note F = free_box_spec[of 0 bs]
    show ?thesis
    proof (cases "?i = 8")
      case True
      then have "mbox_open name bs = Some (None, bs, [Lock_acquire, Lock_release])" using r(1) None by (simp add: mbox_open_def)
      then show ?thesis using F True l r(2) None ok by auto
    next
      case False
      then have i: "?i < 8" "mb_valid (bs ! ?i) = 0" using F l by auto
      let ?x = "(bs ! ?i)\<lparr>mb_valid := 1, mb_name := name, user_num := 1, mb_head := 0, mb_tail := 0\<rparr>"
      have "mbox_open name bs = Some (Some ?i, bs[?i := ?x], [Lock_acquire, Cond_init_empty ?i, Cond_init_full ?i, Lock_release])"
        using r(1) None False by (simp add: mbox_open_def Let_def)
      moreover have "boxes_ok (bs[?i := ?x])" by (rule upd) (use nm in simp)
      moreover have "has_name name ?x" "contents ?x = []" "mb_valid (fst (mbox_close ?x)) = 0"
        by (simp_all add: has_name_def contents_def count_def mbox_close_def Let_def)
      ultimately show ?thesis using i l r(2) None by auto
    qed
  qed
qed

theorem mbox_open_close_witness:
  "\<exists>i bs' cs. mbox_open [97, 0] (replicate 8 ((empty_box [0] 0)\<lparr>mb_valid := 0\<rparr>)) = Some (Some i, bs', cs) \<and> has_name [97, 0] (bs' ! i) \<and> contents (bs' ! i) = []"
proof -
  let ?bs = "replicate 8 ((empty_box [0] 0)\<lparr>mb_valid := 0\<rparr>)"
  have ok: "boxes_ok ?bs" by (simp add: boxes_ok_def)
  have no: "\<not> has_name nm b" "mb_valid b = 0" if "b \<in> set ?bs" for nm b using that by (simp_all add: has_name_def)
  have t: "terminated [97, 0]" by (simp add: terminated_def)
  obtain r bs' cs where R: "mbox_open [97, 0] ?bs = Some (r, bs', cs)"
    "case r of None \<Rightarrow> bs' = ?bs \<and> (\<forall>b\<in>set ?bs. mb_valid b \<noteq> 0 \<and> \<not> has_name [97, 0] b)
     | Some i \<Rightarrow> i < MAX_BOX_NUM \<and> has_name [97, 0] (bs' ! i) \<and> (\<forall>j<MAX_BOX_NUM. j \<noteq> i \<longrightarrow> bs' ! j = ?bs ! j) \<and>
         (if \<exists>b\<in>set ?bs. has_name [97, 0] b then has_name [97, 0] (?bs ! i) \<and> mbox_close (bs' ! i) = (?bs ! i, [Lock_acquire, Lock_release])
          else mb_valid (?bs ! i) = 0 \<and> contents (bs' ! i) = [] \<and> mb_valid (fst (mbox_close (bs' ! i))) = 0)"
    using mbox_open_close[OF ok t] by blast
  have "\<not> (\<exists>b\<in>set ?bs. has_name [97, 0] b)" using no by blast
  moreover have "\<exists>b. b \<in> set ?bs \<and> mb_valid b = 0" by simp
  ultimately show ?thesis using R by (cases r) (auto simp del: set_replicate)
qed

end
