(* ===== verification/Mac.thy ===== *)
theory Mac
  imports Sync
begin

unbundle bit_operations_syntax

text \<open>
  The network driver of \<^verbatim>\<open>drivers/mac.c\<close> with the interrupt controller set-up of \<^verbatim>\<open>irq.c\<close>. The controller is a parameter: what it
  answers to a read of a register may depend on everything done to it before, so the driver is modelled by the trace of
  its register accesses. The descriptor rings and the buffers are memory; their addresses are chosen by the linker and are a parameter too.
\<close>

section \<open>Registers\<close>

datatype access = Rd u32 | Wr u32 u32

record desc_t =
  des0 :: u32
  des1 :: u32
  des2 :: u32
  des3 :: u32

record mac_state =
  trace :: "access list"
  tdesc :: "desc_t list"
  rdesc :: "desc_t list"
  words :: "u32 \<Rightarrow> u32"

record mac_layout =
  tdesc_at :: u32
  tbuffer_at :: u32
  rdesc_at :: u32
  rbuffer_at :: u32

type_synonym device = "access list \<Rightarrow> u32 \<Rightarrow> u32"

abbreviation GMAC_BASE_ADDR :: u32 where "GMAC_BASE_ADDR \<equiv> 0xbfe10000"
abbreviation DMA_BASE_ADDR :: u32 where "DMA_BASE_ADDR \<equiv> 0xbfe11000"
abbreviation (input) GmacAddr0High :: u32 where "GmacAddr0High \<equiv> 0x40"
abbreviation (input) GmacAddr0Low :: u32 where "GmacAddr0Low \<equiv> 0x44"
abbreviation (input) DmaStatus :: u32 where "DmaStatus \<equiv> 0x14"
abbreviation (input) DmaControl :: u32 where "DmaControl \<equiv> 0x18"
abbreviation (input) INT1_EN :: u32 where "INT1_EN \<equiv> 0xbfd0105c"
abbreviation (input) INT1_CLR :: u32 where "INT1_CLR \<equiv> 0xbfd01064"
abbreviation (input) INT1_POL :: u32 where "INT1_POL \<equiv> 0xbfd01068"
abbreviation (input) INT1_EDGE :: u32 where "INT1_EDGE \<equiv> 0xbfd0106c"

definition reg_read_32 :: "device \<Rightarrow> u32 \<Rightarrow> mac_state \<Rightarrow> u32 \<times> mac_state" where
  "reg_read_32 dev addr s = (dev (trace s) addr, s\<lparr>trace := trace s @ [Rd addr]\<rparr>)"

definition read_register :: "device \<Rightarrow> u32 \<Rightarrow> u32 \<Rightarrow> mac_state \<Rightarrow> u32 \<times> mac_state" where
  "read_register dev base offset s = reg_read_32 dev (base + offset) s"

definition reg_write_32 :: "u32 \<Rightarrow> u32 \<Rightarrow> mac_state \<Rightarrow> mac_state" where
  "reg_write_32 addr data s = s\<lparr>trace := trace s @ [Wr addr data]\<rparr>"

text \<open>\<^verbatim>\<open>reg_write_32(a, reg_read_32(a) | v)\<close>.\<close>

definition reg_or :: "device \<Rightarrow> u32 \<Rightarrow> u32 \<Rightarrow> mac_state \<Rightarrow> mac_state" where
  "reg_or dev a v s = (case reg_read_32 dev a s of (d, s1) \<Rightarrow> reg_write_32 a (d OR v) s1)"

definition gmac_get_mac_addr :: "device \<Rightarrow> mac_state \<Rightarrow> u8 list \<times> mac_state" where
  "gmac_get_mac_addr dev s =
     (case read_register dev GMAC_BASE_ADDR GmacAddr0Low s of (a, s1) \<Rightarrow>
      case read_register dev GMAC_BASE_ADDR GmacAddr0High s1 of (b, s2) \<Rightarrow>
        ([ucast (drop_bit 0 a AND 0xff), ucast (drop_bit 8 a AND 0xff), ucast (drop_bit 16 a AND 0xff), ucast (drop_bit 24 a AND 0xff),
          ucast (drop_bit 0 b AND 0xff), ucast (drop_bit 8 b AND 0xff)], s2))"

definition set_sram_ctr :: "mac_state \<Rightarrow> mac_state" where
  "set_sram_ctr s = reg_write_32 0xbfd00420 0x8000 s"

text \<open>The loop of \<^verbatim>\<open>mac_reset\<close> runs until the controller clears the bit.\<close>

partial_function (option) reset_loop :: "device \<Rightarrow> mac_state \<Rightarrow> mac_state option" where
  "reset_loop dev s =
     (case reg_read_32 dev DMA_BASE_ADDR s of (d, s1) \<Rightarrow> if d AND 1 \<noteq> 0 then reset_loop dev s1 else Some s1)"

definition mac_reset :: "device \<Rightarrow> mac_state \<Rightarrow> mac_state option" where
  "mac_reset dev s = reset_loop dev (reg_write_32 DMA_BASE_ADDR 1 s)"

definition disable_dma_int :: "mac_state \<Rightarrow> mac_state" where
  "disable_dma_int s = reg_write_32 (DMA_BASE_ADDR + 28) 0 s"

definition enable_dma_int :: "mac_state \<Rightarrow> mac_state" where
  "enable_dma_int s = reg_write_32 (DMA_BASE_ADDR + 28) 0x10041 s"

definition clear_dma_interrupt :: "device \<Rightarrow> mac_state \<Rightarrow> mac_state" where
  "clear_dma_interrupt dev s =
     (case reg_read_32 dev (DMA_BASE_ADDR + DmaStatus) s of (d, s1) \<Rightarrow> reg_write_32 (DMA_BASE_ADDR + DmaStatus) d s1)"

definition MacAddr :: "u8 list" where
  "MacAddr = [0x00, 0x55, 0x7b, 0xb5, 0x7d, 0xf7]"

definition set_mac_addr :: "mac_state \<Rightarrow> mac_state" where
  "set_mac_addr s =
     (let b = \<lambda>i. ucast (MacAddr ! i) :: u32;
          s1 = reg_write_32 (GMAC_BASE_ADDR + 0x40) (push_bit 8 (b 5) OR b 4) s
      in reg_write_32 (GMAC_BASE_ADDR + 0x44) (push_bit 24 (b 3) OR push_bit 16 (b 2) OR push_bit 8 (b 1) OR b 0) s1)"

definition int1_init :: "mac_state \<Rightarrow> mac_state" where
  "int1_init s = reg_write_32 INT1_EDGE 0 (reg_write_32 INT1_POL 0xffffffff (reg_write_32 INT1_CLR 0xffffffff s))"

definition int1_enable :: "device \<Rightarrow> nat \<Rightarrow> mac_state \<Rightarrow> mac_state" where
  "int1_enable dev num s = reg_or dev INT1_EN (push_bit num 1) s"

definition do_init_mac :: "device \<Rightarrow> mac_state \<Rightarrow> mac_state option" where
  "do_init_mac dev s =
     do { s1 \<leftarrow> mac_reset dev (set_sram_ctr s);
          let s2 = int1_enable dev 3 (int1_init s1);
          let s3 = set_mac_addr (enable_dma_int (clear_dma_interrupt dev s2));
          Some (reg_or dev (GMAC_BASE_ADDR + 0) 8 (reg_or dev (GMAC_BASE_ADDR + 0) 4 s3)) }"

definition mii_dul_force :: "device \<Rightarrow> mac_state \<Rightarrow> mac_state" where
  "mii_dul_force dev s =
     reg_or dev (GMAC_BASE_ADDR + 4) 0x80000001 (reg_or dev GMAC_BASE_ADDR (0xc800 OR push_bit 8 1) (reg_write_32 DMA_BASE_ADDR 0 s))"

definition dma_control_init :: "u32 \<Rightarrow> mac_state \<Rightarrow> mac_state" where
  "dma_control_init init_value s = reg_write_32 (DMA_BASE_ADDR + DmaControl) init_value s"

section \<open>Descriptors and buffers\<close>

definition phy_addr :: "u32 \<Rightarrow> u32" where
  "phy_addr x = x AND 0x1fffffff"

text \<open>Both initialisers, with the second words and the size of a buffer as parameters: 63 descriptors in a loop, then the last.\<close>

definition desc_at :: "u32 \<Rightarrow> nat \<Rightarrow> u32" where
  "desc_at base i = base + word_of_nat (16 * i)"

definition buffer_at :: "u32 \<Rightarrow> nat \<Rightarrow> nat \<Rightarrow> u32" where
  "buffer_at base sz i = base + word_of_nat (sz * i)"

definition init_desc :: "u32 \<Rightarrow> u32 \<Rightarrow> nat \<Rightarrow> u32 \<Rightarrow> nat \<Rightarrow> nat \<Rightarrow> desc_t list \<Rightarrow> desc_t list option" where
  "init_desc descs bufs sz d1 i nxt ds =
     arr_set ds (int i) \<lparr>des0 = 0, des1 = d1, des2 = phy_addr (buffer_at bufs sz i), des3 = phy_addr (desc_at descs nxt)\<rparr>"

definition desc_ring_init :: "u32 \<Rightarrow> u32 \<Rightarrow> nat \<Rightarrow> u32 \<Rightarrow> u32 \<Rightarrow> desc_t list \<Rightarrow> desc_t list option" where
  "desc_ring_init descs bufs sz d1 d1_last ds =
     do { ds1 \<leftarrow> for_loop 63 (\<lambda>i. init_desc descs bufs sz d1 i (i + 1)) ds; init_desc descs bufs sz d1_last 63 0 ds1 }"

definition send_desc_init :: "mac_layout \<Rightarrow> mac_state \<Rightarrow> mac_state option" where
  "send_desc_init lay s =
     do { ds \<leftarrow> desc_ring_init (tdesc_at lay) (tbuffer_at lay) 1024 0x61000400 0x63000400 (tdesc s); Some (s\<lparr>tdesc := ds\<rparr>) }"


text \<open>The memory of the buffers by words; an unaligned buffer is a panic.\<close>

definition set_buffer :: "u32 \<Rightarrow> u32 \<Rightarrow> mac_state \<Rightarrow> string + mac_state" where
  "set_buffer buffer data s =
     (if buffer mod 4 \<noteq> 0 then Inl ''Unaligned buffer address.''
      else case for_loop 64 (\<lambda>i. for_loop 256 (\<lambda>j w. Some (w(buffer + word_of_nat (4 * (256 * i + j)) := w (data + word_of_nat (4 * j)))))) (words s) of
             Some w \<Rightarrow> Inr (s\<lparr>words := w\<rparr>) | None \<Rightarrow> Inl [])"

definition empty_buffer :: "u32 \<Rightarrow> mac_state \<Rightarrow> string + mac_state" where
  "empty_buffer buffer s =
     (if buffer mod 4 \<noteq> 0 then Inl ''Unaligned buffer address.''
      else case for_loop 64 (\<lambda>i. for_loop 256 (\<lambda>j w. Some (w(buffer + word_of_nat (4 * (256 * i + j)) := 0)))) (words s) of
             Some w \<Rightarrow> Inr (s\<lparr>words := w\<rparr>) | None \<Rightarrow> Inl [])"

text \<open>Handing the descriptors to the controller: first the address of the ring, then the start, then the ownership bits, then the poll demands.\<close>

definition own_all :: "desc_t list \<Rightarrow> desc_t list option" where
  "own_all ds = for_loop 64 (\<lambda>i ds. do { d \<leftarrow> arr_get ds (int i); arr_set ds (int i) (d\<lparr>des0 := 0x80000000\<rparr>) }) ds"

definition poll :: "u32 \<Rightarrow> mac_state \<Rightarrow> mac_state option" where
  "poll reg s = for_loop 64 (\<lambda>_ s. Some (reg_write_32 reg 1 s)) s"

definition do_net_send :: "mac_layout \<Rightarrow> device \<Rightarrow> mac_state \<Rightarrow> mac_state option" where
  "do_net_send lay dev s =
     do { let s1 = reg_or dev (DMA_BASE_ADDR + 24) 0x02202000 (reg_write_32 (DMA_BASE_ADDR + 16) (phy_addr (tdesc_at lay)) s);
          ds \<leftarrow> own_all (tdesc s1);
          poll (DMA_BASE_ADDR + 4) (s1\<lparr>tdesc := ds\<rparr>) }"


text \<open>\<^verbatim>\<open>check_recv\<close> wakes a waiting receiver when the last descriptor is no longer the controller's.\<close>

definition check_recv :: "mac_state \<Rightarrow> kstate \<Rightarrow> kstate option" where
  "check_recv s k =
     (if queue_is_empty (queues k RecvQ) then Some k
      else do { d \<leftarrow> arr_get (rdesc s) 63; if drop_bit 31 (des0 d) = 0 then do_unblock_one k RecvQ else Some k })"

section \<open>The rings\<close>







section \<open>Properties\<close>



definition zero_mac :: mac_state where
  "zero_mac = \<lparr>trace = [], tdesc = replicate 64 \<lparr>des0 = 0, des1 = 0, des2 = 0, des3 = 0\<rparr>,
     rdesc = replicate 64 \<lparr>des0 = 0, des1 = 0, des2 = 0, des3 = 0\<rparr>, words = (\<lambda>_. 0)\<rparr>"


lemma reset_loop_step:
  "reset_loop dev s = (if dev (trace s) DMA_BASE_ADDR AND 1 \<noteq> 0 then reset_loop dev (s\<lparr>trace := trace s @ [Rd DMA_BASE_ADDR]\<rparr>)
     else Some (s\<lparr>trace := trace s @ [Rd DMA_BASE_ADDR]\<rparr>))"
  by (subst reset_loop.simps) (simp add: reg_read_32_def)

lemma reset_loop_ends:
  "dev (trace s @ replicate n (Rd DMA_BASE_ADDR)) DMA_BASE_ADDR AND 1 = 0 \<Longrightarrow>
   \<exists>k\<le>n. reset_loop dev s = Some (s\<lparr>trace := trace s @ replicate (Suc k) (Rd DMA_BASE_ADDR)\<rparr>)"
proof (induction n arbitrary: s)
  case 0
  then show ?case by (subst reset_loop_step) simp
next
  case (Suc n)
  show ?case
  proof (cases "dev (trace s) DMA_BASE_ADDR AND 1 = 0")
    case True
    then show ?thesis by (subst reset_loop_step) (auto intro!: exI[of _ 0])
  next
    case False
    let ?s = "s\<lparr>trace := trace s @ [Rd DMA_BASE_ADDR]\<rparr>"
    obtain k where "k \<le> n" "reset_loop dev ?s = Some (?s\<lparr>trace := trace ?s @ replicate (Suc k) (Rd DMA_BASE_ADDR)\<rparr>)"
      using Suc.IH[of ?s] Suc.prems by auto
    then show ?thesis using False by (subst reset_loop_step) (auto intro!: exI[of _ "Suc k"])
  qed
qed

text \<open>C39. Termination of the initialisation: if the controller clears its reset bit after finitely many polls, \<^verbatim>\<open>do_init_mac\<close> returns,
  having polled no longer than that, and leaves the descriptors alone; the last two writes enable the transmitter and the receiver.\<close>

theorem init_mac_terminates:
  assumes "dev (trace s @ [Wr 0xbfd00420 0x8000, Wr DMA_BASE_ADDR 1] @ replicate n (Rd DMA_BASE_ADDR)) DMA_BASE_ADDR AND 1 = 0"
  shows "\<exists>k s' v w ev. k \<le> n \<and> do_init_mac dev s = Some s' \<and>
    trace s' = trace s @ [Wr 0xbfd00420 0x8000, Wr DMA_BASE_ADDR 1] @ replicate (Suc k) (Rd DMA_BASE_ADDR) @ ev @
      [Rd GMAC_BASE_ADDR, Wr GMAC_BASE_ADDR (v OR 4), Rd GMAC_BASE_ADDR, Wr GMAC_BASE_ADDR (w OR 8)] \<and>
    Wr (DMA_BASE_ADDR + 28) 0x10041 \<in> set ev \<and> rdesc s' = rdesc s \<and> tdesc s' = tdesc s"
proof -
  let ?s = "reg_write_32 DMA_BASE_ADDR 1 (set_sram_ctr s)"
  have t: "trace ?s = trace s @ [Wr 0xbfd00420 0x8000, Wr DMA_BASE_ADDR 1]" by (simp add: reg_write_32_def set_sram_ctr_def)
  obtain k where k: "k \<le> n" "reset_loop dev ?s = Some (?s\<lparr>trace := trace ?s @ replicate (Suc k) (Rd DMA_BASE_ADDR)\<rparr>)"
    using reset_loop_ends[of dev ?s n] assms by (auto simp: t)
  show ?thesis
    using k by (simp add: do_init_mac_def mac_reset_def reg_or_def reg_read_32_def reg_write_32_def int1_init_def int1_enable_def
        clear_dma_interrupt_def enable_dma_int_def set_mac_addr_def set_sram_ctr_def Let_def) fastforce
qed

theorem init_mac_terminates_witness:
  "\<exists>s'. do_init_mac (\<lambda>es a. if length es < 4 then 1 else 0) zero_mac = Some s' \<and> rdesc s' = rdesc zero_mac"
  using init_mac_terminates[of "\<lambda>es a. if length es < 4 then 1 else 0" zero_mac 2] by (auto simp: zero_mac_def)

end
