(* ===== verification/Image.thy ===== *)
theory Image
  imports Fs_Codec Printk
begin

text \<open>
  ELF files: the loader \<^verbatim>\<open>sw_run\<close> of \<^verbatim>\<open>kernel/software/run.c\<close> and the host program \<^verbatim>\<open>tools/createimage.c\<close> that lays
  the boot block and the kernel out on the disk image and patches the size of the kernel into the boot block. A file
  of the host is the list of its bytes; reading past the end of a file leaves the buffer unspecified and is \<open>None\<close>.
\<close>

section \<open>ELF headers\<close>

text \<open>The fields the programs use, at their offsets in \<^verbatim>\<open>Elf32_Ehdr\<close> (52 bytes) and \<^verbatim>\<open>Elf32_Phdr\<close> (32 bytes).\<close>

record Elf32_Phdr =
  p_offset :: u32
  p_filesz :: u32
  p_memsz :: u32

definition e_phoff :: "u8 list \<Rightarrow> u32" where
  "e_phoff ehdr = dec_u32 (drop 28 ehdr)"

definition phdr_of :: "u8 list \<Rightarrow> Elf32_Phdr" where
  "phdr_of b = \<lparr>p_offset = dec_u32 (drop 4 b), p_filesz = dec_u32 (drop 16 b), p_memsz = dec_u32 (drop 20 b)\<rparr>"

section \<open>The loader\<close>

definition word_at :: "(u32 \<Rightarrow> u8) \<Rightarrow> u32 \<Rightarrow> u32" where
  "word_at mem a = dec_u32 [mem a, mem (a + 1), mem (a + 2), mem (a + 3)]"

text \<open>\<^verbatim>\<open>sw_run\<close> up to its jump to address 0, with \<^verbatim>\<open>run_buf\<close> at \<open>buf\<close>.\<close>

definition sw_run :: "(u32 \<Rightarrow> u8) \<Rightarrow> u32 \<Rightarrow> (u32 \<Rightarrow> u8)" where
  "sw_run mem buf =
     (let phdr = buf + word_at mem (buf + 28);
          offset = word_at mem (phdr + 4);
          filesz = word_at mem (phdr + 16)
      in memcopy mem 0 (buf + offset) (sint filesz))"

section \<open>The image\<close>

definition read_at :: "u8 list \<Rightarrow> nat \<Rightarrow> nat \<Rightarrow> u8 list option" where
  "read_at file pos n = (if pos + n \<le> length file then Some (take n (drop pos file)) else None)"

text \<open>\<^verbatim>\<open>fwrite\<close> at a position, behind the end too: the gap is filled with zeros.\<close>

definition write_at :: "nat \<Rightarrow> u8 list \<Rightarrow> u8 list \<Rightarrow> u8 list" where
  "write_at pos bs file =
     (if bs = [] then file
      else take pos (file @ replicate (pos - length file) 0) @ bs @ drop (pos + length bs) file)"

definition read_exec_file :: "u8 list \<Rightarrow> Elf32_Phdr option" where
  "read_exec_file opfile =
     do { ehdr \<leftarrow> read_at opfile 0 52;
          map_option phdr_of (read_at opfile (unat (e_phoff ehdr)) 32) }"

definition count_kernel_sectors :: "Elf32_Phdr \<Rightarrow> u32" where
  "count_kernel_sectors phdr =
     (let filesz = p_memsz phdr in filesz div 512 + (if 0 < filesz mod 512 then 1 else 0))"

definition write_bootblock :: "u8 list \<Rightarrow> u8 list \<Rightarrow> Elf32_Phdr \<Rightarrow> u8 list option" where
  "write_bootblock img file phdr =
     do { buf \<leftarrow> read_at file (unat (p_offset phdr)) (unat (p_filesz phdr)); Some (write_at 0 buf img) }"

fun write_zeros :: "nat \<Rightarrow> nat \<Rightarrow> u8 list \<Rightarrow> u8 list" where
  "write_zeros 0 pos img = img"
| "write_zeros (Suc n) pos img = write_zeros n (Suc pos) (write_at pos [0] img)"

definition write_kernel :: "u8 list \<Rightarrow> u8 list \<Rightarrow> Elf32_Phdr \<Rightarrow> u8 list option" where
  "write_kernel img knfile phdr =
     do { buf \<leftarrow> read_at knfile (unat (p_offset phdr)) (unat (p_filesz phdr));
          Some (write_zeros (unat (p_memsz phdr - p_filesz phdr)) (0x200 + unat (p_filesz phdr)) (write_at 0x200 buf img)) }"

definition record_kernel_sectors :: "u8 list \<Rightarrow> Elf32_Phdr \<Rightarrow> u8 list" where
  "record_kernel_sectors img phdr_k =
     (let kernelsz = p_memsz phdr_k;
          kernelsz_low = kernelsz AND 0xffff;
          kernelsz_hi = drop_bit 16 kernelsz AND 0xffff
      in write_at 0x28 (enc_u32 (0x34c60000 OR kernelsz_low)) (write_at 0x24 (enc_u32 (0x3c060000 OR kernelsz_hi)) img))"

definition dec_text :: "u32 \<Rightarrow> string" where
  "dec_text v = bytes_string (signed_number 0 (sint v))"

definition extent_opt :: "Elf32_Phdr \<Rightarrow> Elf32_Phdr \<Rightarrow> string list" where
  "extent_opt phdr_bb phdr_k =
     (let kernel_sectors = count_kernel_sectors phdr_k in
      [''bootloader size: '' @ dec_text (p_filesz phdr_bb) @ '' B\<newline>'',
       ''kernel size: '' @ dec_text (kernel_sectors div 2) @ (if kernel_sectors mod 2 \<noteq> 0 then ''.5'' else []) @ '' KB\<newline>''] @
      (if 7 * 1024 * 2 < kernel_sectors then [''----------Error: too large kernel----------\<newline>''] else []))"

text \<open>
  \<^verbatim>\<open>main\<close>: the two files, whether the image can be opened and whether the first argument is \<^verbatim>\<open>--extended\<close>; the result is
  what is printed and the image, if it was opened.
\<close>

definition createimage :: "u8 list option \<Rightarrow> u8 list option \<Rightarrow> bool \<Rightarrow> bool \<Rightarrow> (string list \<times> u8 list option) option" where
  "createimage bl_file kernel_file can_open extended =
     (case (bl_file, kernel_file, can_open) of
        (Some bl, Some kn, True) \<Rightarrow>
          do { phdr_bl \<leftarrow> read_exec_file bl;
               phdr_kernel \<leftarrow> read_exec_file kn;
               i1 \<leftarrow> write_bootblock [] bl phdr_bl;
               i2 \<leftarrow> write_kernel i1 kn phdr_kernel;
               Some (if extended then extent_opt phdr_bl phdr_kernel else [], Some (record_kernel_sectors i2 phdr_kernel)) }
      | _ \<Rightarrow> Some ([''can't open file.\<newline>''], None))"

section \<open>Lemmas\<close>

lemma write_zeros_end: "pos = length img \<Longrightarrow> write_zeros n pos img = img @ replicate n 0"
proof (induction n arbitrary: pos img)
  case (Suc n)
  have "write_at pos [0] img = img @ [0]" using Suc.prems by (simp add: write_at_def)
  then show ?case using Suc.IH[of "Suc pos" "img @ [0]"] Suc.prems by (simp add: replicate_app_Cons_same)
qed simp

lemma write_at_inside: "pos + length bs \<le> length file \<Longrightarrow> write_at pos bs file = take pos file @ bs @ drop (pos + length bs) file"
  by (cases "bs = []") (simp_all add: write_at_def)

lemma length_read_at: "read_at f p n = Some b \<Longrightarrow> length b = n"
  by (auto simp: read_at_def split: if_splits)

text \<open>What \<^verbatim>\<open>lui $a2\<close> and \<^verbatim>\<open>ori $a2\<close> at offsets 0x24 and 0x28 of the boot block leave in \<^verbatim>\<open>$a2\<close>.\<close>

definition boot_size :: "u8 list \<Rightarrow> u32" where
  "boot_size img = push_bit 16 (dec_u32 (drop 0x24 img)) OR (dec_u32 (drop 0x28 img) AND 0xffff)"

lemma halves_gen:
  "push_bit 16 (push_bit 16 x OR (drop_bit 16 v AND mask 16)) OR ((push_bit 16 y OR (v AND mask 16)) AND mask 16) = (v :: u32)"
  by (rule bit_word_eqI) (auto simp: bit_simps)

lemma halves:
  "push_bit 16 (0x3c060000 OR (drop_bit 16 v AND 0xffff)) OR ((0x34c60000 OR (v AND 0xffff)) AND 0xffff) = (v :: u32)"
proof -
  have "mask 16 = (0xffff :: u32)" "push_bit 16 0x3c06 = (0x3c060000 :: u32)" "push_bit 16 0x34c6 = (0x34c60000 :: u32)"
    by (simp_all add: mask_eq_exp_minus_1 push_bit_eq_mult)
  then show ?thesis using halves_gen[of "0x3c06" v "0x34c6"] by argo
qed

text \<open>The image, byte for byte.\<close>

definition image_of :: "u8 list \<Rightarrow> u8 list \<Rightarrow> u32 \<Rightarrow> u8 list" where
  "image_of boot kern memsz =
     (let b = boot @ replicate (512 - length boot) 0 in
      take 0x24 b @ enc_u32 (0x3c060000 OR (drop_bit 16 memsz AND 0xffff)) @ enc_u32 (0x34c60000 OR (memsz AND 0xffff)) @
      drop 0x2c b @ kern @ replicate (unat memsz - length kern) 0)"

lemma boot_size_image: "boot_size (image_of boot kern memsz) = memsz"
proof -
  let ?b = "boot @ replicate (512 - length boot) 0"
  have l: "length (take 0x24 ?b) = 0x24" by simp
  have "drop 0x24 (image_of boot kern memsz) = enc_u32 (0x3c060000 OR (drop_bit 16 memsz AND 0xffff)) @
      enc_u32 (0x34c60000 OR (memsz AND 0xffff)) @ drop 0x2c ?b @ kern @ replicate (unat memsz - length kern) 0" (is "_ = ?i @ ?j @ ?r")
    unfolding image_of_def Let_def using l by (metis append_eq_conv_conj)
  moreover from this have "drop 4 (drop 0x24 (image_of boot kern memsz)) = ?j @ ?r" by simp
  then have "drop 0x28 (image_of boot kern memsz) = ?j @ ?r" by simp
  ultimately show ?thesis unfolding boot_size_def by (simp only: dec_enc_u32 halves)
qed

lemma patch_block:
  assumes B: "length b = 512"
  shows "write_at 0x28 (enc_u32 j) (write_at 0x24 (enc_u32 i) (b @ t)) = take 0x24 b @ enc_u32 i @ enc_u32 j @ drop 0x2c b @ t"
proof -
  have "write_at 0x24 (enc_u32 i) (b @ t) = take 0x24 b @ enc_u32 i @ drop 0x28 b @ t"
    by (subst write_at_inside) (use B in simp_all)
  then show ?thesis using B by (simp add: write_at_inside)
qed

lemma image_steps:
  assumes b: "length boot \<le> 512" and k: "kern \<noteq> []" "length kern = unat (p_filesz ph)" "p_filesz ph \<le> p_memsz ph"
  shows "record_kernel_sectors (write_zeros (unat (p_memsz ph - p_filesz ph)) (0x200 + unat (p_filesz ph))
           (write_at 0x200 kern (write_at 0 boot []))) ph = image_of boot kern (p_memsz ph)"
proof -
  let ?b = "boot @ replicate (512 - length boot) 0" and ?m = "p_memsz ph"
  have 1: "write_at 0 boot [] = boot" by (simp add: write_at_def)
  have 2: "write_at 0x200 kern boot = ?b @ kern" using b k(1) by (simp add: write_at_def)
  have n: "unat (?m - p_filesz ph) = unat ?m - length kern" using k(2,3) by (simp add: unat_sub)
  have 3: "write_zeros (unat (?m - p_filesz ph)) (0x200 + unat (p_filesz ph)) (?b @ kern) = ?b @ kern @ replicate (unat ?m - length kern) 0"
    unfolding n using b k(2) by (subst write_zeros_end) simp_all
  let ?t = "kern @ replicate (unat ?m - length kern) 0"
  have B: "length ?b = 512" using b by simp
  show ?thesis unfolding 1 2 3 record_kernel_sectors_def Let_def patch_block[OF B, of _ _ ?t] image_of_def by simp
qed

section \<open>Properties\<close>

text \<open>C40. The image is laid out as the boot block expects: the boot segment padded with zeros to one sector, in which the two
  instructions at 0x24 and 0x28 load exactly the size of the kernel in memory, then the kernel segment from 0x200 on,
  then zeros up to its size in memory.\<close>

theorem createimage_layout:
  assumes "read_exec_file bl = Some pb" "read_at bl (unat (p_offset pb)) (unat (p_filesz pb)) = Some boot"
    and "read_exec_file kn = Some pk" "read_at kn (unat (p_offset pk)) (unat (p_filesz pk)) = Some kern"
    and "p_filesz pb \<le> 512" "0 < p_filesz pk" "p_filesz pk \<le> p_memsz pk"
  shows "createimage (Some bl) (Some kn) True False = Some ([], Some (image_of boot kern (p_memsz pk))) \<and>
    boot_size (image_of boot kern (p_memsz pk)) = p_memsz pk \<and>
    length (image_of boot kern (p_memsz pk)) = 512 + unat (p_memsz pk)"
proof -
  have l: "length boot = unat (p_filesz pb)" "length kern = unat (p_filesz pk)"
    using assms(2,4) by (simp_all add: length_read_at)
  have b: "length boot \<le> 512" using assms(5) l(1) by (simp add: word_le_nat_alt)
  have k: "kern \<noteq> []" using assms(6) l(2) by (auto simp: word_less_nat_alt)
  have m: "length kern \<le> unat (p_memsz pk)" using assms(7) l(2) by (simp add: word_le_nat_alt)
  have "length (image_of boot kern (p_memsz pk)) = 512 + unat (p_memsz pk)" using b m by (simp add: image_of_def Let_def)
  moreover have "createimage (Some bl) (Some kn) True False = Some ([], Some (image_of boot kern (p_memsz pk)))"
    using assms(1-4) image_steps[OF b k l(2) assms(7)]
    by (simp add: createimage_def write_bootblock_def write_kernel_def)
  ultimately show ?thesis using boot_size_image by simp
qed

text \<open>A small ELF file: header, one program header at 52, a segment of four bytes at 84 that takes six bytes in memory.\<close>

definition demo_elf :: "u8 list" where
  "demo_elf = replicate 28 0 @ enc_u32 52 @ replicate 20 0 @ replicate 4 0 @ enc_u32 84 @ replicate 8 0 @ enc_u32 4 @ enc_u32 6 @
     replicate 8 0 @ [1, 2, 3, 4]"

theorem createimage_layout_witness:
  "\<exists>img. createimage (Some demo_elf) (Some demo_elf) True False = Some ([], Some img) \<and> boot_size img = 6 \<and> length img = 518"
proof -
  have "read_exec_file demo_elf = Some \<lparr>p_offset = 84, p_filesz = 4, p_memsz = 6\<rparr>" by code_simp
  moreover have "read_at demo_elf 84 4 = Some [1, 2, 3, 4]" by code_simp
  ultimately show ?thesis
    using createimage_layout[of demo_elf "\<lparr>p_offset = 84, p_filesz = 4, p_memsz = 6\<rparr>" "[1, 2, 3, 4]" demo_elf
      "\<lparr>p_offset = 84, p_filesz = 4, p_memsz = 6\<rparr>" "[1, 2, 3, 4]"] by auto
qed

text \<open>\<^verbatim>\<open>sw_run\<close> copies the first segment of the file in \<^verbatim>\<open>run_buf\<close> to address 0 and changes nothing else.\<close>

lemma sw_run_loads:
  assumes "off = word_at mem (buf + word_at mem (buf + 28) + 4)" "sz = word_at mem (buf + word_at mem (buf + 28) + 16)"
    and "unat sz < 2 ^ 31" "unat (buf + off) + unat sz \<le> 2 ^ 32"
  shows "sw_run mem buf a = (if unat a < unat sz then mem (buf + off + a) else mem a)"
proof -
  have n: "sint sz = int (unat sz)" by (rule sint_small) (use assms(3) in simp)
  have r: "region 0 (nat (sint sz))" "region (buf + off) (nat (sint sz))"
    unfolding n region_def using assms(3,4) by simp_all
  have "sw_run mem buf = moved mem 0 (buf + off) (unat sz)"
    using memcopy_eq[OF _ r, of mem] assms(1,2) n by (simp add: sw_run_def Let_def)
  then show ?thesis by (simp add: moved_def)
qed

end
