(* ===== verification/Tools.thy ===== *)
theory Tools
  imports Image Screen_Inv Sched
begin

text \<open>
  The host programs \<^verbatim>\<open>tools/convert.c\<close>, which turns a program into the list of numbers that is sent over the network, and
  \<^verbatim>\<open>tools/print_image.c\<close>, and the debugging aids of \<^verbatim>\<open>libs/debug.c\<close> that \<open>Shell\<close> does not hold. What a program prints
  on the host's terminal is a list of bytes. As in \<open>Image\<close>, a read past the end of a file is \<open>None\<close>; so is a
  number that does not fit the buffer it is printed to. Words of a file are read in the byte order of the host, a PC.
\<close>

section \<open>Operations\<close>

text \<open>The loop of \<^verbatim>\<open>convert\<close> from byte \<open>i\<close> on with \<open>n\<close> to go: \<^verbatim>\<open>sprintf\<close> writes the digits and a terminator to the four bytes of \<^verbatim>\<open>buf\<close>.\<close>

fun convert_loop :: "nat \<Rightarrow> nat \<Rightarrow> u8 list \<Rightarrow> u8 list \<Rightarrow> u8 list option" where
  "convert_loop 0 i file_in file_out = Some file_out"
| "convert_loop (Suc n) i file_in file_out =
     do { b \<leftarrow> read_at file_in i 1;
          let t = number 10 False 0 (unat (hd b));
          if length t + 1 \<le> 4 then convert_loop n (Suc i) file_in (file_out @ t @ [44]) else None }"

definition convert_main :: "u8 list \<Rightarrow> (u8 list \<times> u8 list) option" where
  "convert_main bonus_out =
     do { phdr \<leftarrow> read_exec_file bonus_out;
          let valid_size = sint (p_offset phdr + p_filesz phdr);
          pkt \<leftarrow> convert_loop (nat valid_size) 0 bonus_out [];
          Some (chars ''size: '' @ number 10 False 0 (length bonus_out) @ chars ''\<newline>offset: '' @ signed_number 0 (sint (p_offset phdr)) @
                chars '', filesz: '' @ signed_number 0 (sint (p_filesz phdr)) @ chars ''\<newline>valid size: '' @ signed_number 0 valid_size @ chars ''\<newline>'',
                pkt) }"

text \<open>\<^verbatim>\<open>print_image\<close> with the values of its two arguments, which are not negative.\<close>

definition print_image :: "nat \<Rightarrow> nat \<Rightarrow> u8 list \<Rightarrow> u8 list option" where
  "print_image num off image_file =
     for_loop num (\<lambda>i out. do { b \<leftarrow> read_at image_file (i * 4 + off) 4; Some (out @ number 16 False 8 (unat (dec_u32 b)) @ [10]) }) []"

definition panic_asm :: "int \<Rightarrow> kstate \<Rightarrow> kstate" where
  "panic_asm n s = (if n = 0 then panic ''Unknown exception.'' s else panic ''Error in asm.'' s)"

text \<open>The static variable of \<^verbatim>\<open>debug_cursor\<close> is an argument and a result; it starts as \<^verbatim>\<open>SCREEN_HEIGHT + 1\<close>.\<close>

definition debug_cursor :: "int \<Rightarrow> screen_t \<Rightarrow> (int \<times> screen_t) option" where
  "debug_cursor i s = do { s1 \<leftarrow> vt100_move_cursor 1 i s; Some (i + 1, s1) }"

section \<open>Converting and reading back\<close>

text \<open>A reader of the converted file: numbers in decimal, each followed by a comma.\<close>

function read_numbers :: "u8 list \<Rightarrow> nat list" where
  "read_numbers [] = []"
| "read_numbers (c # r) = fst (vt_number (c # r)) # read_numbers (drop 1 (snd (vt_number (c # r))))"
  by pat_completeness auto
termination
proof (relation "measure length")
  fix c :: u8 and r
  show "(drop 1 (snd (vt_number (c # r))), c # r) \<in> measure length" using vt_number_shorter[of "c # r"] by simp
qed simp

declare read_numbers.simps(2) [simp del]

lemma number_nonempty: "number 10 False 0 n \<noteq> []"
  by (subst number_def, subst radix_digits.simps) simp

lemma read_numbers_number: "read_numbers (number 10 False 0 n @ 44 # r) = n # read_numbers r"
proof -
  have v: "vt_number (number 10 False 0 n @ 44 # r) = (n, 44 # r)" by (rule vt_number_number) (simp add: digit_def)
  obtain c cs where c: "number 10 False 0 n @ 44 # r = c # cs" using number_nonempty[of n] by (cases "number 10 False 0 n") auto
  show ?thesis unfolding c read_numbers.simps(2) unfolding c[symmetric] v by simp
qed

lemma read_numbers_concat: "read_numbers (concat (map (\<lambda>b. number 10 False 0 (unat b) @ [44]) bs)) = map unat bs"
  by (induction bs) (simp_all add: read_numbers_number)

lemma byte_digits: "length (number 10 False 0 (unat (b :: u8))) \<le> 3"
proof -
  have "unat b < 256" using unsigned_less[of b, where ?'a = nat] by simp
  then show ?thesis by (simp add: number_def radix_digits.simps[of 10] div_less_iff_less_mult)
qed

lemma convert_loop_eq:
  "i + n \<le> length f \<Longrightarrow> convert_loop n i f out = Some (out @ concat (map (\<lambda>b. number 10 False 0 (unat b) @ [44]) (take n (drop i f))))"
proof (induction n arbitrary: i out)
  case (Suc n)
  then have "drop i f = f ! i # drop (Suc i) f" by (intro Cons_nth_drop_Suc[symmetric]) simp
  then show ?case using Suc byte_digits[of "f ! i"] by (simp add: read_at_def)
qed simp

section \<open>Properties\<close>

text \<open>The converted file is the program: for an executable whose segment lies in the file, \<^verbatim>\<open>convert\<close> ends, no number overflows its
  buffer, and reading the numbers back gives the bytes of the file up to the end of the segment.\<close>

theorem convert_round_trip:
  assumes "read_exec_file f = Some phdr" and "unat (p_offset phdr) + unat (p_filesz phdr) \<le> length f" and "length f < 2 ^ 31"
  shows "\<exists>out pkt. convert_main f = Some (out, pkt) \<and>
    read_numbers pkt = map unat (take (unat (p_offset phdr) + unat (p_filesz phdr)) f)"
proof -
  let ?n = "unat (p_offset phdr) + unat (p_filesz phdr)"
  have "unat (p_offset phdr + p_filesz phdr) = ?n" using assms(2,3) by (simp add: unat_plus_if')
  moreover from this have "sint (p_offset phdr + p_filesz phdr) = int (unat (p_offset phdr + p_filesz phdr))"
    using assms(2,3) by (intro sint_small) simp
  ultimately have "nat (sint (p_offset phdr + p_filesz phdr)) = ?n" by (simp only: nat_int)
  then show ?thesis using assms(1,2) convert_loop_eq[of 0 ?n f "[]"] by (simp add: convert_main_def read_numbers_concat)
qed

end
