(* ===== verification/Sched_Live.thy ===== *)
theory Sched_Live
  imports Machine
begin

text \<open>
  Progress of the scheduler: no ready task starves. A task that is run loses one level of scheduling priority
  down to 1, and among tasks of equal priority the one that has waited longest runs, so that every tick
  brings a given ready task closer to its turn.
\<close>

section \<open>What a tick does to priorities\<close>

lemma scheduler_priority_step:
  assumes inv: "sched_inv s qs fs" and ne: "qs ReadyQ \<noteq> []" and s': "scheduler s = Some s'"
  shows "scheduler_priority (pcb s' p) =
    (if p = current_running s' \<and> 1 < scheduler_priority (pcb s p) then scheduler_priority (pcb s p) - 1 else scheduler_priority (pcb s p))"
proof -
  let ?cur = "current_running s"
  define s1 where "s1 = upd_pcb s ?cur (\<lambda>c. c\<lparr>cursor_x := screen_cursor_x s, cursor_y := screen_cursor_y s\<rparr>)"
  define s2 where "s2 = (if status (pcb s1 ?cur) = TASK_RUNNING
                  then upd_pcb s1 ?cur (\<lambda>c. c\<lparr>status := TASK_READY\<rparr>) else s1)"
  have "sched_inv s1 qs fs" unfolding s1_def by (intro sched_inv_upd inv) (auto simp: task_ok_def)
  then have inv2: "sched_inv s2 qs fs"
    unfolding s2_def by (auto intro!: sched_inv_upd simp: task_ok_def)
  have same: "scheduler_priority (pcb s2 p) = scheduler_priority (pcb s p)" for p by (auto simp: s2_def s1_def)
  obtain x where x: "select_loop scheduler_priority (pcb s2) (Some ?cur) 1 0 (head (queues s2 ReadyQ))
      = Some (age (set (qs ReadyQ)) (pcb s2), Some x)"
    using select_inv[OF inv2 ne, of scheduler_priority "Some ?cur"] by (auto simp: task_ok_def)
  have "\<not> queue_is_empty (queues s ReadyQ)" using ne sched_inv_empty[OF inv, of ReadyQ] by simp
  then have "scheduler s = do { (h, sel) \<leftarrow> select_loop scheduler_priority (pcb s2) (Some ?cur) 1 0 (head (queues s2 ReadyQ));
                y \<leftarrow> sel;
                let s3 = s2\<lparr>pcb := h, current_running := y\<rparr>;
                let s4 = (if scheduler_priority (pcb s3 y) > 1
                          then upd_pcb s3 y (\<lambda>c. c\<lparr>scheduler_priority := scheduler_priority c - 1\<rparr>)
                          else s3);
                let s5 = upd_pcb s4 y (\<lambda>c. c\<lparr>wait_time := 0\<rparr>);
                let s6 = s5\<lparr>screen_cursor_x := cursor_x (pcb s5 y), screen_cursor_y := cursor_y (pcb s5 y)\<rparr>;
                let s7 = upd_pcb s6 y (\<lambda>c. c\<lparr>status := TASK_RUNNING\<rparr>);
                Some (s7\<lparr>entry_hi := word_of_int (pid (pcb s7 y))\<rparr>) }"
    unfolding scheduler_def Let_def s2_def s1_def by simp
  with s' x show ?thesis using same[of p] by (auto simp: Let_def age_def split: if_splits)
qed

section \<open>Ticks\<close>

text \<open>
  The timer interrupts the running task again and again; \<open>r\<close> is what the task has made of its registers by then.
\<close>

fun ticks :: "regs_context_t list \<Rightarrow> kstate \<Rightarrow> kstate option" where
  "ticks [] s = Some s"
| "ticks (r # rs) s =
     do { s1 \<leftarrow> interrupt_helper 0 (upd_pcb s (current_running s) (\<lambda>c. c\<lparr>user_regs_context := r\<rparr>)); ticks rs s1 }"

text \<open>All tasks that can run are in user mode, and nobody sleeps.\<close>

definition computing :: "kstate \<Rightarrow> (qid \<Rightarrow> nat list) \<Rightarrow> bool" where
  "computing s qs \<longleftrightarrow> halted s = None \<and> qs SleepQ = [] \<and> kcont (pcb s (current_running s)) = K_exit \<and>
     (\<forall>p\<in>set (qs ReadyQ). kcont (pcb s p) = K_exit)"

definition timer_cause :: "regs_context_t \<Rightarrow> bool" where
  "timer_cause r \<longleftrightarrow> cp0_cause r AND 0x8000 \<noteq> 0"

lemma tick_step:
  assumes inv: "sched_inv s qs fs" and c: "computing s qs" and ne: "qs ReadyQ \<noteq> []" and r: "timer_cause r"
  obtains s' where "interrupt_helper 0 (upd_pcb s (current_running s) (\<lambda>c. c\<lparr>user_regs_context := r\<rparr>)) = Some s'"
    "sched_inv s' qs fs" "computing s' qs" "(kstep m)\<^sup>*\<^sup>* s s'"
    "best scheduler_priority (pcb s) (qs ReadyQ) (current_running s')"
    "wait_time (pcb s' (current_running s')) = 0"
    "\<And>p. p \<in> set (qs ReadyQ) \<Longrightarrow> p \<noteq> current_running s' \<Longrightarrow> wait_time (pcb s' p) = wait_time (pcb s p) + 1"
    "\<And>p. scheduler_priority (pcb s' p) = (if p = current_running s' \<and> 1 < scheduler_priority (pcb s p)
        then scheduler_priority (pcb s p) - 1 else scheduler_priority (pcb s p))"
proof -
  let ?cur = "current_running s"
  let ?u = "upd_pcb s ?cur (\<lambda>c. c\<lparr>user_regs_context := r\<rparr>)"
  let ?t = "?u\<lparr>time_elapsed := time_elapsed ?u + 1\<rparr>"
  let ?k = "upd_pcb ?t (current_running ?t) (\<lambda>c. c\<lparr>kcont := K_exit\<rparr>)"
  have "sched_inv ?u qs fs" using inv by (intro sched_inv_upd) (auto simp: task_ok_def)
  then have it: "sched_inv ?t qs fs" by (rule sched_inv_cong) simp_all
  then have ik: "sched_inv ?k qs fs" by (intro sched_inv_upd) (auto simp: task_ok_def)
  have cs: "check_sleeping ?t = Some ?t" by (rule check_sleeping_none[OF it]) (use c in \<open>simp add: computing_def\<close>)
  have ih: "interrupt_helper 0 ?u = scheduler ?k"
    using r cs unfolding interrupt_helper_def irq_timer_def do_scheduler_def Let_def timer_cause_def by simp
  have b: "best scheduler_priority (pcb ?k) (qs ReadyQ) x = best scheduler_priority (pcb s) (qs ReadyQ) x" for x
    by (rule best_cong) simp
  have w: "wait_time (pcb ?k p) = wait_time (pcb s p)" "scheduler_priority (pcb ?k p) = scheduler_priority (pcb s p)" for p by simp_all
  obtain s' where t': "scheduler ?k = Some s'" "sched_inv s' qs fs" "best scheduler_priority (pcb ?k) (qs ReadyQ) (current_running s')"
    "halted s' = halted ?k" "\<forall>p. kcont (pcb s' p) = kcont (pcb ?k p)" "wait_time (pcb s' (current_running s')) = 0"
    "\<forall>p\<in>set (qs ReadyQ). p \<noteq> current_running s' \<longrightarrow> wait_time (pcb s' p) = wait_time (pcb ?k p) + 1"
    by (rule scheduler_inv[OF ik ne]) blast
  note s' = t'[unfolded b w]
  have "current_running s' \<in> set (qs ReadyQ)" using s'(3) by (simp add: best_def)
  then have "computing s' qs" using c s'(4,5) by (simp add: computing_def)
  moreover have "kstep m s ?u" using c by (intro kstep.user) (simp_all add: computing_def)
  moreover have "kstep m ?u s'" by (rule kstep.irq[of _ 0]) (use c ih s'(1) in \<open>simp_all add: computing_def\<close>)
  ultimately show ?thesis
    using s' ih scheduler_priority_step[OF ik ne s'(1), unfolded w] by (intro that[of s']) auto
qed

section \<open>Progress\<close>

text \<open>
  How far task \<open>x\<close> is from its turn: the priority levels above 1 of all ready tasks, and the ready tasks that have waited
  as long as \<open>x\<close>.
\<close>

definition distance :: "kstate \<Rightarrow> nat set \<Rightarrow> nat \<Rightarrow> nat" where
  "distance s R x = (\<Sum>y\<in>R. nat (scheduler_priority (pcb s y) - 1)) + card {y \<in> R. wait_time (pcb s x) \<le> wait_time (pcb s y)}"

lemma distance_step:
  assumes fin: "finite R" and x: "x \<in> R" "x \<noteq> c" and c: "c \<in> R"
    and w: "0 \<le> wait_time (pcb s x)" "1 \<le> scheduler_priority (pcb s x)"
    and best: "scheduler_priority (pcb s x) < scheduler_priority (pcb s c) \<or>
      scheduler_priority (pcb s x) = scheduler_priority (pcb s c) \<and> wait_time (pcb s x) \<le> wait_time (pcb s c)"
    and wc: "wait_time (pcb s' c) = 0" and wo: "\<And>p. p \<in> R \<Longrightarrow> p \<noteq> c \<Longrightarrow> wait_time (pcb s' p) = wait_time (pcb s p) + 1"
    and pr: "\<And>p. scheduler_priority (pcb s' p) = (if p = c \<and> 1 < scheduler_priority (pcb s p)
        then scheduler_priority (pcb s p) - 1 else scheduler_priority (pcb s p))"
  shows "distance s' R x < distance s R x"
proof -
  let ?f = "\<lambda>s y. nat (scheduler_priority (pcb s y) - 1)" and ?A = "\<lambda>s. {y \<in> R. wait_time (pcb s x) \<le> wait_time (pcb s y)}"
  have A: "?A s' = ?A s - {c}"
  proof (intro set_eqI iffI)
    fix y assume y: "y \<in> ?A s'"
    then have "y \<noteq> c" using wo[OF x] wc w(1) by auto
    then show "y \<in> ?A s - {c}" using y wo[OF x] wo[of y] by simp
  qed (use wo[OF x] wo in auto)
  have fA: "finite (?A s)" using fin by simp
  show ?thesis
  proof (cases "1 < scheduler_priority (pcb s c)")
    case True
    have "sum (?f s') R < sum (?f s) R"
      by (rule sum_strict_mono_ex1[OF fin]) (use pr c True in auto)
    moreover have "card (?A s') \<le> card (?A s)" unfolding A by (rule card_mono[OF fA]) blast
    ultimately show ?thesis by (simp add: distance_def)
  next
    case False
    then have "c \<in> ?A s" using best w(2) c by auto
    then have "card (?A s') < card (?A s)" unfolding A by (intro card_Diff1_less[OF fA])
    moreover have "sum (?f s') R \<le> sum (?f s) R" by (rule sum_mono) (use pr in auto)
    ultimately show ?thesis by (simp add: distance_def)
  qed
qed

lemma turn_comes:
  assumes "sched_inv s qs fs" "computing s qs" and x: "x \<in> set (qs ReadyQ)"
    and "list_all timer_cause rs" "distance s (set (qs ReadyQ)) x \<le> length rs"
  shows "\<exists>n s'. 0 < n \<and> n \<le> length rs \<and> ticks (take n rs) s = Some s' \<and> (kstep m)\<^sup>*\<^sup>* s s' \<and> current_running s' = x \<and> sched_inv s' qs fs"
  using assms(1,2,4,5)
proof (induction rs arbitrary: s)
  case Nil
  have "x \<in> {y \<in> set (qs ReadyQ). wait_time (pcb s x) \<le> wait_time (pcb s y)}" using x by simp
  then have "0 < distance s (set (qs ReadyQ)) x" unfolding distance_def by (simp add: card_gt_0_iff) blast
  then show ?case using Nil.prems(4) by simp
next
  case (Cons r rs)
  have ne: "qs ReadyQ \<noteq> []" using x by auto
  have r: "timer_cause r" using Cons.prems(3) by simp
  obtain s1 where s1: "interrupt_helper 0 (upd_pcb s (current_running s) (\<lambda>c. c\<lparr>user_regs_context := r\<rparr>)) = Some s1"
    "sched_inv s1 qs fs" "computing s1 qs" "(kstep m)\<^sup>*\<^sup>* s s1" "best scheduler_priority (pcb s) (qs ReadyQ) (current_running s1)"
    "wait_time (pcb s1 (current_running s1)) = 0"
    "\<And>p. p \<in> set (qs ReadyQ) \<Longrightarrow> p \<noteq> current_running s1 \<Longrightarrow> wait_time (pcb s1 p) = wait_time (pcb s p) + 1"
    "\<And>p. scheduler_priority (pcb s1 p) = (if p = current_running s1 \<and> 1 < scheduler_priority (pcb s p)
        then scheduler_priority (pcb s p) - 1 else scheduler_priority (pcb s p))"
    by (rule tick_step[OF Cons.prems(1,2) ne r]) blast
  show ?case
  proof (cases "current_running s1 = x")
    case True
    then show ?thesis using s1(1,2,4) by (intro exI[of _ 1] exI[of _ s1]) simp
  next
    case False
    have "distance s1 (set (qs ReadyQ)) x < distance s (set (qs ReadyQ)) x"
      by (rule distance_step[where c = "current_running s1"])
        (use False x s1(5-8) sched_invD(3)[OF Cons.prems(1) x] in \<open>auto simp: best_def task_ok_def\<close>)
    then have "distance s1 (set (qs ReadyQ)) x \<le> length rs" using Cons.prems(4) by simp
    with Cons.IH[OF s1(2,3)] Cons.prems(3) obtain n s' where n: "0 < n" "n \<le> length rs" "ticks (take n rs) s1 = Some s'"
      "(kstep m)\<^sup>*\<^sup>* s1 s'" "current_running s' = x" "sched_inv s' qs fs" by auto
    then show ?thesis using s1(1,4) by (intro exI[of _ "Suc n"] exI[of _ s']) auto
  qed
qed

section \<open>Properties\<close>

text \<open>C7. No ready task starves: as long as the tasks only compute and the timer ticks, every ready task is given the processor, at
  the latest after as many ticks as there are ready tasks and priority levels above 1 among them, by steps
  of the kernel machine and whatever the tasks do to their registers.\<close>

theorem no_starvation:
  assumes "sched_inv s qs fs" "computing s qs" "x \<in> set (qs ReadyQ)" and "list_all timer_cause rs"
    and "(\<Sum>y\<in>set (qs ReadyQ). nat (scheduler_priority (pcb s y) - 1)) + length (qs ReadyQ) \<le> length rs"
  shows "\<exists>n s'. 0 < n \<and> n \<le> length rs \<and> ticks (take n rs) s = Some s' \<and> (kstep m)\<^sup>*\<^sup>* s s' \<and> current_running s' = x \<and> sched_inv s' qs fs"
proof -
  have "card {y \<in> set (qs ReadyQ). wait_time (pcb s x) \<le> wait_time (pcb s y)} \<le> card (set (qs ReadyQ))" by (rule card_mono) auto
  also have "\<dots> \<le> length (qs ReadyQ)" by (rule card_length)
  finally show ?thesis using turn_comes[OF assms(1-4)] assms(5) by (simp add: distance_def)
qed

lemma ex_computing: "\<exists>s. sched_inv s boot_queues [3..<MAX_TASK_NUM] \<and> computing s boot_queues"
proof -
  obtain s where s: "idle s" "kinv s boot_queues [3..<MAX_TASK_NUM]" by (rule booted_state) blast
  let ?s = "s\<lparr>pcb := (\<lambda>p. (pcb s p)\<lparr>kcont := K_exit\<rparr>)\<rparr>"
  have "sched_inv ?s boot_queues [3..<MAX_TASK_NUM]"
    using kinvD(1)[OF s(2)] by (rule sched_inv_heap) (auto simp: task_ok_def)
  moreover have "computing ?s boot_queues" using s(1) by (simp add: computing_def idle_def)
  ultimately show ?thesis by blast
qed

theorem no_starvation_witness:
  "\<exists>s n s' m. computing s boot_queues \<and> ticks (replicate n (zero_regs\<lparr>cp0_cause := 0x8000\<rparr>)) s = Some s' \<and>
     (kstep m)\<^sup>*\<^sup>* s s' \<and> current_running s' = 2"
proof -
  obtain s where s: "sched_inv s boot_queues [3..<MAX_TASK_NUM]" "computing s boot_queues" using ex_computing by blast
  define N where "N = (\<Sum>y\<in>set (boot_queues ReadyQ). nat (scheduler_priority (pcb s y) - 1)) + length (boot_queues ReadyQ)"
  let ?r = "zero_regs\<lparr>cp0_cause := 0x8000\<rparr>"
  have r: "list_all timer_cause (replicate N ?r)" by (simp add: list_all_iff timer_cause_def)
  obtain n s' where "ticks (take n (replicate N ?r)) s = Some s'" "(kstep \<lparr>obj_at = unat, task_at = info_shell\<rparr>)\<^sup>*\<^sup>* s s'" "current_running s' = 2"
    using no_starvation[OF s _ r, of 2 "\<lparr>obj_at = unat, task_at = info_shell\<rparr>"] by (auto simp: N_def)
  then show ?thesis using s(2) unfolding take_replicate by blast
qed

end
