(* ===== verification/Start.thy ===== *)
theory Start
  imports Shell_Spec Io_Proc Memory_Spec
begin

text \<open>
  \<^verbatim>\<open>_start\<close> of \<^verbatim>\<open>init/main.c\<close>: the order in which the parts of the system are initialised, and the state they are in when
  interrupts are enabled. \<^verbatim>\<open>asm_start\<close> and \<^verbatim>\<open>set_timer\<close> program the coprocessor and are not part of the state.
\<close>

section \<open>Operations\<close>

record start_state =
  st_mm :: mstate
  st_fs :: fs_state
  st_scr :: screen_t
  st_words :: "u32 \<Rightarrow> u32"

text \<open>What the linker decides: the bounds of the handlers in \<^verbatim>\<open>asm.S\<close>, the entry points of the first tasks, and the functions that
  programs outside the kernel may call.\<close>

record start_env =
  handler_begin :: u32
  handler_end :: u32
  refill_begin :: u32
  refill_end :: u32
  shell_at :: u32
  io_proc_at :: u32
  sys_move_cursor_at :: u32
  printf_at :: u32
  sys_exit_at :: u32
  start_junk :: stack_junk

text \<open>The copy loop of \<^verbatim>\<open>init_exception\<close>.\<close>

partial_function (option) copy_words :: "u32 \<Rightarrow> u32 \<Rightarrow> u32 \<Rightarrow> (u32 \<Rightarrow> u32) \<Rightarrow> (u32 \<Rightarrow> u32) option" where
  "copy_words position fin destination w =
     (if position < fin then copy_words (position + 4) fin (destination + 4) (w(destination := w position)) else Some w)"

definition init_exception :: "start_env \<Rightarrow> (u32 \<Rightarrow> u32) \<Rightarrow> (u32 \<Rightarrow> u32) option" where
  "init_exception e w =
     do { w1 \<leftarrow> copy_words (handler_begin e) (handler_end e) 0x80000180 w;
          copy_words (refill_begin e) (refill_end e) 0x80000000 w1 }"

abbreviation OUTSIDE_CALL_BASE :: u32 where "OUTSIDE_CALL_BASE \<equiv> 0xa0fde000"

definition init_outside_call :: "start_env \<Rightarrow> (u32 \<Rightarrow> u32) \<Rightarrow> u32 \<Rightarrow> u32" where
  "init_outside_call e w =
     w(OUTSIDE_CALL_BASE := sys_move_cursor_at e, OUTSIDE_CALL_BASE + 4 := printf_at e, OUTSIDE_CALL_BASE + 8 := sys_exit_at e)"

definition printstr :: "string \<Rightarrow> screen_t \<Rightarrow> screen_t" where
  "printstr t s = s\<lparr>port := port s @ chars t\<rparr>"

definition start :: "start_env \<Rightarrow> start_state \<Rightarrow> start_state option" where
  "start e st =
     do { let c0 = printstr ''Hello, OS!\<newline>'' (st_scr st);
          c1 \<leftarrow> printk ''> [INIT] Asm_start succeeded.\<newline>'' [] c0;
          w1 \<leftarrow> init_exception e (st_words st);
          c2 \<leftarrow> printk ''> [INIT] Interrupt processing initialization succeeded.\<newline>'' [] c1;
          c3 \<leftarrow> printk ''> [INIT] System call initialization successfully.\<newline>'' [] c2;
          m1 \<leftarrow> init_memory (st_mm st);
          c4 \<leftarrow> printk ''> [INIT] Virtual memory initialization succeeded.\<newline>'' [] c3;
          c5 \<leftarrow> init_screen c4;
          c6 \<leftarrow> vt100_set_color 36 c5;
          k1 \<leftarrow> init_task (info_shell (shell_at e)) (info_io_proc (io_proc_at e)) (ks m1);
          c7 \<leftarrow> screen_printks ''> [INIT] Init task succeeded.\<newline>'' [] c6;
          let w2 = init_outside_call e w1;
          c8 \<leftarrow> screen_printks ''> [INIT] Init outside call succeeded.\<newline>'' [] c7;
          f1 \<leftarrow> init_file_system (start_junk e) (st_fs st);
          c9 \<leftarrow> show_lines (drop (length (console (st_fs st))) (console f1)) c8;
          c10 \<leftarrow> screen_clear 0 (int SCREEN_HEIGHT - 1) c9;
          Some \<lparr>st_mm = m1\<lparr>ks := init_mutex_locks k1\<rparr>, st_fs = f1, st_scr = c10, st_words = w2\<rparr> }"

section \<open>Copying the handlers\<close>

lemma copy_words_eq:
  assumes "unat pos + 4 * n \<le> 2 ^ 32 - 4" "unat fin = unat pos + 4 * n" "unat dest + 4 * n \<le> 2 ^ 32 - 4"
    and "unat dest + 4 * n \<le> unat pos \<or> unat pos + 4 * n \<le> unat dest"
  shows "\<exists>w'. copy_words pos fin dest w = Some w' \<and> (\<forall>k<n. w' (dest + word_of_nat (4 * k)) = w (pos + word_of_nat (4 * k))) \<and>
    (\<forall>a. unat a < unat dest \<or> unat dest + 4 * n \<le> unat a \<longrightarrow> w' a = w a)"
  using assms
proof (induction n arbitrary: pos dest w)
  case 0
  then have "pos = fin" by (simp add: word_unat_eq_iff)
  then have "copy_words pos fin dest w = Some w" by (subst copy_words.simps) simp
  then show ?case by auto
next
  case (Suc n)
  let ?w = "w(dest := w pos)"
  have p4: "unat (pos + 4) = unat pos + 4" "unat (dest + 4) = unat dest + 4"
    using Suc.prems(1,3) by (simp_all add: unat_plus_if')
  have "pos < fin" using Suc.prems(2) by (simp add: word_less_nat_alt)
  then have step: "copy_words pos fin dest w = copy_words (pos + 4) fin (dest + 4) ?w"
    by (subst copy_words.simps) simp
  obtain w' where w': "copy_words (pos + 4) fin (dest + 4) ?w = Some w'"
    "\<forall>k<n. w' (dest + 4 + word_of_nat (4 * k)) = ?w (pos + 4 + word_of_nat (4 * k))"
    "\<forall>a. unat a < unat (dest + 4) \<or> unat (dest + 4) + 4 * n \<le> unat a \<longrightarrow> w' a = ?w a"
  proof -
    have "unat (pos + 4) + 4 * n \<le> 2 ^ 32 - 4" "unat fin = unat (pos + 4) + 4 * n" "unat (dest + 4) + 4 * n \<le> 2 ^ 32 - 4"
      "unat (dest + 4) + 4 * n \<le> unat (pos + 4) \<or> unat (pos + 4) + 4 * n \<le> unat (dest + 4)"
      using Suc.prems p4 by auto
    from Suc.IH[OF this, of ?w] show ?thesis using that by blast
  qed
  have ok: "unat (pos + 4 + word_of_nat (4 * k)) = unat pos + 4 + 4 * k" if "k < n" for k
  proof -
    have "unat (word_of_nat (4 * k) :: u32) = 4 * k" using that Suc.prems(1) by (intro unat_word_of_nat_small) simp
    then show ?thesis using p4 that Suc.prems(1) by (simp add: unat_plus_if')
  qed
  have "w' (dest + word_of_nat (4 * k)) = w (pos + word_of_nat (4 * k))" if "k < Suc n" for k
  proof (cases k)
    case 0
    then show ?thesis using w'(3) p4 by simp
  next
    case (Suc j)
    then have j: "j < n" using that by simp
    have "pos + 4 + word_of_nat (4 * j) \<noteq> dest" using ok[OF j] Suc.prems(4) j by auto
    then show ?thesis using w'(2) j Suc by (simp add: algebra_simps)
  qed
  moreover have "w' a = w a" if "unat a < unat dest \<or> unat dest + 4 * Suc n \<le> unat a" for a
    using that w'(3) p4 by auto
  ultimately show ?case using step w'(1) by auto
qed

text \<open>Where the linker puts the handlers: \<open>n\<close> and \<open>r\<close> words in the kernel, above \<open>0xa0800000\<close>, the refill handler short enough for the
  space below the general one. The words are addressed by their virtual addresses; the copies start at physical address 0 and the
  kernel at 8 MB, so that none of the addresses used here is another name of the same word.\<close>

definition handlers_at :: "start_env \<Rightarrow> nat \<Rightarrow> nat \<Rightarrow> bool" where
  "handlers_at e n r \<longleftrightarrow> 0xa0800000 \<le> unat (handler_begin e) \<and> unat (handler_end e) = unat (handler_begin e) + 4 * n \<and>
     0xa0800000 \<le> unat (refill_begin e) \<and> unat (refill_end e) = unat (refill_begin e) + 4 * r \<and> 4 * r \<le> 0x180 \<and> n \<le> 0x1000 \<and>
     unat (handler_end e) \<le> 0xa0fde000 \<and> unat (refill_end e) \<le> 0xa0fde000"

lemma init_exception_ok:
  assumes h: "handlers_at e n r"
  shows "\<exists>w'. init_exception e w = Some w' \<and>
    (\<forall>k<n. w' (0x80000180 + word_of_nat (4 * k)) = w (handler_begin e + word_of_nat (4 * k))) \<and>
    (\<forall>k<r. w' (0x80000000 + word_of_nat (4 * k)) = w (refill_begin e + word_of_nat (4 * k)))"
proof -
  have H: "0xa0800000 \<le> unat (handler_begin e)" "unat (handler_end e) = unat (handler_begin e) + 4 * n" "unat (handler_end e) \<le> 0xa0fde000"
    "0xa0800000 \<le> unat (refill_begin e)" "unat (refill_end e) = unat (refill_begin e) + 4 * r" "unat (refill_end e) \<le> 0xa0fde000"
    "4 * r \<le> 0x180" "n \<le> 0x1000" using h by (simp_all add: handlers_at_def)
  obtain w1 where w1: "copy_words (handler_begin e) (handler_end e) 0x80000180 w = Some w1"
    "\<forall>k<n. w1 (0x80000180 + word_of_nat (4 * k)) = w (handler_begin e + word_of_nat (4 * k))"
    "\<forall>a. unat a < unat (0x80000180 :: u32) \<or> unat (0x80000180 :: u32) + 4 * n \<le> unat a \<longrightarrow> w1 a = w a"
    using copy_words_eq[of "handler_begin e" n "handler_end e" "0x80000180" w] H by auto
  obtain w2 where w2: "copy_words (refill_begin e) (refill_end e) 0x80000000 w1 = Some w2"
    "\<forall>k<r. w2 (0x80000000 + word_of_nat (4 * k)) = w1 (refill_begin e + word_of_nat (4 * k))"
    "\<forall>a. unat a < unat (0x80000000 :: u32) \<or> unat (0x80000000 :: u32) + 4 * r \<le> unat a \<longrightarrow> w2 a = w1 a"
    using copy_words_eq[of "refill_begin e" r "refill_end e" "0x80000000" w1] H by auto
  have "w2 (0x80000180 + word_of_nat (4 * k)) = w1 (0x80000180 + word_of_nat (4 * k))" if "k < n" for k
  proof -
    have "unat (word_of_nat (4 * k) :: u32) = 4 * k" using that H(8) by (intro unat_word_of_nat_small) simp
    then have "unat (0x80000180 + word_of_nat (4 * k) :: u32) = 0x80000180 + 4 * k" using that H(8) by (simp add: unat_plus_if')
    then show ?thesis using w2(3) H(7) by simp
  qed
  moreover have "w1 (refill_begin e + word_of_nat (4 * k)) = w (refill_begin e + word_of_nat (4 * k))" if "k < r" for k
  proof -
    have "unat (word_of_nat (4 * k) :: u32) = 4 * k" using that H(7) by (intro unat_word_of_nat_small) simp
    then have "unat (refill_begin e + word_of_nat (4 * k)) = unat (refill_begin e) + 4 * k" using that H(5,6) by (simp add: unat_plus_if')
    then show ?thesis using w1(3) H(4,8) by simp
  qed
  ultimately show ?thesis using w1 w2 by (simp add: init_exception_def)
qed

text \<open>The table of the outside calls is far from the vectors.\<close>

lemma init_outside_call_low:
  assumes "k < 0x1000" "b \<le> 0x80000180"
  shows "init_outside_call e w (b + word_of_nat (4 * k)) = w (b + word_of_nat (4 * k))"
proof -
  have b: "unat b \<le> 0x80000180" using assms(2) by (simp add: word_le_nat_alt)
  have "unat (word_of_nat (4 * k) :: u32) = 4 * k" using assms(1) by (intro unat_word_of_nat_small) simp
  then have "unat (b + word_of_nat (4 * k)) < 0xa0fde000" using assms(1) b by (simp add: unat_plus_if')
  then have "b + word_of_nat (4 * k) \<noteq> 0xa0fde000 \<and> b + word_of_nat (4 * k) \<noteq> 0xa0fde004 \<and> b + word_of_nat (4 * k) \<noteq> 0xa0fde008" by auto
  then show ?thesis by (simp add: init_outside_call_def)
qed

section \<open>The screen while starting\<close>

lemma screen_clear_all:
  assumes "screen_ok s"
  shows "\<exists>s'. screen_clear 0 (int SCREEN_HEIGHT - 1) s = Some s' \<and> screen_ok s' \<and> new_screen s' = replicate 2100 32 \<and>
    old_screen s' = replicate 2100 32"
proof -
  have l: "length (new_screen s) = 2100" "length (old_screen s) = 2100" using assms by (simp_all add: screen_ok_def)
  obtain b where b: "for_loop (nat (int 27 - int 0 + 1)) (\<lambda>k. for_loop SCREEN_WIDTH (\<lambda>j. put_cell (cell (int 0 + int k) (int j)) 32)) s = Some (s\<lparr>new_screen := b\<rparr>)"
    "length b = 2100" "\<forall>r<SCREEN_HEIGHT. \<forall>c<SCREEN_WIDTH. at b r c = 32"
    using clear_lines_eq[of 0 27 s] l by auto
  have blank: "b = replicate 2100 32" using b cell_less by (intro buffer_eqI) (auto simp: at_def)
  have "list_all printable (replicate 2100 (32 :: u8))" by (simp add: list_all_iff printable_def)
  then obtain s' where "screen_reflush (s\<lparr>new_screen := b\<rparr>) = Some s'" "new_screen s' = b" "old_screen s' = b" "cur_x s' = cur_x s" "cur_y s' = cur_y s"
    using screen_reflush_ok[of "s\<lparr>new_screen := b\<rparr>" "\<lparr>vt_x = 1, vt_y = 1, display = old_screen s\<rparr>"] l b(2) blank by auto
  then show ?thesis using b(1) blank assms by (simp add: screen_clear_def screen_ok_def)
qed

lemma start_literals:
  "printf_text (chars ''> [INIT] Asm_start succeeded.\<newline>'') [] = Some (chars ''> [INIT] Asm_start succeeded.\<newline>'')"
  "printf_text (chars ''> [INIT] Interrupt processing initialization succeeded.\<newline>'') [] = Some (chars ''> [INIT] Interrupt processing initialization succeeded.\<newline>'')"
  "printf_text (chars ''> [INIT] System call initialization successfully.\<newline>'') [] = Some (chars ''> [INIT] System call initialization successfully.\<newline>'')"
  "printf_text (chars ''> [INIT] Virtual memory initialization succeeded.\<newline>'') [] = Some (chars ''> [INIT] Virtual memory initialization succeeded.\<newline>'')"
  "printf_text (chars ''> [INIT] Init task succeeded.\<newline>'') [] = Some (chars ''> [INIT] Init task succeeded.\<newline>'')"
  "printf_text (chars ''> [INIT] Init outside call succeeded.\<newline>'') [] = Some (chars ''> [INIT] Init outside call succeeded.\<newline>'')"
  "printf_text (chars ''%c[?25l'') [VInt 27] = Some [27, 91, 63, 50, 53, 108]"
  "printf_text (chars ''%c[%dm'') [VInt 27, VInt 36] = Some [27, 91, 51, 54, 109]"
  by code_simp+

lemma printk_total: "printf_text (chars fmt) va = Some t \<Longrightarrow> screen_ok s \<Longrightarrow> \<exists>s'. printk fmt va s = Some s' \<and> screen_ok s'"
  by (simp add: printk_def screen_ok_def)

lemma printks_total: "printf_text (chars fmt) va = Some t \<Longrightarrow> screen_ok s \<Longrightarrow> \<exists>s'. screen_printks fmt va s = Some s' \<and> screen_ok s'"
  using screen_write_ok[of s "t @ [0]"] screen_reflush_total by (fastforce simp: screen_printks_def terminated_def)

text \<open>The messages of \<^verbatim>\<open>_start\<close>, up to those of the file system.\<close>

lemma start_messages:
  assumes scr: "screen_ok s"
  obtains c1 c2 c3 c4 c5 c6 c7 c8 where "printk ''> [INIT] Asm_start succeeded.\<newline>'' [] (printstr ''Hello, OS!\<newline>'' s) = Some c1"
    "printk ''> [INIT] Interrupt processing initialization succeeded.\<newline>'' [] c1 = Some c2"
    "printk ''> [INIT] System call initialization successfully.\<newline>'' [] c2 = Some c3"
    "printk ''> [INIT] Virtual memory initialization succeeded.\<newline>'' [] c3 = Some c4" "init_screen c4 = Some c5"
    "vt100_set_color 36 c5 = Some c6" "screen_printks ''> [INIT] Init task succeeded.\<newline>'' [] c6 = Some c7"
    "screen_printks ''> [INIT] Init outside call succeeded.\<newline>'' [] c7 = Some c8" "screen_ok c8"
proof -
  have c0: "screen_ok (printstr ''Hello, OS!\<newline>'' s)" using scr by (simp add: printstr_def screen_ok_def)
  obtain c1 where c1: "printk ''> [INIT] Asm_start succeeded.\<newline>'' [] (printstr ''Hello, OS!\<newline>'' s) = Some c1" "screen_ok c1"
    using printk_total[OF start_literals(1) c0] by blast
  obtain c2 where c2: "printk ''> [INIT] Interrupt processing initialization succeeded.\<newline>'' [] c1 = Some c2" "screen_ok c2"
    using printk_total[OF start_literals(2) c1(2)] by blast
  obtain c3 where c3: "printk ''> [INIT] System call initialization successfully.\<newline>'' [] c2 = Some c3" "screen_ok c3"
    using printk_total[OF start_literals(3) c2(2)] by blast
  obtain c4 where c4: "printk ''> [INIT] Virtual memory initialization succeeded.\<newline>'' [] c3 = Some c4" "screen_ok c4"
    using printk_total[OF start_literals(4) c3(2)] by blast
  obtain h1 where h1: "printk ''%c[?25l'' [VInt 27] c4 = Some h1" "screen_ok h1" using printk_total[OF start_literals(7) c4(2)] by blast
  obtain c5 where c5: "init_screen c4 = Some c5" "screen_ok c5"
    using screen_clear_all[OF h1(2)] h1(1) by (auto simp: init_screen_def vt100_hidden_cursor_def)
  obtain c6 where c6: "vt100_set_color 36 c5 = Some c6" "screen_ok c6"
    using printk_total[OF start_literals(8) c5(2)] by (auto simp: vt100_set_color_def)
  obtain c7 where c7: "screen_printks ''> [INIT] Init task succeeded.\<newline>'' [] c6 = Some c7" "screen_ok c7"
    using printks_total[OF start_literals(5) c6(2)] by blast
  obtain c8 where c8: "screen_printks ''> [INIT] Init outside call succeeded.\<newline>'' [] c7 = Some c8" "screen_ok c8"
    using printks_total[OF start_literals(6) c7(2)] by blast
  show ?thesis by (rule that[OF c1(1) c2(1) c3(1) c4(1) c5(1) c6(1) c7(1) c8])
qed

section \<open>The memory after starting\<close>

lemma init_memory_bss:
  assumes m: "mm_start m" and k: "ks m = bss"
  shows "\<exists>m'. init_memory m = Some m' \<and> ks m' = bss\<lparr>entry_hi := 0x80000000\<rparr> \<and>
    mm_inv m' [1..<PAGE_TABLE_POOL_SLIST_SIZE] [1..<PM_SLIST_SIZE] \<and> swap_rep m' [1..<SWAP_AREA_SIZE]"
proof -
  obtain m' where m': "init_memory m = Some m'" "mm_inv m' [1..<PAGE_TABLE_POOL_SLIST_SIZE] [1..<PM_SLIST_SIZE]" "swap_rep m' [1..<SWAP_AREA_SIZE]"
    using init_memory_ok[OF m] by blast
  moreover have "ks m' = bss\<lparr>entry_hi := 0x80000000\<rparr>"
    using m'(1) k by (auto simp: init_memory_def init_TLB_def Let_def split: bind_splits)
  ultimately show ?thesis by blast
qed

text \<open>As long as no task has a page table and all of them are free, nothing else about the tasks matters.\<close>

lemma mm_inv_no_pages:
  assumes "mm_inv m [1..<PAGE_TABLE_POOL_SLIST_SIZE] fpm" and "\<forall>p i. i < PDE_NUMBER \<longrightarrow> pde_valid (page_dir (pcb k p) i) = 0"
  shows "mm_inv (m\<lparr>ks := k\<rparr>) [1..<PAGE_TABLE_POOL_SLIST_SIZE] fpm"
proof -
  let ?m = "m\<lparr>ks := k\<rparr>"
  have "\<not> dir_entry ?m p i pl" for p i pl using assms(2) by (simp add: dir_entry_def)
  moreover have "\<not> in_use ?m [1..<PAGE_TABLE_POOL_SLIST_SIZE] pl j" for pl j by (simp add: in_use_def)
  moreover have "pt_rep ?m [1..<PAGE_TABLE_POOL_SLIST_SIZE]" "pm_rep ?m fpm"
    using mm_invD(1,2)[OF assms(1)] by (simp_all add: pt_rep_def pm_rep_def)
  ultimately show ?thesis using mm_invD(3,4)[OF assms(1)] unfolding mm_inv_def by simp
qed

section \<open>Starting the machine\<close>

text \<open>C5. \<^verbatim>\<open>_start\<close> puts the whole machine together: with the memory as the loader leaves it (cleared, the arrays of their declared
  lengths), the handlers where the linker puts them and a formatted card, it runs to the point where interrupts are enabled. Then the
  handlers are at the exception vectors word for word and the entry points of the outside calls are in their table; \<^verbatim>\<open>main\<close> runs, the shell and the input
  process are ready and all other pids are free; every page table, frame and swap slot is free; the file system is mounted with the
  names and bytes the card had; and the screen is blank. So the invariants that the other properties assume of a state hold together
  in the state the system really starts from.\<close>

theorem start_establishes:
  assumes mm: "mm_start (st_mm st)" "ks (st_mm st) = bss" and scr: "screen_ok (st_scr st)" and h: "handlers_at e n r"
    and f: "fs_ok f" "current_dir_pointer f = DARRAY_ADDR" "sb_reserved (super_block f) ! 78 = MAGIC_NUMBER"
    and fs: "disk (st_fs st) = disk f" "length (fd_array_slist (st_fs st)) = FD_ARRAY_SLIST_SIZE"
  shows "\<exists>st'. start e st = Some st' \<and>
    kinv (ks (st_mm st')) ((\<lambda>_. [])(ReadyQ := [1, 2])) [3..<MAX_TASK_NUM] \<and> idle (ks (st_mm st')) \<and>
    mm_inv (st_mm st') [1..<PAGE_TABLE_POOL_SLIST_SIZE] [1..<PM_SLIST_SIZE] \<and> swap_rep (st_mm st') [1..<SWAP_AREA_SIZE] \<and>
    fs_ok (st_fs st') \<and> lookup (st_fs st') = lookup f \<and> ino_used (st_fs st') = ino_used f \<and> inode_at (st_fs st') = inode_at f \<and>
    content (st_fs st') = content f \<and> fd_rep (st_fs st') [1..<FD_ARRAY_SLIST_SIZE] \<and>
    screen_ok (st_scr st') \<and> new_screen (st_scr st') = replicate 2100 32 \<and> old_screen (st_scr st') = replicate 2100 32 \<and>
    (\<forall>k<n. st_words st' (0x80000180 + word_of_nat (4 * k)) = st_words st (handler_begin e + word_of_nat (4 * k))) \<and>
    (\<forall>k<r. st_words st' (0x80000000 + word_of_nat (4 * k)) = st_words st (refill_begin e + word_of_nat (4 * k))) \<and>
    map (st_words st') [0xa0fde000, 0xa0fde004, 0xa0fde008] = [sys_move_cursor_at e, printf_at e, sys_exit_at e]"
proof -
  obtain c1 c2 c3 c4 c5 c6 c7 c8 where c: "printk ''> [INIT] Asm_start succeeded.\<newline>'' [] (printstr ''Hello, OS!\<newline>'' (st_scr st)) = Some c1"
    "printk ''> [INIT] Interrupt processing initialization succeeded.\<newline>'' [] c1 = Some c2"
    "printk ''> [INIT] System call initialization successfully.\<newline>'' [] c2 = Some c3"
    "printk ''> [INIT] Virtual memory initialization succeeded.\<newline>'' [] c3 = Some c4" "init_screen c4 = Some c5"
    "vt100_set_color 36 c5 = Some c6" "screen_printks ''> [INIT] Init task succeeded.\<newline>'' [] c6 = Some c7"
    "screen_printks ''> [INIT] Init outside call succeeded.\<newline>'' [] c7 = Some c8" "screen_ok c8"
    by (rule start_messages[OF scr])
  obtain f1 where f1: "init_file_system (start_junk e) (st_fs st) = Some f1" "fs_ok f1" "current_dir f1 = current_dir f" "ino_used f1 = ino_used f"
    "disk f1 = disk f" "fd_rep f1 [1..<FD_ARRAY_SLIST_SIZE]"
    using restart_ok[OF f fs, of "start_junk e"] by blast
  obtain c9 where c9: "show_lines (drop (length (console (st_fs st))) (console f1)) c8 = Some c9" "screen_ok c9"
    using show_lines_total[OF c(9)] by blast
  obtain c10 where c10: "screen_clear 0 (int SCREEN_HEIGHT - 1) c9 = Some c10" "screen_ok c10" "new_screen c10 = replicate 2100 32"
    "old_screen c10 = replicate 2100 32" using screen_clear_all[OF c9(2)] by blast
  obtain w where w: "init_exception e (st_words st) = Some w"
    "\<forall>k<n. w (0x80000180 + word_of_nat (4 * k)) = st_words st (handler_begin e + word_of_nat (4 * k))"
    "\<forall>k<r. w (0x80000000 + word_of_nat (4 * k)) = st_words st (refill_begin e + word_of_nat (4 * k))"
    using init_exception_ok[OF h, of "st_words st"] by blast
  obtain m1 where m1: "init_memory (st_mm st) = Some m1" "ks m1 = bss\<lparr>entry_hi := 0x80000000\<rparr>"
    "mm_inv m1 [1..<PAGE_TABLE_POOL_SLIST_SIZE] [1..<PM_SLIST_SIZE]" "swap_rep m1 [1..<SWAP_AREA_SIZE]"
    using init_memory_bss[OF mm] by blast
  obtain k1 where k1: "init_task (info_shell (shell_at e)) (info_io_proc (io_proc_at e)) (ks m1) = Some k1" "init_mutex_locks k1 = k1" "idle k1"
    "kinv k1 ((\<lambda>_. [])(ReadyQ := [1, 2])) [3..<MAX_TASK_NUM]" "\<forall>p i. i < PDE_NUMBER \<longrightarrow> pde_valid (page_dir (pcb k1 p) i) = 0"
    using init_task_kinv[of "info_shell (shell_at e)" "info_io_proc (io_proc_at e)" "0x80000000"] unfolding m1(2)
    by (auto simp: info_shell_def info_io_proc_def)
  let ?st = "\<lparr>st_mm = m1\<lparr>ks := k1\<rparr>, st_fs = f1, st_scr = c10, st_words = init_outside_call e w\<rparr>"
  have "start e st = Some ?st"
    using c c9(1) c10(1) f1(1) w(1) m1(1) k1(1,2) by (simp add: start_def)
  moreover have "mm_inv (st_mm ?st) [1..<PAGE_TABLE_POOL_SLIST_SIZE] [1..<PM_SLIST_SIZE]"
    using mm_inv_no_pages[OF m1(3) k1(5)] by simp
  moreover have "swap_rep (st_mm ?st) [1..<SWAP_AREA_SIZE]" using m1(4) by (simp add: swap_rep_def)
  moreover have "init_outside_call e w (0x80000180 + word_of_nat (4 * k)) = w (0x80000180 + word_of_nat (4 * k))" if "k < n" for k
    using that h by (intro init_outside_call_low) (simp_all add: handlers_at_def)
  moreover have "init_outside_call e w (0x80000000 + word_of_nat (4 * k)) = w (0x80000000 + word_of_nat (4 * k))" if "k < r" for k
    using that h by (intro init_outside_call_low) (simp_all add: handlers_at_def)
  moreover have "map (init_outside_call e w) [0xa0fde000, 0xa0fde004, 0xa0fde008] = [sys_move_cursor_at e, printf_at e, sys_exit_at e]"
    by (simp add: init_outside_call_def)
  ultimately show ?thesis
    using k1(3,4) f1 c10(2-) w(2,3) disk_determined(2,3)[OF f1(5)] by (intro exI[of _ ?st]) simp
qed

definition small_env :: start_env where
  "small_env = \<lparr>handler_begin = 0xa0800200, handler_end = 0xa0800240, refill_begin = 0xa0800300, refill_end = 0xa0800320,
     shell_at = 0xa0801000, io_proc_at = 0xa0802000, sys_move_cursor_at = 0xa0803000, printf_at = 0xa0804000, sys_exit_at = 0xa0805000,
     start_junk = zero_junk\<rparr>"

theorem start_establishes_witness:
  "\<exists>f st'. fresh f \<and> start small_env \<lparr>st_mm = zero_mm bss, st_fs = (blank_fs (replicate 65 undefined))\<lparr>disk := disk f\<rparr>,
       st_scr = blank_screen, st_words = (\<lambda>a. a)\<rparr> = Some st' \<and> fs_ok (st_fs st') \<and> idle (ks (st_mm st')) \<and>
     st_words st' 0x80000180 = 0xa0800200 \<and> st_words st' 0x80000004 = 0xa0800304 \<and> st_words st' 0xa0fde004 = 0xa0804000"
proof -
  obtain f where f: "fresh f" using ex_fresh by blast
  define st where "st = \<lparr>st_mm = zero_mm bss, st_fs = (blank_fs (replicate 65 undefined))\<lparr>disk := disk f\<rparr>, st_scr = blank_screen, st_words = (\<lambda>a. a)\<rparr>"
  have F: "fs_ok f" "current_dir_pointer f = DARRAY_ADDR" "sb_reserved (super_block f) ! 78 = MAGIC_NUMBER" using f by (simp_all add: fresh_def)
  have M: "mm_start (st_mm st)" "ks (st_mm st) = bss"
    using mm_start_zero[of bss] by (simp_all add: st_def bss_def zero_pcb_def zero_mm_def)
  have H: "handlers_at small_env 16 8" by (simp add: handlers_at_def small_env_def)
  have C: "screen_ok (st_scr st)" using blank_screen_ok(1) by (simp add: st_def)
  have D: "disk (st_fs st) = disk f" "length (fd_array_slist (st_fs st)) = FD_ARRAY_SLIST_SIZE" by (simp_all add: st_def blank_fs_def)
  obtain st' where S: "start small_env st = Some st'" "idle (ks (st_mm st'))" "fs_ok (st_fs st')"
      "\<forall>k<16. st_words st' (0x80000180 + word_of_nat (4 * k)) = st_words st (handler_begin small_env + word_of_nat (4 * k))"
      "\<forall>k<8. st_words st' (0x80000000 + word_of_nat (4 * k)) = st_words st (refill_begin small_env + word_of_nat (4 * k))"
      "map (st_words st') [0xa0fde000, 0xa0fde004, 0xa0fde008] = [sys_move_cursor_at small_env, printf_at small_env, sys_exit_at small_env]"
    using start_establishes[OF M C H F D] by (elim exE conjE) (rule that; assumption)
  show ?thesis using f S(1-3,6) S(4)[rule_format, of 0] S(5)[rule_format, of 1] by (auto simp: small_env_def st_def)
qed

end
