(* ===== verification/Spec2Isabelle.thy ===== *)
theory Spec2Isabelle
  imports Memory_Spec Io_Proc Library_Spec Fs_Spec Shell_Spec Mailbox Mac Image Tools Sched_Live Start
begin

text \<open>
  A verification of UCAS_OS, a small operating system for the MIPS board LS1C: preemptive processes with
  priorities, blocking synchronisation, paged virtual memory with a software-managed TLB and swapping, a file system
  on the SD card, a terminal screen, a network driver, a mailbox library and a shell.

  \<^bold>\<open>Parts and how they interact.\<close> Everything that is allocated by number (pids, frames, page tables, swap slots,
  file descriptors) comes from a static linked list (\<^verbatim>\<open>libs/slist.c\<close>). Tasks are control blocks in
  one array and are linked into queues (\<^verbatim>\<open>kernel/sched/queue.c\<close>). The scheduler (\<^verbatim>\<open>sched.c\<close>) moves them between the ready queue,
  the sleeping queue and the queues of locks, semaphores, conditions, barriers and waiting tasks
  (\<^verbatim>\<open>kernel/lock\<close>). Exceptions enter through \<^verbatim>\<open>asm.S\<close> and are dispatched by \<^verbatim>\<open>syscall.c\<close>, \<^verbatim>\<open>irq.c\<close> and \<^verbatim>\<open>tlb.c\<close>. Page
  faults use \<^verbatim>\<open>kernel/mm/memory.c\<close> and a task that performs the transfers. The file system (\<^verbatim>\<open>kernel/fs/fs.c\<close>) and the swap use the
  card through \<^verbatim>\<open>arch/mips/pmon/common.c\<close>. Output goes through \<^verbatim>\<open>libs/printk.c\<close> to \<^verbatim>\<open>drivers/screen.c\<close>. The shell
  (\<^verbatim>\<open>kernel/software/shell.c\<close>) uses all of it by system calls.

  \<^bold>\<open>Theories and sources.\<close>

  \<^item> \<open>Prelude\<close>: machine words, arrays with checked access, bounded loops, shared lemmas.
  \<^item> \<open>Slist\<close> (\<^verbatim>\<open>libs/slist.c\<close>), \<open>Queue\<close> (\<^verbatim>\<open>kernel/sched/queue.c\<close>), \<open>Pcb\<close> (the structures of \<^verbatim>\<open>include/sched/sched.h\<close> and
    \<^verbatim>\<open>include/sync\<close>; the kernel state \<open>kstate\<close> is the record of the kernel's globals).
  \<^item> \<open>Sched\<close>, \<open>Process\<close> (\<^verbatim>\<open>kernel/sched/sched.c\<close>, \<^verbatim>\<open>time.c\<close>), \<open>Sync\<close> (\<^verbatim>\<open>kernel/lock/*.c\<close>), \<open>Kernel\<close> (\<^verbatim>\<open>kernel/exception/syscall.c\<close>,
    \<^verbatim>\<open>irq.c\<close>), \<open>Machine\<close> (\<^verbatim>\<open>init_task\<close> of \<^verbatim>\<open>init/main.c\<close> and the step relation). \<open>Sched_Inv\<close> and \<open>Kernel_Inv\<close> hold the
    invariants, \<open>Sched_Live\<close> the progress of the ready tasks under the timer.
  \<^item> \<open>Memory\<close>, \<open>Memory_Inv\<close>, \<open>Memory_Spec\<close> (\<^verbatim>\<open>kernel/mm/memory.c\<close>, \<^verbatim>\<open>kernel/exception/tlb.c\<close>, the TLB routines of \<^verbatim>\<open>asm.S\<close>),
    \<open>Io_Proc\<close> (\<^verbatim>\<open>kernel/software/io_proc.c\<close>).
  \<^item> \<open>CString\<close> (\<^verbatim>\<open>libs/string.c\<close>, \<^verbatim>\<open>memcopy\<close>, \<^verbatim>\<open>atoi\<close>), \<open>Printk\<close> (\<^verbatim>\<open>libs/printk.c\<close>), \<open>Disk\<close> (\<^verbatim>\<open>sdread\<close> and \<^verbatim>\<open>sdwrite\<close> of
    \<^verbatim>\<open>arch/mips/pmon/common.c\<close>); \<open>Library_Spec\<close> holds their properties and those of pools and queues.
  \<^item> \<open>Fs_Codec\<close> (\<^verbatim>\<open>include/fs/fs.h\<close>), \<open>Fs\<close> and \<open>Fs_Ops\<close> (\<^verbatim>\<open>kernel/fs/fs.c\<close>), with the proofs in \<open>Fs_Alloc\<close>, \<open>Fs_Dir\<close>, \<open>Fs_Tree\<close>, \<open>Fs_Init\<close>,
    \<open>Fs_File\<close> and the properties in \<open>Fs_Spec\<close>.
  \<^item> \<open>Screen\<close>, \<open>Screen_Inv\<close> (\<^verbatim>\<open>drivers/screen.c\<close>), \<open>Mac\<close> (\<^verbatim>\<open>drivers/mac.c\<close>), \<open>Mailbox\<close> (\<^verbatim>\<open>libs/mailbox.c\<close>), \<open>Shell\<close> and \<open>Shell_Spec\<close>
    (\<^verbatim>\<open>kernel/software/shell.c\<close>, \<^verbatim>\<open>show_process\<close>, \<^verbatim>\<open>panic\<close>), \<open>Image\<close> (\<^verbatim>\<open>kernel/software/run.c\<close>, \<^verbatim>\<open>tools/createimage.c\<close>), \<open>Tools\<close>
    (\<^verbatim>\<open>tools/convert.c\<close>, \<^verbatim>\<open>tools/print_image.c\<close>, \<^verbatim>\<open>libs/debug.c\<close>).
  \<^item> \<open>Start\<close> (\<^verbatim>\<open>_start\<close> of \<^verbatim>\<open>init/main.c\<close>): the initialisation of all the parts in the order of the code, on the product of their states.
  \<^item> This theory: the properties of the kernel as a machine, of the scheduler, of processes and of synchronisation.

  \<^bold>\<open>How the code is modelled.\<close> An operation is a function on the state in the option monad under the name it has in the source; \<open>None\<close> is an access
  outside an array or through an invalid pointer, so that a theorem that an operation returns \<open>Some\<close> is a
  safety theorem. A pointer to a control block is its index. Hardware words, addresses, sizes and
  bit fields are \<open>32 word\<close> and \<open>8 word\<close> and wrap around; C \<^verbatim>\<open>int\<close> values that are counters, indices or priorities
  are \<open>int\<close> without overflow. \<^verbatim>\<open>panic\<close> sets a flag of the state: the machine has stopped. A
  switch to another task inside a handler is cut: the rest of the handler is a continuation in the control block
  (\<open>kcont\<close>), which \<open>resume\<close> runs when the task is scheduled again. The steps of the machine are the inductive relation \<open>kstep\<close>.
  Firmware, card, network controller, serial port, linker addresses and old stack contents are
  parameters. Loops with a bound in the code are recursion on it; \<open>fread_loop\<close>, \<open>fwrite_loop\<close>, \<open>cat_loop\<close> and \<open>reset_loop\<close> are partial functions
  with \<open>None\<close> for not returning; there is no fuel.

  \<^bold>\<open>Interfaces.\<close> \<open>index_pool\<close> (in \<open>Slist\<close>) is the contract of an allocator of indices; it is interpreted for the static
  list itself, pids, frames, page tables, swap slots and file descriptors. \<open>task_queue\<close> (in \<open>Queue\<close>) is the contract of
  the queues, interpreted for the linked ones. \<open>id_allocator\<close> (in \<open>Fs_Alloc\<close>) is the contract of a first-fit
  bitmap, interpreted for inodes and for data blocks.

  \<^bold>\<open>What is shown.\<close>

  \<^item> Kernel: the invariant of process table, queues, pid pool and locks holds in every state reachable
    from boot; no handler makes a bad access; the functional effect of scheduling, blocking, waking, sleeping,
    spawning, killing, locks, semaphores and barriers; wrappers and dispatcher agree; under the timer no ready task starves.
  \<^item> Start: \<^verbatim>\<open>_start\<close> runs to its end and its final state satisfies the invariants of all the parts at once.
  \<^item> Memory: a TLB miss is served and keeps the page table invariant; address spaces do not overlap; swap slots are
    disjoint; a page swapped out and in again has its contents back.
  \<^item> File system: formatting and mounting give a well-formed system; the effect of \<^verbatim>\<open>touch\<close>, \<^verbatim>\<open>mkdir\<close>, \<^verbatim>\<open>rmdir\<close> and \<^verbatim>\<open>cd\<close> on a
    directory as a finite map; data written is read back, also after the machine has been switched off and on; writing one file
    leaves all others alone.
  \<^item> Library: pools, queues, number formatting, block moves, structure layout and the card driver against their specifications.
  \<^item> Screen: the cursor stays on the screen; a VT100 terminal model that reads the serial port shows the screen buffer.
  \<^item> Mailbox, network, shell and image: ring buffer as a queue, descriptor rings and the order of register writes,
    safety of typing and the path from a typed line to its effect on the file system, the layout of the boot image, and that a converted program can be
    read back.

  \<^bold>\<open>Not modelled.\<close> The saving and restoring of registers in \<^verbatim>\<open>asm.S\<close> and the set-up of the coprocessor (\<^verbatim>\<open>asm_start\<close>,
  \<^verbatim>\<open>set_timer\<close>) are instructions below the level of the model. The constants of \<^verbatim>\<open>regs.h\<close>, \<^verbatim>\<open>asm.h\<close> and
  most of \<^verbatim>\<open>mac_enum.h\<close> are tables no modelled code reads. The busy waits \<^verbatim>\<open>latency\<close> and \<^verbatim>\<open>debug_wait\<close>, \<^verbatim>\<open>init_driver\<close>, which nothing calls, and
  the programs under \<^verbatim>\<open>test\<close> are left out.
\<close>

section \<open>The kernel as a machine\<close>









section \<open>Scheduling\<close>

text \<open>C6. The scheduler runs a ready task of maximal scheduling priority and, among those, of maximal waiting
  time; the chosen task's waiting time is reset, every other ready task has waited one round longer, and
  the address space register holds its pid.\<close>

theorem scheduler_picks_best:
  assumes inv: "sched_inv s qs fs" and ne: "qs ReadyQ \<noteq> []"
  shows "\<exists>s'. scheduler s = Some s' \<and> sched_inv s' qs fs \<and>
    current_running s' \<in> set (qs ReadyQ) \<and>
    (\<forall>y\<in>set (qs ReadyQ). scheduler_priority (pcb s y) < scheduler_priority (pcb s (current_running s')) \<or>
       scheduler_priority (pcb s y) = scheduler_priority (pcb s (current_running s')) \<and>
       wait_time (pcb s y) \<le> wait_time (pcb s (current_running s'))) \<and>
    status (pcb s' (current_running s')) = TASK_RUNNING \<and> wait_time (pcb s' (current_running s')) = 0 \<and>
    (\<forall>y\<in>set (qs ReadyQ). y \<noteq> current_running s' \<longrightarrow> wait_time (pcb s' y) = wait_time (pcb s y) + 1) \<and>
    entry_hi s' = word_of_int (int (current_running s'))"
  by (rule scheduler_inv[OF inv ne]) (auto simp: best_def)

theorem scheduler_picks_best_witness:
  "\<exists>s s'. boot (info_shell 0xa0801000) (info_io_proc 0xa0802000) = Some s \<and> scheduler s = Some s' \<and>
     current_running s' \<in> {1, 2}"
proof -
  obtain s where b: "boot (info_shell 0xa0801000) (info_io_proc 0xa0802000) = Some s"
    "kinv s boot_queues [3..<MAX_TASK_NUM]" by (rule booted_state) blast
  from scheduler_picks_best[OF kinvD(1)[OF b(2)]] b(1) show ?thesis by auto
qed

text \<open>Error: with an empty ready queue the scheduler stops the machine with the message of the code.\<close>

theorem scheduler_panics:
  assumes "sched_inv s qs fs" and "qs ReadyQ = []"
  shows "scheduler s = Some (panic ''no task to run.'' s)"
  using assms by (rule scheduler_panic)

theorem scheduler_panics_witness:
  "\<exists>s. current_running s = 0 \<and> scheduler s = Some (panic ''no task to run.'' s)"
proof -
  obtain s where "kinv s (\<lambda>_. []) [1..<MAX_TASK_NUM]" "idle s" by (rule boot_base) blast
  with scheduler_panics[of s "\<lambda>_. []" "[1..<MAX_TASK_NUM]"] kinvD(1) show ?thesis by (auto simp: idle_def)
qed

text \<open>C8. Blocking: the running task that waits leaves the ready queue, is the last of the queue it waits in with
  the given status, continues later where it was told to, and another ready task runs or the machine panics.\<close>

theorem do_wait_blocks:
  assumes "sched_inv s qs fs" and "current_running s \<in> set (qs ReadyQ)" and "q \<noteq> ReadyQ" and "st \<noteq> TASK_RUNNING"
  shows "\<exists>s'. do_wait s (current_running s) q st k = Some s' \<and>
    sched_inv s' (qs(ReadyQ := remove1 (current_running s) (qs ReadyQ), q := qs q @ [current_running s])) fs \<and>
    status (pcb s' (current_running s)) = st \<and> kcont (pcb s' (current_running s)) = k \<and>
    (if remove1 (current_running s) (qs ReadyQ) = [] then halted s' = Some ''no task to run.''
     else current_running s' \<in> set (remove1 (current_running s) (qs ReadyQ)) \<and> halted s' = halted s)"
  using do_wait_inv[OF assms(1,2,3) refl assms(4), of k] by (auto simp: switched_def best_def)

theorem do_wait_blocks_witness:
  "\<exists>s s'. current_running s \<in> {1, 2} \<and> do_wait s (current_running s) SleepQ TASK_SLEEPING K_exit = Some s' \<and>
     status (pcb s' (current_running s)) = TASK_SLEEPING"
proof -
  obtain s where s: "kinv s boot_queues [3..<MAX_TASK_NUM]" "current_running s \<in> set (boot_queues ReadyQ)"
    by (rule running_state) blast
  from do_wait_blocks[OF kinvD(1)[OF s(1)] s(2), of SleepQ TASK_SLEEPING K_exit] s(2) show ?thesis by auto
qed

text \<open>Waking: \<^verbatim>\<open>do_unblock_one\<close> takes a task of maximal priority (then longest wait) out of the queue, makes
  it ready behind the other ready tasks and raises its scheduling priority by one.\<close>

theorem do_unblock_one_wakes:
  assumes "sched_inv s qs fs" and "q \<noteq> ReadyQ" and "qs q \<noteq> []"
  shows "\<exists>s' x. do_unblock_one s q = Some s' \<and> x \<in> set (qs q) \<and>
    (\<forall>y\<in>set (qs q). priority (pcb s y) < priority (pcb s x) \<or>
       priority (pcb s y) = priority (pcb s x) \<and> wait_time (pcb s y) \<le> wait_time (pcb s x)) \<and>
    sched_inv s' (qs(q := remove1 x (qs q), ReadyQ := qs ReadyQ @ [x])) fs \<and>
    status (pcb s' x) = TASK_READY \<and> scheduler_priority (pcb s' x) = scheduler_priority (pcb s x) + 1 \<and>
    locks s' = locks s \<and> current_running s' = current_running s"
  using do_unblock_one_inv[OF assms] by (auto simp: best_def wake_frame_def sched_frame_def)

theorem do_unblock_one_wakes_witness:
  "\<exists>s s' x. do_unblock_one s RecvQ = Some s' \<and> status (pcb s' x) = TASK_READY \<and> x \<in> {1, 2}"
proof -
  obtain s where s: "kinv s boot_queues [3..<MAX_TASK_NUM]" "current_running s \<in> set (boot_queues ReadyQ)"
    by (rule running_state) blast
  obtain s1 where s1: "sched_inv s1 (boot_queues(ReadyQ := remove1 (current_running s) (boot_queues ReadyQ),
      RecvQ := boot_queues RecvQ @ [current_running s])) [3..<MAX_TASK_NUM]"
    using do_wait_inv[OF kinvD(1)[OF s(1)] s(2), of RecvQ TASK_BLOCKED K_exit] by blast
  from do_unblock_one_wakes[OF s1, of RecvQ] s(2) show ?thesis by auto
qed

text \<open>C9. Sleepers: a tick on which no sleeping task is due changes nothing; otherwise exactly the first task in the
  queue that is due becomes ready, even when others are due as well, and the status the code sets to ready is
  that of the running task.\<close>

theorem check_sleeping_one:
  assumes "sched_inv s qs fs"
  shows "((\<forall>p\<in>set (qs SleepQ). get_ticks s < awakened_time (pcb s p)) \<longrightarrow> check_sleeping s = Some s) \<and>
    (\<forall>as x bs. qs SleepQ = as @ x # bs \<longrightarrow> (\<forall>p\<in>set as. get_ticks s < awakened_time (pcb s p)) \<longrightarrow>
       awakened_time (pcb s x) \<le> get_ticks s \<longrightarrow>
       (\<exists>s'. check_sleeping s = Some s' \<and> sched_inv s' (qs(SleepQ := as @ bs, ReadyQ := qs ReadyQ @ [x])) fs \<and>
          status (pcb s' (current_running s)) = TASK_READY \<and>
          (\<forall>p. p \<noteq> current_running s \<longrightarrow> status (pcb s' p) = status (pcb s p))))"
  using check_sleeping_none[OF assms] check_sleeping_wakes_first[OF assms] by (simp add: expired_def not_le) blast

theorem check_sleeping_one_witness:
  "\<exists>s. boot (info_shell 0xa0801000) (info_io_proc 0xa0802000) = Some s \<and> check_sleeping s = Some s"
proof -
  obtain s where b: "boot (info_shell 0xa0801000) (info_io_proc 0xa0802000) = Some s"
    "kinv s boot_queues [3..<MAX_TASK_NUM]" by (rule booted_state) blast
  from check_sleeping_one[OF kinvD(1)[OF b(2)]] b(1) show ?thesis by simp
qed

section \<open>Processes\<close>

text \<open>C10. \<^verbatim>\<open>spawn\<close>: a new task gets the first free pid, starts ready at its entry point with an empty address
  space, behind the other ready tasks, and no other task changes; without a free pid the caller gets 0.\<close>

theorem init_pcb_spawns:
  assumes "sched_inv s qs fs" and "wait_ok qs fs" and "1 \<le> ti_priority task"
  shows "(fs = [] \<longrightarrow> init_pcb s task = Some (set_v0 s (current_running s) 0)) \<and>
    (\<forall>f fs'. fs = f # fs' \<longrightarrow> (\<exists>s'. init_pcb s task = Some s' \<and>
       sched_inv s' (qs(ReadyQ := qs ReadyQ @ [f])) fs' \<and> status (pcb s' f) = TASK_READY \<and>
       cp0_epc (user_regs_context (pcb s' f)) = entry_point task \<and> lock_num (pcb s' f) = 0 \<and>
       (\<forall>i<PDE_NUMBER. pde_valid (page_dir (pcb s' f) i) = 0) \<and>
       (\<forall>p. p \<noteq> f \<longrightarrow> unlinked (pcb s' p) = unlinked (pcb s p)) \<and> locks s' = locks s))"
proof (intro conjI impI allI)
  fix f fs' assume "fs = f # fs'"
  with assms init_pcb_inv[of s qs f fs' task] show "\<exists>s'. init_pcb s task = Some s' \<and>
       sched_inv s' (qs(ReadyQ := qs ReadyQ @ [f])) fs' \<and> status (pcb s' f) = TASK_READY \<and>
       cp0_epc (user_regs_context (pcb s' f)) = entry_point task \<and> lock_num (pcb s' f) = 0 \<and>
       (\<forall>i<PDE_NUMBER. pde_valid (page_dir (pcb s' f) i) = 0) \<and>
       (\<forall>p. p \<noteq> f \<longrightarrow> unlinked (pcb s' p) = unlinked (pcb s p)) \<and> locks s' = locks s"
    by (auto simp: wait_ok_def)
qed (use assms(1) init_pcb_full in simp)

theorem init_pcb_spawns_witness:
  "\<exists>s s'. boot (info_shell 0xa0801000) (info_io_proc 0xa0802000) = Some s \<and>
     init_pcb s (info_shell 0xa0801000) = Some s' \<and> status (pcb s' 3) = TASK_READY"
proof -
  obtain s where b: "boot (info_shell 0xa0801000) (info_io_proc 0xa0802000) = Some s"
    "kinv s boot_queues [3..<MAX_TASK_NUM]" by (rule booted_state) blast
  have "[3..<MAX_TASK_NUM] = 3 # [4..<MAX_TASK_NUM]" by (simp add: upt_conv_Cons)
  with init_pcb_spawns[OF kinvD(1,2)[OF b(2)], of "info_shell 0xa0801000"] b(1)
  show ?thesis by (auto simp: info_shell_def)
qed

text \<open>C11. \<^verbatim>\<open>kill\<close>: killing a task frees its pid, makes every task that waits for it ready, releases the locks it
  holds and changes no other lock; the caller gets 1, or another task runs if it killed itself.\<close>

theorem kill_effect:
  assumes "kinv s qs fs" and "halted s = None" and "1 < p" and "p < MAX_TASK_NUM" and "pid_is_valid s (int p) = Some 1"
  shows "\<exists>s' qs'. kill s (int p) = Some s' \<and> sched_inv s' qs' (p # fs) \<and> pid_is_valid s' (int p) = Some 0 \<and>
    set (qs (WaitQ p)) - {p} \<subseteq> set (qs' ReadyQ) \<and> qs' (WaitQ p) = [] \<and>
    (\<forall>l. locks s' l = (if lk_owner (locks s l) = int p then \<lparr>lk_status = UNLOCKED, lk_owner = 0\<rparr> else locks s l)) \<and>
    (current_running s \<noteq> p \<longrightarrow> current_running s' = current_running s \<and>
       regs (user_regs_context (pcb s' (current_running s))) 2 = 1) \<and>
    (current_running s = p \<longrightarrow> halted s' = None \<longrightarrow> current_running s' \<in> set (qs' ReadyQ))"
proof -
  note I = kinvD[OF assms(1)]
  have p: "p \<notin> set fs" using pid_is_valid_rep[OF I(1), of "int p"] assms(3-5) by (auto split: if_splits)
  then have lv: "live fs p" using assms(3,4) by (simp add: live_def)
  have cur: "current_running s = 0 \<or> current_running s \<in> set (qs ReadyQ)" using I(3) assms(2) by (simp add: current_ok_def)
  obtain s' qs' where k: "kill s (int p) = Some s'" "sched_inv s' qs' (p # fs)" "wait_ok qs' (p # fs)"
    "set (qs ReadyQ) \<union> set (qs (WaitQ p)) - {p} \<subseteq> set (qs' ReadyQ)" "held s' p MAX_LOCKS_NUM = {}"
    "\<And>j. locks s' j = locks s j \<or> lk_owner (locks s j) = int p \<and> locks s' j = \<lparr>lk_status = UNLOCKED, lk_owner = 0\<rparr>"
    "if current_running s = p then (if qs' ReadyQ = [] then halted s' = Some ''no task to run.''
       else halted s' = halted s \<and> current_running s' \<in> set (qs' ReadyQ))
     else halted s' = halted s \<and> current_running s' = current_running s \<and>
       regs (user_regs_context (pcb s' (current_running s))) 2 = 1"
    using kill_inv[OF I(1,2) cur assms(3,4) p] lock_invD(4)[OF I(4) lv] by auto
  have own: "lk_owner (locks s' l) \<noteq> int p" if "lk_owner (locks s l) = int p" for l
  proof -
    have "l < MAX_LOCKS_NUM" using lock_invD(2)[OF I(4), of l] that assms(3) by auto
    then show ?thesis using k(5) by (auto simp: held_all)
  qed
  have "locks s' l = (if lk_owner (locks s l) = int p then \<lparr>lk_status = UNLOCKED, lk_owner = 0\<rparr> else locks s l)" for l
    using k(6)[of l] own[of l] by (cases "lk_owner (locks s l) = int p") auto
  moreover have "pid_is_valid s' (int p) = Some 0" using pid_is_valid_rep[OF k(2), of "int p"] by simp
  ultimately show ?thesis using k by (auto simp: wait_ok_def split: if_splits)
qed

theorem kill_effect_witness:
  "\<exists>s s'. boot (info_shell 0xa0801000) (info_io_proc 0xa0802000) = Some s \<and> kill s (int 2) = Some s' \<and>
     pid_is_valid s' (int 2) = Some 0"
proof -
  obtain s where b: "boot (info_shell 0xa0801000) (info_io_proc 0xa0802000) = Some s" "idle s"
    "kinv s boot_queues [3..<MAX_TASK_NUM]" by (rule booted_state) blast
  have "pid_is_valid s (int 2) = Some 1" using pid_is_valid_rep[OF kinvD(1)[OF b(3)], of "int 2"] by simp
  with kill_effect[OF b(3), of 2] b(1,2) show ?thesis by (auto simp: idle_def)
qed

text \<open>Errors of \<^verbatim>\<open>kill\<close> and \<^verbatim>\<open>wait\<close>: the shell, pid 0, pids out of range and pids that are not allocated
  cannot be killed, and a task cannot wait for itself or for a task that does not exist; the caller gets 0 and
  nothing else changes.\<close>

theorem kill_wait_refused:
  assumes "sched_inv s qs fs" and "current_running s \<in> set (qs ReadyQ)"
  shows "(p = 1 \<or> pid_is_valid s p = Some 0 \<longrightarrow> kill s p = Some (set_v0 s (current_running s) 0)) \<and>
    (p = pid (pcb s (current_running s)) \<or> pid_is_valid s p = Some 0 \<longrightarrow> wait s p = Some (set_v0 s (current_running s) 0))"
proof -
  have v: "pid_is_valid s p = Some 0 \<longleftrightarrow> p \<le> 0 \<or> int MAX_TASK_NUM \<le> p \<or> nat p \<in> set fs"
    using pid_is_valid_rep[OF assms(1), of p] by auto
  show ?thesis
    using kill_refused[OF assms(1), of p] wait_refused[OF assms, of p] current_pid[OF assms(1)] assms(2) unfolding v by auto
qed

theorem kill_wait_refused_witness:
  "\<exists>s. current_running s \<in> {1, 2} \<and> kill s 1 = Some (set_v0 s (current_running s) 0) \<and>
     wait s (-5) = Some (set_v0 s (current_running s) 0)"
proof -
  obtain s where s: "kinv s boot_queues [3..<MAX_TASK_NUM]" "current_running s \<in> set (boot_queues ReadyQ)"
    by (rule running_state) blast
  have "pid_is_valid s (-5) = Some 0" by (simp add: pid_is_valid_def slist_is_valid_def)
  with kill_wait_refused[OF kinvD(1)[OF s(1)] s(2), of 1] kill_wait_refused[OF kinvD(1)[OF s(1)] s(2), of "-5"] s(2)
  show ?thesis by auto
qed

section \<open>Synchronisation\<close>

text \<open>C12. Mutual exclusion: acquiring a lock that another task holds does not change the lock; the caller is
  blocked in the lock's queue and will test the lock again. Acquiring a free lock makes the caller its owner.\<close>

theorem mutex_acquire:
  assumes inv: "sched_inv s qs fs" and cur: "current_running s \<in> set (qs ReadyQ)"
    and other: "lk_owner (locks s l) \<noteq> int (current_running s)"
  shows "(lk_status (locks s l) = LOCKED \<longrightarrow> (\<exists>s'. do_mutex_lock_acquire s l = Some s' \<and> locks s' = locks s \<and>
       sched_inv s' (qs(ReadyQ := remove1 (current_running s) (qs ReadyQ), LockQ l := qs (LockQ l) @ [current_running s])) fs \<and>
       status (pcb s' (current_running s)) = TASK_BLOCKED \<and> kcont (pcb s' (current_running s)) = K_mutex_loop l)) \<and>
    (lk_status (locks s l) = UNLOCKED \<longrightarrow> (\<exists>s'. do_mutex_lock_acquire s l = Some s' \<and>
       locks s' = (locks s)(l := \<lparr>lk_status = LOCKED, lk_owner = int (current_running s)\<rparr>) \<and>
       current_running s' = current_running s \<and>
       lock_num (pcb s' (current_running s)) = lock_num (pcb s (current_running s)) + 1))"
proof -
  have p: "pid (pcb s (current_running s)) = int (current_running s)" using current_pid[OF inv] cur by simp
  show ?thesis
    using do_wait_inv[OF inv cur, where q = "LockQ l" and st = TASK_BLOCKED and k = "K_mutex_loop l"] other p
    by (auto simp: do_mutex_lock_acquire_def mutex_loop_def lock_take_def Let_def sched_frame_def switched_def)
qed

theorem mutex_acquire_witness:
  "\<exists>s s'. current_running s \<in> {1, 2} \<and> do_mutex_lock_acquire s 5 = Some s' \<and>
     locks s' 5 = \<lparr>lk_status = LOCKED, lk_owner = int (current_running s)\<rparr>"
proof -
  obtain s where s: "kinv s boot_queues [3..<MAX_TASK_NUM]" "current_running s \<in> set (boot_queues ReadyQ)"
    "locks s 5 = \<lparr>lk_status = UNLOCKED, lk_owner = 0\<rparr>" by (rule running_state) blast
  from mutex_acquire[OF kinvD(1)[OF s(1)] s(2), of 5] s(2,3) obtain s' where
    "do_mutex_lock_acquire s 5 = Some s'"
    "locks s' = (locks s)(5 := \<lparr>lk_status = LOCKED, lk_owner = int (current_running s)\<rparr>)" by auto
  then show ?thesis using s(2) by (intro exI[of _ s] exI[of _ s']) auto
qed





text \<open>C15. Barriers: every task but the last blocks; the last one to arrive makes all waiting tasks ready and resets
  the barrier.\<close>

theorem barrier_wait:
  assumes inv: "sched_inv s qs fs" and cur: "current_running s \<in> set (qs ReadyQ)"
  shows "(arrived (barriers s b) + 1 \<noteq> goal (barriers s b) \<longrightarrow> (\<exists>s'. do_barrier_wait s b = Some s' \<and>
       arrived (barriers s' b) = arrived (barriers s b) + 1 \<and> status (pcb s' (current_running s)) = TASK_WAITING \<and>
       sched_inv s' (qs(ReadyQ := remove1 (current_running s) (qs ReadyQ), BarrierQ b := qs (BarrierQ b) @ [current_running s])) fs)) \<and>
    (arrived (barriers s b) + 1 = goal (barriers s b) \<longrightarrow> (\<exists>s'. do_barrier_wait s b = Some s' \<and>
       arrived (barriers s' b) = 0 \<and> current_running s' = current_running s \<and>
       sched_inv s' (qs(BarrierQ b := [], ReadyQ := qs ReadyQ @ qs (BarrierQ b))) fs \<and>
       (\<forall>p\<in>set (qs (BarrierQ b)). status (pcb s' p) = TASK_READY)))"
proof -
  let ?s1 = "s\<lparr>barriers := (barriers s)(b := (barriers s b)\<lparr>arrived := arrived (barriers s b) + 1\<rparr>)\<rparr>"
  let ?s2 = "?s1\<lparr>barriers := (barriers ?s1)(b := (barriers ?s1 b)\<lparr>arrived := 0\<rparr>)\<rparr>"
  have i1: "sched_inv ?s1 qs fs" and i2: "sched_inv ?s2 qs fs" by (rule sched_inv_cong[OF inv]; simp)+
  show ?thesis
    using do_wait_inv[OF i1, where q = "BarrierQ b" and st = TASK_WAITING and k = K_exit] cur
      do_unblock_all_inv[OF i2, of "BarrierQ b"]
    by (auto simp: do_barrier_wait_def Let_def sched_frame_def wake_frame_def)
qed

theorem barrier_wait_witness:
  "\<exists>s s'. current_running s \<in> {1, 2} \<and> do_barrier_wait (do_barrier_init s 4 1) 4 = Some s' \<and> arrived (barriers s' 4) = 0"
proof -
  obtain s where s: "kinv s boot_queues [3..<MAX_TASK_NUM]" "current_running s \<in> set (boot_queues ReadyQ)"
    by (rule running_state) blast
  let ?s = "do_barrier_init s 4 1"
  have "queues s (BarrierQ 4) = queue_init"
    using sched_inv_is_queue[OF kinvD(1)[OF s(1)], of "BarrierQ 4"]
    by (cases "queues s (BarrierQ 4)") (simp add: is_queue_def queue_init_def)
  then have "sched_inv ?s boot_queues [3..<MAX_TASK_NUM]"
    by (intro sched_inv_cong[OF kinvD(1)[OF s(1)]]) (simp_all add: do_barrier_init_def fun_upd_idem)
  from barrier_wait[OF this, of 4] s(2) obtain s' where "do_barrier_wait ?s 4 = Some s'" "arrived (barriers s' 4) = 0"
    by (auto simp: do_barrier_init_def)
  then show ?thesis using s(2) by (intro exI[of _ s] exI[of _ s']) auto
qed

section \<open>System calls\<close>

text \<open>C16. Round trip: the dispatcher of the kernel decodes what the user-side wrapper of a system call passes back to
  that call with its arguments.\<close>

theorem syscall_roundtrip:
  assumes "syscall_args_ok c"
  shows "decode_syscall (syscall_wrapper c) = Some c"
  using assms by (rule decode_syscall_wrapper)

theorem syscall_roundtrip_witness:
  "decode_syscall (syscall_wrapper (Kern (C_kill (-3)))) = Some (Kern (C_kill (-3)))"
  by (rule syscall_roundtrip) (simp add: int_arg_def)

text \<open>Error: the wrappers \<^verbatim>\<open>sys_block\<close>, \<^verbatim>\<open>sys_unblock_one\<close> and \<^verbatim>\<open>sys_unblock_all\<close> have no case in the dispatcher:
  a task that uses one of them stops the machine.\<close>

theorem sys_block_panics:
  assumes "trap_of s \<in> {sys_block q, sys_unblock_one q, sys_unblock_all q}"
  shows "system_call_helper m v s = Some (panic ''unknown syscall.'' (advance_epc s))"
  using assms decode_sys_block[of q] by (auto simp: system_call_helper_def Let_def)

theorem sys_block_panics_witness:
  "\<exists>s. trap_of s = sys_block 64 \<and>
     system_call_helper \<lparr>obj_at = unat, task_at = info_shell\<rparr> None s = Some (panic ''unknown syscall.'' (advance_epc s))"
proof -
  let ?s = "upd_pcb bss 0 (\<lambda>c. c\<lparr>user_regs_context := (user_regs_context c)\<lparr>regs := (\<lambda>_. 0)(4 := 10, 5 := 64)\<rparr>\<rparr>)"
  have t: "trap_of ?s = sys_block 64"
    by (simp add: trap_of_def sys_block_def invoke_syscall_def bss_def upd_pcb_def Let_def)
  with sys_block_panics[of ?s 64 "\<lparr>obj_at = unat, task_at = info_shell\<rparr>" None] show ?thesis by blast
qed

end
